(* ===== verification/Prelude.thy ===== *)
theory Prelude
  imports Main "HOL-Library.Word" "HOL-Library.Monad_Syntax"
begin

text \<open>
  Shared vocabulary of the development: the machine integers of \<^verbatim>\<open>lib/stdint.h\<close>, the macros of
  \<^verbatim>\<open>kernel/global.h\<close> and \<^verbatim>\<open>kernel/debug.h\<close>, the meaning given to control that never comes back,
  and the generic lemmas on words, lists and options that the component theories use.

  Conventions of the whole library.
  \<^item> \<open>uint8_t\<close>, \<open>uint16_t\<close>, \<open>uint32_t\<close> are \<open>8 word\<close>, \<open>16 word\<close>, \<open>32 word\<close>. The signed types
    have the same representation (two's complement); where the C code compares or divides a signed
    value the model reads it with \<open>sint\<close>. A C \<open>-1\<close> is the word \<open>- 1\<close>.
  \<^item> Pointers are 32-bit virtual addresses.
  \<^item> A call that may fail to return has an \<open>option\<close> result. \<open>None\<close> means that control never comes
    back to the caller: a failed \<open>ASSERT\<close> or a \<open>PANIC\<close> ends in the endless loop of \<open>panic_spin\<close>,
    a page fault ends in the endless loop of \<open>general_intr_handler\<close>, and a loop may run for ever.
    It is also the result of C code that writes outside the object it names, where the language
    promises nothing. \<open>Some\<close> carries the value returned and the state left behind.
\<close>

unbundle bit_operations_syntax

named_theorems unat_simps \<open>word arithmetic read as natural numbers\<close>

type_synonym u8 = "8 word"
type_synonym u16 = "16 word"
type_synonym u32 = "32 word"
type_synonym addr = "32 word"
type_synonym memory = "addr \<Rightarrow> u8"

abbreviation NULL :: addr where "NULL \<equiv> 0"
abbreviation PG_SIZE :: u32 where "PG_SIZE \<equiv> 4096"

definition ASSERT :: "bool \<Rightarrow> unit option" where
  "ASSERT c = (if c then Some () else None)"

definition DIV_ROUND_UP :: "u32 \<Rightarrow> u32 \<Rightarrow> u32" where
  "DIV_ROUND_UP X STEP = (X + STEP - 1) div STEP"

section \<open>Options\<close>

lemma ASSERT_simps [simp]:
  "ASSERT True = Some ()" "ASSERT False = None"
  by (simp_all add: ASSERT_def)

lemma ASSERT_eq_Some [simp]: "ASSERT c = Some u \<longleftrightarrow> c"
  by (simp add: ASSERT_def)

lemma ASSERT_eq_None [simp]: "ASSERT c = None \<longleftrightarrow> \<not> c"
  by (simp add: ASSERT_def)

lemma ASSERT_bind_eq_Some [simp]: "Option.bind (ASSERT c) f = Some x \<longleftrightarrow> c \<and> f () = Some x"
  by (simp add: ASSERT_def)

lemma ASSERT_bind_True [simp]: "c \<Longrightarrow> Option.bind (ASSERT c) f = f ()"
  by (simp add: ASSERT_def)

section \<open>Words read as natural numbers\<close>

lemma unat_add_lt [unat_simps]:
  fixes a b :: "'a::len word"
  assumes "unat a + unat b < 2 ^ LENGTH('a)"
  shows "unat (a + b) = unat a + unat b"
  using assms by (simp add: unat_word_ariths)

lemma unat_Suc_lt:
  fixes a b :: "'a::len word"
  assumes "a < b"
  shows "unat (a + 1) = Suc (unat a)"
  proof -
  have "a + 1 \<noteq> 0"
    using assms by (metis add_diff_cancel_right' diff_0 leD word_n1_ge)
  then show ?thesis by (metis add.commute unatSuc)
qed

lemma unat_diff_le [unat_simps]:
  fixes a b :: "'a::len word"
  assumes "b \<le> a"
  shows "unat (a - b) = unat a - unat b"
  using assms by (simp add: unat_sub_if' word_le_nat_alt)

lemma unat_of_nat_lt [unat_simps]:
  assumes "n < 2 ^ LENGTH('a::len)"
  shows "unat (of_nat n :: 'a word) = n"
  using assms by (metis of_nat_inverse)

lemma unat_of_nat_self: "of_nat (unat w) = (w :: 'a::len word)"
  by simp

lemma unat_lt_32 [simp]: "unat (w :: u32) < 2 ^ 32" "unat (w :: u32) < 4294967296"
  using unsigned_less [of w, where ?'a = nat] by simp_all

lemma of_nat_inj_lt:
  fixes i j :: nat
  assumes "i < 2 ^ LENGTH('a::len)" "j < 2 ^ LENGTH('a)"
  shows "(of_nat i :: 'a word) = of_nat j \<longleftrightarrow> i = j"
  using assms by (metis of_nat_inverse)

lemma word_add_of_nat_inj:
  fixes p :: "'a::len word"
  assumes "i < 2 ^ LENGTH('a)" "j < 2 ^ LENGTH('a)"
  shows "p + of_nat i = p + of_nat j \<longleftrightarrow> i = j"
  using assms by (simp add: of_nat_inj_lt)

lemma word_measure_less:
  fixes a b :: "'a::len word"
  assumes "a < b"
  shows "unat b - unat (a + 1) < unat b - unat a"
proof -
  have "unat a < unat b" using assms by (simp add: word_less_nat_alt)
  then show ?thesis using unat_Suc_lt [OF assms] by simp
qed

lemma unat_minus_one_less:
  fixes a :: "'a::len word"
  assumes "a \<noteq> 0"
  shows "unat (a - 1) < unat a"
  using assms by (metis measure_unat)

lemma and_exp_eq_0_iff [simp]:
  fixes w :: "'a::len word"
  assumes "k < LENGTH('a)"
  shows "w AND 2 ^ k = 0 \<longleftrightarrow> \<not> bit w k"
proof
  assume z: "w AND 2 ^ k = 0"
  have "bit (w AND 2 ^ k) k \<longleftrightarrow> bit w k"
    using assms by (simp add: bit_and_iff bit_exp_iff)
  with z show "\<not> bit w k" by simp
next
  assume "\<not> bit w k"
  then show "w AND 2 ^ k = 0"
    by (intro bit_word_eqI) (auto simp: bit_and_iff bit_exp_iff)
qed

lemma or_exp_bit [simp]:
  fixes w :: "'a::len word"
  assumes "k < LENGTH('a)"
  shows "bit (w OR 2 ^ k) i \<longleftrightarrow> bit w i \<or> i = k"
  using assms by (auto simp: bit_or_iff bit_exp_iff)

lemma and_not_exp_bit [simp]:
  fixes w :: "'a::len word"
  shows "bit (w AND NOT (2 ^ k)) i \<longleftrightarrow> bit w i \<and> i \<noteq> k"
  by (auto simp: bit_and_iff bit_not_iff bit_exp_iff dest: bit_imp_le_length)

section \<open>Searching an interval\<close>

lemma find_upt_Some:
  "find P [0..<n] = Some i \<longleftrightarrow> i < n \<and> P i \<and> (\<forall>j < i. \<not> P j)"
  by (auto simp: find_Some_iff)

lemma map_upt_split: "map F [0..<k + n] = map F [0..<k] @ map (\<lambda>j. F (k + j)) [0..<n]"
  by (intro nth_equalityI) (auto simp: nth_append)

lemma find_upt_None: "find P [0..<n] = None \<longleftrightarrow> (\<forall>i < n. \<not> P i)"
  by (auto simp: find_None_iff)

section \<open>Words in byte memory\<close>

text \<open>A 32-bit load and store at any address, low byte first as the processor does.\<close>

definition ld32 :: "memory \<Rightarrow> addr \<Rightarrow> u32" where
  "ld32 m a = ucast (m a) OR push_bit 8 (ucast (m (a + 1))) OR push_bit 16 (ucast (m (a + 2)))
     OR push_bit 24 (ucast (m (a + 3)))"

definition st32 :: "addr \<Rightarrow> u32 \<Rightarrow> memory \<Rightarrow> memory" where
  "st32 a w m = m(a := ucast w, a + 1 := ucast (drop_bit 8 w), a + 2 := ucast (drop_bit 16 w),
     a + 3 := ucast (drop_bit 24 w))"

lemma ld32_cong:
  assumes "m' a = m a" "m' (a + 1) = m (a + 1)" "m' (a + 2) = m (a + 2)" "m' (a + 3) = m (a + 3)"
  shows "ld32 m' a = ld32 m a"
  using assms by (simp add: ld32_def)

lemma ld32_st32 [simp]: "ld32 (st32 a w m) a = w"
proof (rule bit_word_eqI)
  fix n assume "n < LENGTH(32)"
  then show "bit (ld32 (st32 a w m) a) n = bit w n"
    by (cases "n < 8"; cases "n < 16"; cases "n < 24") (auto simp: ld32_def st32_def bit_or_iff bit_push_bit_iff bit_ucast_iff bit_drop_bit_eq
        dest: bit_imp_le_length)
qed

lemma st32_other:
  assumes "3 < x - a"
  shows "st32 a w m x = m x"
  using assms by (auto simp: st32_def)

lemma ld32_st32_other:
  assumes "3 < b - a" "3 < a - b"
  shows "ld32 (st32 a w m) b = ld32 m b"
proof (rule ld32_cong)
  have u: "3 < unat (b - a)" "3 < unat (a - b)" using assms by (simp_all add: word_less_nat_alt)
  have step: "3 < b + of_nat i - a" if "i \<le> 3" for i
  proof -
    have "b \<noteq> a" using assms by auto
    then have "unat (b - a) + unat (a - b) = 2 ^ 32"
      using unat_lt_32(2) [of a] unat_lt_32(2) [of b] by (auto simp: unat_sub_if' word_unat_eq_iff simp del: unat_lt_32)
    then have "unat (b - a) + i < 2 ^ 32" using that u by simp
    then have "unat (b - a + of_nat i) = unat (b - a) + i" using that by (subst unat_add_lt) (simp_all add: unat_of_nat_lt)
    moreover have eq: "b + of_nat i - a = b - a + of_nat i" by simp
    ultimately show ?thesis unfolding eq using u by (simp add: word_less_nat_alt)
  qed
  show "st32 a w m b = m b" "st32 a w m (b + 1) = m (b + 1)" "st32 a w m (b + 2) = m (b + 2)" "st32 a w m (b + 3) = m (b + 3)"
    using st32_other [of b a w m] st32_other [of "b + 1" a w m] st32_other [of "b + 2" a w m] st32_other [of "b + 3" a w m]
      step [of 0] step [of 1] step [of 2] step [of 3] by simp_all
qed

text \<open>Consecutive bytes.\<close>

primrec put_bytes :: "addr \<Rightarrow> u8 list \<Rightarrow> memory \<Rightarrow> memory" where
  "put_bytes p [] m = m"
| "put_bytes p (x # xs) m = put_bytes (p + 1) xs (m(p := x))"

lemma put_bytes_append:
  "put_bytes p (xs @ ys) m = put_bytes (p + of_nat (length xs)) ys (put_bytes p xs m)"
  by (induction xs arbitrary: p m) (simp_all add: add.assoc)

lemma put_bytes_apply:
  assumes "length xs \<le> 2 ^ 32"
  shows "put_bytes p xs m a = (if unat (a - p) < length xs then xs ! unat (a - p) else m a)"
  using assms
proof (induction xs rule: rev_induct)
  case (snoc x xs)
  have "a = p + of_nat (length xs) \<longleftrightarrow> unat (a - p) = length xs"
  proof
    assume "a = p + of_nat (length xs)"
    then show "unat (a - p) = length xs" using snoc.prems by (simp add: unat_of_nat_lt)
  next
    assume "unat (a - p) = length xs"
    then show "a = p + of_nat (length xs)" by (metis add.commute diff_add_cancel unat_of_nat_self)
  qed
  then show ?case using snoc by (auto simp: put_bytes_append nth_append)
qed simp

lemma sint_small:
  assumes "unat (w :: u32) < 2 ^ 31"
  shows "sint w = int (unat w)"
proof -
  have "sint (of_nat n :: u32) = int n" if "n < 2 ^ 31" for n
    using int_word_sint [of "int n", where ?'a = 32] that by simp
  from this [OF assms] show ?thesis by simp
qed

end
