(* ===== verification/Interrupt.thy ===== *)
theory Interrupt
  imports Prelude
begin

text \<open>
  The processor state the kernel code touches and the interrupt flag operations of
  \<^verbatim>\<open>kernel/interrupt.c\<close>. \<open>machine\<close> is the base record; the records of the other components extend it.
  It holds the flags register, the stack pointer, byte memory, and the link cells of the
  doubly linked lists of \<^verbatim>\<open>lib/kernel/list.h\<close>, by the address of the cell.
\<close>

record list_elem =
  lprev :: addr
  lnext :: addr

record machine =
  eflags :: u32
  esp :: addr
  mem :: memory
  elems :: "addr \<Rightarrow> list_elem"

datatype intr_status = INTR_OFF | INTR_ON

abbreviation EFLAGS_IF :: u32 where "EFLAGS_IF \<equiv> 0x200"

definition intr_get_status :: "'a machine_scheme \<Rightarrow> intr_status" where
  "intr_get_status s = (if EFLAGS_IF AND eflags s \<noteq> 0 then INTR_ON else INTR_OFF)"

definition intr_enable :: "'a machine_scheme \<Rightarrow> intr_status \<times> 'a machine_scheme" where
  "intr_enable s =
     (if intr_get_status s = INTR_ON then (INTR_ON, s)
      else (INTR_OFF, s\<lparr>eflags := eflags s OR EFLAGS_IF\<rparr>))"

definition intr_disable :: "'a machine_scheme \<Rightarrow> intr_status \<times> 'a machine_scheme" where
  "intr_disable s =
     (if intr_get_status s = INTR_ON then (INTR_ON, s\<lparr>eflags := eflags s AND NOT EFLAGS_IF\<rparr>)
      else (INTR_OFF, s))"

definition intr_set_status :: "intr_status \<Rightarrow> 'a machine_scheme \<Rightarrow> intr_status \<times> 'a machine_scheme" where
  "intr_set_status status s =
     (case status of INTR_ON \<Rightarrow> intr_enable s | INTR_OFF \<Rightarrow> intr_disable s)"

section \<open>Lemmas\<close>

lemma intr_get_status_bit: "intr_get_status s = INTR_ON \<longleftrightarrow> bit (eflags s) 9"
  using and_exp_eq_0_iff [of 9 "eflags s"] by (simp add: intr_get_status_def and.commute)

lemma intr_get_status_off: "intr_get_status s = INTR_OFF \<longleftrightarrow> \<not> bit (eflags s) 9"
  using intr_get_status_bit [of s] by (cases "intr_get_status s") auto

lemma eflags_restore: "bit w 9 \<Longrightarrow> (w AND NOT EFLAGS_IF) OR EFLAGS_IF = (w :: u32)"
  using or_exp_bit [of 9 "w AND NOT EFLAGS_IF"] and_not_exp_bit [of w 9]
  by (intro bit_word_eqI) auto

lemma intr_disable_off: "\<not> bit (eflags (snd (intr_disable s))) 9"
  using intr_get_status_bit [of s] and_not_exp_bit [of "eflags s" 9 9]
  by (auto simp: intr_disable_def)

lemma intr_disable_frame [simp]:
  "elems (snd (intr_disable s)) = elems s" "mem (snd (intr_disable s)) = mem s"
  "esp (snd (intr_disable s)) = esp s" "machine.more (snd (intr_disable s)) = machine.more s"
  by (simp_all add: intr_disable_def)

text \<open>
  The bracket every critical section of the kernel uses: what is done between \<open>intr_disable\<close> and
  \<open>intr_set_status\<close> runs with interrupts off, and afterwards the flags are those of before.
\<close>

lemma intr_bracket:
  assumes "intr_disable s = (old, s1)" "eflags s2 = eflags s1"
  shows "intr_set_status old s2 = (INTR_OFF, s2\<lparr>eflags := eflags s\<rparr>)"
proof (cases "bit (eflags s) 9")
  case True
  then have "old = INTR_ON" "eflags s1 = eflags s AND NOT EFLAGS_IF"
    using assms(1) by (auto simp: intr_disable_def intr_get_status_bit)
  moreover have "\<not> bit (eflags s2) 9" using assms intr_disable_off [of s] by simp
  ultimately show ?thesis
    using assms(2) eflags_restore [OF True]
    by (simp add: intr_set_status_def intr_enable_def intr_get_status_bit)
next
  case False
  then have "old = INTR_OFF" "s1 = s"
    using assms(1) by (auto simp: intr_disable_def intr_get_status_bit)
  then show ?thesis
    using assms(2) False by (simp add: intr_set_status_def intr_disable_def intr_get_status_bit)
qed

end
