(* ===== verification/Fifo.thy ===== *)
theory Fifo
  imports Prelude
begin

text \<open>
  The contract of a first-in first-out queue, as the scheduler and the wait queues use the linked
  lists of \<^verbatim>\<open>lib/kernel/list.c\<close> (append at the tail, pop at the head) and as the keyboard driver uses the
  ring buffer of \<^verbatim>\<open>device/ioqueue.c\<close>. The implementation is a relation between a state and the
  sequence of elements it holds; \<open>room\<close> is what the client must see to before it puts an element.
  The simulation theorem \<open>run_queue\<close> of the locale is proved once and used at both interpretations.
\<close>

datatype 'e qop = Put 'e | Get

primrec run_ops :: "('e \<Rightarrow> 's \<Rightarrow> 's) \<Rightarrow> ('s \<Rightarrow> 'e \<times> 's) \<Rightarrow> 'e qop list \<Rightarrow> 's \<Rightarrow> 'e list \<times> 's" where
  "run_ops put get [] s = ([], s)"
| "run_ops put get (c # cs) s =
     (case c of
        Put e \<Rightarrow> run_ops put get cs (put e s)
      | Get \<Rightarrow> (let (x, s) = get s; (out, s) = run_ops put get cs s in (x # out, s)))"

text \<open>The reference: the same operations on a plain list; \<open>None\<close> when the client breaks its side.\<close>

primrec run_spec :: "('e list \<Rightarrow> 'e \<Rightarrow> bool) \<Rightarrow> 'e qop list \<Rightarrow> 'e list \<Rightarrow> ('e list \<times> 'e list) option" where
  "run_spec room [] xs = Some ([], xs)"
| "run_spec room (c # cs) xs =
     (case c of
        Put e \<Rightarrow> if room xs e then run_spec room cs (xs @ [e]) else None
      | Get \<Rightarrow> (case xs of [] \<Rightarrow> None
               | x # xs' \<Rightarrow> map_option (\<lambda>(out, ys). (x # out, ys)) (run_spec room cs xs')))"

locale fifo =
  fixes holds :: "'s \<Rightarrow> 'e list \<Rightarrow> bool"
    and room :: "'e list \<Rightarrow> 'e \<Rightarrow> bool"
    and put :: "'e \<Rightarrow> 's \<Rightarrow> 's"
    and get :: "'s \<Rightarrow> 'e \<times> 's"
  assumes put_law: "holds s xs \<Longrightarrow> room xs e \<Longrightarrow> holds (put e s) (xs @ [e])"
    and get_law: "holds s (x # xs) \<Longrightarrow> fst (get s) = x \<and> holds (snd (get s)) xs"
begin

lemma run_queue:
  assumes "run_spec room cs xs = Some (out, ys)" "holds s xs"
  shows "fst (run_ops put get cs s) = out" "holds (snd (run_ops put get cs s)) ys"
proof -
  have "fst (run_ops put get cs s) = out \<and> holds (snd (run_ops put get cs s)) ys"
    using assms
  proof (induction cs arbitrary: xs s out)
    case (Cons c cs)
    show ?case
    proof (cases c)
      case (Put e)
      with Cons show ?thesis using put_law [of s xs e] by (auto split: if_splits)
    next
      case Get
      with Cons.prems obtain x xs' out' where x: "xs = x # xs'" "out = x # out'"
        "run_spec room cs xs' = Some (out', ys)"
        by (auto split: list.splits)
      have "fst (get s) = x" "holds (snd (get s)) xs'" using get_law Cons.prems(2) x(1) by auto
      then show ?thesis
        using Cons.IH [OF x(3)] Get x(2) by (simp add: case_prod_unfold Let_def)
    qed
  qed simp
  then show "fst (run_ops put get cs s) = out" "holds (snd (run_ops put get cs s)) ys" by auto
qed

end

end
