(* ===== verification/DList.thy ===== *)
theory DList
  imports Interrupt Fifo
begin

text \<open>
  \<^verbatim>\<open>lib/kernel/list.c\<close>: the intrusive doubly linked lists behind the ready queue, the wait queues of
  semaphores, the free lists of the heap and the open-inode list. A \<open>struct list\<close> at address \<open>l\<close> is two
  link cells, \<open>head\<close> at \<open>l\<close> and \<open>tail\<close> at \<open>l + 8\<close>; an element is the address of its link cell.
  Insertion and removal are the pointer assignments of the source, in order, inside the
  interrupt bracket.

  \<open>dlist h l xs\<close> says that the cells from \<open>head\<close> to \<open>tail\<close> are linked both ways and hold exactly the elements
  \<open>xs\<close>. The lemmas show that each operation does to \<open>xs\<close> what its name says and leaves every other list
  alone; the locale \<open>fifo\<close> states the queue contract that the ready list and the ring buffer of
  \<^verbatim>\<open>device/ioqueue.c\<close> share.
\<close>

section \<open>The operations\<close>

definition tail_of :: "addr \<Rightarrow> addr" where
  "tail_of plist = plist + 8"

definition set_lnext :: "addr \<Rightarrow> addr \<Rightarrow> 'a machine_scheme \<Rightarrow> 'a machine_scheme" where
  "set_lnext a v s = s\<lparr>elems := (elems s)(a := (elems s a)\<lparr>lnext := v\<rparr>)\<rparr>"

definition set_lprev :: "addr \<Rightarrow> addr \<Rightarrow> 'a machine_scheme \<Rightarrow> 'a machine_scheme" where
  "set_lprev a v s = s\<lparr>elems := (elems s)(a := (elems s a)\<lparr>lprev := v\<rparr>)\<rparr>"

definition list_init :: "addr \<Rightarrow> 'a machine_scheme \<Rightarrow> 'a machine_scheme" where
  "list_init l s =
     (let s = set_lprev l NULL s;
          s = set_lnext l (tail_of l) s;
          s = set_lprev (tail_of l) l s
      in set_lnext (tail_of l) NULL s)"

definition list_insert_before :: "addr \<Rightarrow> addr \<Rightarrow> 'a machine_scheme \<Rightarrow> 'a machine_scheme" where
  "list_insert_before before elem s =
     (let (old_status, s) = intr_disable s;
          s = set_lnext (lprev (elems s before)) elem s;
          s = set_lprev elem (lprev (elems s before)) s;
          s = set_lnext elem before s;
          s = set_lprev before elem s
      in snd (intr_set_status old_status s))"

definition list_push :: "addr \<Rightarrow> addr \<Rightarrow> 'a machine_scheme \<Rightarrow> 'a machine_scheme" where
  "list_push plist elem s = list_insert_before (lnext (elems s plist)) elem s"

definition list_append :: "addr \<Rightarrow> addr \<Rightarrow> 'a machine_scheme \<Rightarrow> 'a machine_scheme" where
  "list_append plist elem s = list_insert_before (tail_of plist) elem s"

definition list_remove :: "addr \<Rightarrow> 'a machine_scheme \<Rightarrow> 'a machine_scheme" where
  "list_remove pelem s =
     (let (old_status, s) = intr_disable s;
          s = set_lnext (lprev (elems s pelem)) (lnext (elems s pelem)) s;
          s = set_lprev (lnext (elems s pelem)) (lprev (elems s pelem)) s
      in snd (intr_set_status old_status s))"

definition list_pop :: "addr \<Rightarrow> 'a machine_scheme \<Rightarrow> addr \<times> 'a machine_scheme" where
  "list_pop plist s =
     (let elem = lnext (elems s plist)
      in (elem, list_remove elem s))"

definition list_empty :: "addr \<Rightarrow> 'a machine_scheme \<Rightarrow> bool" where
  "list_empty plist s \<longleftrightarrow> lnext (elems s plist) = tail_of plist"

partial_function (option) elem_find_loop ::
    "(addr \<Rightarrow> list_elem) \<Rightarrow> addr \<Rightarrow> addr \<Rightarrow> addr \<Rightarrow> bool option" where
  "elem_find_loop h tail obj elem =
     (if elem = tail then Some False
      else if elem = obj then Some True
      else elem_find_loop h tail obj (lnext (h elem)))"

definition elem_find :: "addr \<Rightarrow> addr \<Rightarrow> 'a machine_scheme \<Rightarrow> bool option" where
  "elem_find plist obj_elem s =
     elem_find_loop (elems s) (tail_of plist) obj_elem (lnext (elems s plist))"

text \<open>\<open>func\<close> may change the state (the callback \<open>mount_partition\<close> does), so the loop threads it.\<close>

partial_function (option) list_traversal_loop ::
    "(addr \<Rightarrow> u32 \<Rightarrow> 'a machine_scheme \<Rightarrow> (bool \<times> 'a machine_scheme) option) \<Rightarrow> u32 \<Rightarrow>
     addr \<Rightarrow> addr \<Rightarrow> 'a machine_scheme \<Rightarrow> (addr \<times> 'a machine_scheme) option" where
  "list_traversal_loop func arg tail elem s =
     (if elem = tail then Some (NULL, s)
      else do {
        r \<leftarrow> func elem arg s;
        (if fst r then Some (elem, snd r)
         else list_traversal_loop func arg tail (lnext (elems (snd r) elem)) (snd r)) })"

definition list_traversal ::
    "addr \<Rightarrow> (addr \<Rightarrow> u32 \<Rightarrow> 'a machine_scheme \<Rightarrow> (bool \<times> 'a machine_scheme) option) \<Rightarrow> u32 \<Rightarrow>
     'a machine_scheme \<Rightarrow> (addr \<times> 'a machine_scheme) option" where
  "list_traversal plist func arg s =
     (let elem = lnext (elems s plist)
      in if list_empty plist s then Some (NULL, s)
         else list_traversal_loop func arg (tail_of plist) elem s)"

partial_function (option) list_len_loop ::
    "(addr \<Rightarrow> list_elem) \<Rightarrow> addr \<Rightarrow> addr \<Rightarrow> u32 \<Rightarrow> u32 option" where
  "list_len_loop h tail elem n =
     (if elem = tail then Some n else list_len_loop h tail (lnext (h elem)) (n + 1))"

definition list_len :: "addr \<Rightarrow> 'a machine_scheme \<Rightarrow> u32 option" where
  "list_len plist s = list_len_loop (elems s) (tail_of plist) (lnext (elems s plist)) 0"

text \<open>The abstraction: a chain of cells linked both ways.\<close>

fun linked :: "(addr \<Rightarrow> list_elem) \<Rightarrow> addr list \<Rightarrow> bool" where
  "linked h (a # b # ns) \<longleftrightarrow> lnext (h a) = b \<and> lprev (h b) = a \<and> linked h (b # ns)"
| "linked h ns \<longleftrightarrow> True"

definition cells :: "addr \<Rightarrow> addr list \<Rightarrow> addr list" where
  "cells l xs = l # xs @ [tail_of l]"

definition dlist :: "(addr \<Rightarrow> list_elem) \<Rightarrow> addr \<Rightarrow> addr list \<Rightarrow> bool" where
  "dlist h l xs \<longleftrightarrow> distinct (cells l xs) \<and> linked h (cells l xs)"

text \<open>
  The pointer assignments as one update of the link cells; the flags, memory and every other
  component of the state are as before.
\<close>

definition insert_cells :: "addr \<Rightarrow> addr \<Rightarrow> (addr \<Rightarrow> list_elem) \<Rightarrow> addr \<Rightarrow> list_elem" where
  "insert_cells b e h =
     (let p = lprev (h b); h = h(p := (h p)\<lparr>lnext := e\<rparr>);
          h = h(e := (h e)\<lparr>lprev := lprev (h b)\<rparr>); h = h(e := (h e)\<lparr>lnext := b\<rparr>)
      in h(b := (h b)\<lparr>lprev := e\<rparr>))"

definition remove_cells :: "addr \<Rightarrow> (addr \<Rightarrow> list_elem) \<Rightarrow> addr \<Rightarrow> list_elem" where
  "remove_cells e h =
     (let p = lprev (h e); h = h(p := (h p)\<lparr>lnext := lnext (h e)\<rparr>); n = lnext (h e)
      in h(n := (h n)\<lparr>lprev := lprev (h e)\<rparr>))"

section \<open>Chains of cells\<close>

lemma tail_of_neq [simp]: "tail_of l \<noteq> l" "l \<noteq> tail_of l"
  by (simp_all add: tail_of_def)

lemma linked_split:
  "linked h (xs @ a # ys) \<longleftrightarrow> linked h (xs @ [a]) \<and> linked h (a # ys)"
proof (induction xs)
  case Nil
  then show ?case by simp
next
  case (Cons x xs)
  then show ?case by (cases xs) auto
qed

lemma linked_cong:
  assumes "\<forall>a \<in> set (butlast ns). lnext (h' a) = lnext (h a)"
    and "\<forall>a \<in> set (tl ns). lprev (h' a) = lprev (h a)"
  shows "linked h' ns \<longleftrightarrow> linked h ns"
  using assms by (induction h ns rule: linked.induct) auto

lemma linked_cong_front:
  assumes "\<forall>a \<in> set ns. lnext (h' a) = lnext (h a)" "\<forall>a \<in> insert p (set ns). lprev (h' a) = lprev (h a)"
  shows "linked h' (ns @ [p]) \<longleftrightarrow> linked h (ns @ [p])"
  using assms by (intro linked_cong) (auto simp: tl_append split: list.splits)

lemma linked_cong_back:
  assumes "\<forall>a \<in> insert b (set ns). lnext (h' a) = lnext (h a)" "\<forall>a \<in> set ns. lprev (h' a) = lprev (h a)"
  shows "linked h' (b # ns) \<longleftrightarrow> linked h (b # ns)"
  using assms by (intro linked_cong) (auto dest: in_set_butlastD split: if_splits)

lemma dlist_cong:
  assumes "\<forall>a \<in> set (cells l xs). h' a = h a"
  shows "dlist h' l xs \<longleftrightarrow> dlist h l xs"
  using assms unfolding dlist_def
  by (metis linked_cong in_set_butlastD list.set_sel(2) tl_Nil)

lemma set_lnext_frame [simp]:
  "eflags (set_lnext a v s) = eflags s" "esp (set_lnext a v s) = esp s"
  "mem (set_lnext a v s) = mem s" "machine.more (set_lnext a v s) = machine.more s"
  "elems (set_lnext a v s) = (elems s)(a := (elems s a)\<lparr>lnext := v\<rparr>)"
  by (simp_all add: set_lnext_def)

lemma set_lprev_frame [simp]:
  "eflags (set_lprev a v s) = eflags s" "esp (set_lprev a v s) = esp s"
  "mem (set_lprev a v s) = mem s" "machine.more (set_lprev a v s) = machine.more s"
  "elems (set_lprev a v s) = (elems s)(a := (elems s a)\<lparr>lprev := v\<rparr>)"
  by (simp_all add: set_lprev_def)

lemma bracket_elems:
  assumes "intr_disable s = (old, s1)" "eflags s2 = eflags s1" "esp s2 = esp s1" "mem s2 = mem s1"
    "machine.more s2 = machine.more s1"
  shows "snd (intr_set_status old s2) = s\<lparr>elems := elems s2\<rparr>"
proof -
  have s1: "esp s1 = esp s" "mem s1 = mem s" "machine.more s1 = machine.more s"
    using assms(1) intr_disable_frame [of s] by simp_all
  have "snd (intr_set_status old s2) = s2\<lparr>eflags := eflags s\<rparr>"
    using intr_bracket [OF assms(1,2)] by simp
  also have "\<dots> = s\<lparr>elems := elems s2\<rparr>"
    using assms(3-5) s1 by (simp add: machine.splits)
  finally show ?thesis .
qed

lemma list_insert_before_eq:
  "list_insert_before b e s = s\<lparr>elems := insert_cells b e (elems s)\<rparr>"
proof (cases "intr_disable s")
  case (Pair old s1)
  then have "elems s1 = elems s" using intr_disable_frame [of s] by simp
  with Pair show ?thesis
    unfolding list_insert_before_def
    by (simp add: Let_def bracket_elems [OF Pair]) (simp add: insert_cells_def Let_def)
qed

lemma list_remove_eq: "list_remove e s = s\<lparr>elems := remove_cells e (elems s)\<rparr>"
proof (cases "intr_disable s")
  case (Pair old s1)
  then have "elems s1 = elems s" using intr_disable_frame [of s] by simp
  with Pair show ?thesis
    unfolding list_remove_def
    by (simp add: Let_def bracket_elems [OF Pair]) (simp add: remove_cells_def Let_def)
qed

lemma linked_link: "linked h (ns1 @ p # b # ns2) \<Longrightarrow> lprev (h b) = p \<and> lnext (h p) = b"
  using linked_split [of h ns1 p "b # ns2"] by simp

lemma insert_cells_eq:
  assumes "lprev (h b) = p" "distinct [p, e, b]"
  shows "insert_cells b e h =
    h(p := (h p)\<lparr>lnext := e\<rparr>, e := (h e)\<lparr>lprev := p, lnext := b\<rparr>, b := (h b)\<lparr>lprev := e\<rparr>)"
  using assms by (auto simp: insert_cells_def Let_def fun_eq_iff)

lemma remove_cells_eq:
  assumes "lprev (h e) = p" "lnext (h e) = n" "distinct [p, e, n]"
  shows "remove_cells e h = h(p := (h p)\<lparr>lnext := n\<rparr>, n := (h n)\<lparr>lprev := p\<rparr>)"
  using assms by (auto simp: remove_cells_def Let_def fun_eq_iff)

lemma linked_insert:
  assumes "linked h (ns1 @ p # b # ns2)" "distinct (ns1 @ p # b # ns2)" "e \<notin> set (ns1 @ p # b # ns2)"
  shows "linked (insert_cells b e h) (ns1 @ p # e # b # ns2)"
proof -
  have eq: "insert_cells b e h =
      h(p := (h p)\<lparr>lnext := e\<rparr>, e := (h e)\<lparr>lprev := p, lnext := b\<rparr>, b := (h b)\<lparr>lprev := e\<rparr>)"
    using assms linked_link [OF assms(1)] by (intro insert_cells_eq) auto
  have "linked h (ns1 @ [p])" "linked h (b # ns2)"
    using assms(1) linked_split [of h ns1 p "b # ns2"] by auto
  moreover have "linked (insert_cells b e h) (ns1 @ [p]) \<longleftrightarrow> linked h (ns1 @ [p])"
    unfolding eq by (rule linked_cong_front) (use assms(2,3) in auto)
  moreover have "linked (insert_cells b e h) (b # ns2) \<longleftrightarrow> linked h (b # ns2)"
    unfolding eq by (rule linked_cong_back) (use assms(2,3) in auto)
  ultimately show ?thesis
    using assms(2,3) by (subst linked_split) (auto simp: eq)
qed

lemma linked_remove:
  assumes "linked h (ns1 @ p # e # n # ns2)" "distinct (ns1 @ p # e # n # ns2)"
  shows "linked (remove_cells e h) (ns1 @ p # n # ns2)"
proof -
  have links: "lprev (h e) = p" "lnext (h e) = n"
    using linked_link [of h ns1 p e "n # ns2"] linked_link [of h "ns1 @ [p]" e n ns2] assms(1) by auto
  have eq: "remove_cells e h = h(p := (h p)\<lparr>lnext := n\<rparr>, n := (h n)\<lparr>lprev := p\<rparr>)"
    using assms(2) links by (intro remove_cells_eq) auto
  have "linked h (ns1 @ [p])" "linked h (n # ns2)"
    using assms(1) linked_split [of h ns1 p "e # n # ns2"] by auto
  moreover have "linked (remove_cells e h) (ns1 @ [p]) \<longleftrightarrow> linked h (ns1 @ [p])"
    unfolding eq by (rule linked_cong_front) (use assms(2) in auto)
  moreover have "linked (remove_cells e h) (n # ns2) \<longleftrightarrow> linked h (n # ns2)"
    unfolding eq by (rule linked_cong_back) (use assms(2) in auto)
  ultimately show ?thesis
    using assms(2) by (subst linked_split) (auto simp: eq)
qed

section \<open>The operations on lists of elements\<close>

text \<open>Inserting between two neighbours, and removing one element, wherever they are.\<close>

lemma dlist_insert:
  assumes "dlist h l (xs @ ys)" "e \<notin> set (cells l (xs @ ys))" "b = hd (ys @ [tail_of l])"
  shows "dlist (insert_cells b e h) l (xs @ e # ys)"
proof -
  obtain ns1 p where p: "l # xs = ns1 @ [p]" by (metis append_butlast_last_id list.distinct(1))
  obtain ns2 where b: "ys @ [tail_of l] = b # ns2" using assms(3) by (cases ys) auto
  have c: "cells l (xs @ ys) = ns1 @ p # b # ns2" "cells l (xs @ e # ys) = ns1 @ p # e # b # ns2"
    using p b by (simp_all add: cells_def)
  show ?thesis
    using assms(1,2) linked_insert [of h ns1 p b ns2 e] unfolding dlist_def c by auto
qed

lemma dlist_remove:
  assumes "dlist h l (xs @ e # ys)"
  shows "dlist (remove_cells e h) l (xs @ ys)"
proof -
  obtain ns1 p where p: "l # xs = ns1 @ [p]" by (metis append_butlast_last_id list.distinct(1))
  obtain n ns2 where n: "ys @ [tail_of l] = n # ns2" by (cases ys) auto
  have c: "cells l (xs @ e # ys) = ns1 @ p # e # n # ns2" "cells l (xs @ ys) = ns1 @ p # n # ns2"
    using p n by (simp_all add: cells_def)
  show ?thesis
    using assms linked_remove [of h ns1 p e n ns2] unfolding dlist_def c by auto
qed

lemma dlist_head: "dlist h l xs \<Longrightarrow> lnext (h l) = hd (xs @ [tail_of l])"
  by (cases xs) (auto simp: dlist_def cells_def)

lemma list_init_dlist: "dlist (elems (list_init l s)) l []"
  by (simp add: list_init_def Let_def dlist_def cells_def)

lemma list_append_dlist:
  assumes "dlist (elems s) l xs" "e \<notin> set (cells l xs)"
  shows "dlist (elems (list_append l e s)) l (xs @ [e])"
  using dlist_insert [of "elems s" l xs "[]" e "tail_of l"] assms
  by (simp add: list_append_def list_insert_before_eq)

lemma list_push_dlist:
  assumes "dlist (elems s) l xs" "e \<notin> set (cells l xs)"
  shows "dlist (elems (list_push l e s)) l (e # xs)"
  using dlist_insert [of "elems s" l "[]" xs e "hd (xs @ [tail_of l])"] assms
  by (simp add: list_push_def list_insert_before_eq dlist_head)

lemma list_remove_dlist:
  assumes "dlist (elems s) l (xs @ e # ys)"
  shows "dlist (elems (list_remove e s)) l (xs @ ys)"
  using dlist_remove [OF assms] by (simp add: list_remove_eq)

lemma list_pop_dlist:
  assumes "dlist (elems s) l (x # xs)"
  shows "fst (list_pop l s) = x" "dlist (elems (snd (list_pop l s))) l xs"
  using dlist_head [OF assms] list_remove_dlist [of s l "[]" x xs] assms
  by (simp_all add: list_pop_def Let_def)

lemma list_empty_dlist: "dlist (elems s) l xs \<Longrightarrow> list_empty l s \<longleftrightarrow> xs = []"
  using dlist_head [of "elems s" l xs] by (cases xs) (auto simp: list_empty_def dlist_def cells_def)

text \<open>Cells of other lists stay as they are.\<close>

lemma dlist_link_in:
  assumes "dlist h l (xs @ ys)" "b = hd (ys @ [tail_of l])"
  shows "b \<in> set (cells l (xs @ ys))" "lprev (h b) \<in> set (cells l (xs @ ys))"
proof -
  obtain ns1 p where p: "l # xs = ns1 @ [p]" by (metis append_butlast_last_id list.distinct(1))
  obtain ns2 where b: "ys @ [tail_of l] = b # ns2" using assms(2) by (cases ys) auto
  have c: "cells l (xs @ ys) = ns1 @ p # b # ns2" using p b by (simp add: cells_def)
  then show "b \<in> set (cells l (xs @ ys))" by simp
  have "lprev (h b) = p" using assms(1) c linked_link [of h ns1 p b ns2] by (simp add: dlist_def)
  then show "lprev (h b) \<in> set (cells l (xs @ ys))" using c by simp
qed

lemma insert_cells_other:
  assumes "dlist h l (xs @ ys)" "b = hd (ys @ [tail_of l])" "a \<notin> set (cells l (xs @ ys))" "a \<noteq> e"
  shows "insert_cells b e h a = h a"
  using dlist_link_in [OF assms(1,2)] assms(3,4) by (auto simp: insert_cells_def Let_def)

lemma remove_cells_other:
  assumes "dlist h l (xs @ e # ys)" "a \<notin> set (cells l (xs @ e # ys))"
  shows "remove_cells e h a = h a"
proof -
  obtain ns1 p where p: "l # xs = ns1 @ [p]" by (metis append_butlast_last_id list.distinct(1))
  have c: "cells l (xs @ e # ys) = ns1 @ p # e # (ys @ [tail_of l])" using p by (simp add: cells_def)
  then have "lprev (h e) = p" using assms(1) linked_link [of h ns1 p e "ys @ [tail_of l]"] by (simp add: dlist_def)
  moreover have "p \<noteq> e" using assms(1) unfolding dlist_def c by auto
  ultimately have ne: "lprev (h e) \<noteq> e" and e: "lprev (h e) \<in> set (cells l (xs @ e # ys))"
    unfolding c by auto
  obtain n ns2 where n: "ys @ [tail_of l] = n # ns2" by (cases ys) auto
  have "cells l (xs @ e # ys) = (l # xs) @ e # n # ns2" using n by (simp add: cells_def)
  then have "lnext (h e) \<in> set (cells l (xs @ e # ys))"
    using assms(1) linked_link [of h "l # xs" e n ns2] by (simp add: dlist_def)
  then show ?thesis using e ne assms(2) by (auto simp: remove_cells_def Let_def)
qed

lemma linked_walk:
  assumes "linked h (a # xs @ [t])" "t \<notin> set xs"
  shows "elem_find_loop h t obj (lnext (h a)) = Some (obj \<in> set xs)"
    and "list_len_loop h t (lnext (h a)) n = Some (n + of_nat (length xs))"
  using assms
  by (induction xs arbitrary: a n) (auto simp: elem_find_loop.simps list_len_loop.simps)

lemma elem_find_dlist: "dlist (elems s) l xs \<Longrightarrow> elem_find l e s = Some (e \<in> set xs)"
  using linked_walk(1) [of "elems s" l xs "tail_of l" e] by (auto simp: elem_find_def dlist_def cells_def)

lemma list_len_dlist: "dlist (elems s) l xs \<Longrightarrow> list_len l s = Some (of_nat (length xs))"
  using linked_walk(2) [of "elems s" l xs "tail_of l" 0] by (auto simp: list_len_def dlist_def cells_def)

lemma linked_traversal:
  assumes "linked (elems s) (a # xs @ [t])" "t \<notin> set xs" "\<And>e. e \<in> set xs \<Longrightarrow> func e arg s = Some (P e, s)"
  shows "list_traversal_loop func arg t (lnext (elems s a)) s
    = Some (case List.find P xs of None \<Rightarrow> NULL | Some e \<Rightarrow> e, s)"
  using assms
  by (induction xs arbitrary: a) (auto simp: list_traversal_loop.simps)

lemma list_traversal_dlist:
  assumes "dlist (elems s) l xs" "\<And>e. e \<in> set xs \<Longrightarrow> func e arg s = Some (P e, s)"
  shows "list_traversal l func arg s = Some (case List.find P xs of None \<Rightarrow> NULL | Some e \<Rightarrow> e, s)"
proof -
  have "linked (elems s) (l # xs @ [tail_of l])" "tail_of l \<notin> set xs"
    using assms(1) by (auto simp: dlist_def cells_def)
  from linked_traversal [where P = P and func = func and arg = arg, OF this assms(2)] show ?thesis
    using list_empty_dlist [OF assms(1)] by (auto simp: list_traversal_def)
qed

text \<open>Two lists that share no cell do not see each other's updates.\<close>

lemma list_append_other:
  assumes "dlist (elems s) l xs" "dlist (elems s) m ys"
    "set (cells m ys) \<inter> set (cells l xs) = {}" "e \<notin> set (cells m ys)"
  shows "dlist (elems (list_append l e s)) m ys"
proof -
  have "\<forall>a \<in> set (cells m ys). elems (list_append l e s) a = elems s a"
  proof
    fix a assume "a \<in> set (cells m ys)"
    then have "a \<notin> set (cells l xs)" "a \<noteq> e" using assms(3,4) by auto
    then show "elems (list_append l e s) a = elems s a"
      using insert_cells_other [of "elems s" l xs "[]" "tail_of l" a e] assms(1)
      by (simp add: list_append_def list_insert_before_eq)
  qed
  then show ?thesis using dlist_cong assms(2) by blast
qed

lemma list_push_other:
  assumes "dlist (elems s) l xs" "dlist (elems s) m ys"
    "set (cells m ys) \<inter> set (cells l xs) = {}" "e \<notin> set (cells m ys)"
  shows "dlist (elems (list_push l e s)) m ys"
proof -
  have "\<forall>a \<in> set (cells m ys). elems (list_push l e s) a = elems s a"
  proof
    fix a assume "a \<in> set (cells m ys)"
    then have "a \<notin> set (cells l xs)" "a \<noteq> e" using assms(3,4) by auto
    then show "elems (list_push l e s) a = elems s a"
      using insert_cells_other [of "elems s" l "[]" xs "hd (xs @ [tail_of l])" a e] assms(1)
      by (simp add: list_push_def list_insert_before_eq dlist_head)
  qed
  then show ?thesis using dlist_cong assms(2) by blast
qed

lemma list_remove_other:
  assumes "dlist (elems s) l (xs @ e # zs)" "dlist (elems s) m ys"
    "set (cells m ys) \<inter> set (cells l (xs @ e # zs)) = {}"
  shows "dlist (elems (list_remove e s)) m ys"
proof -
  have "\<forall>a \<in> set (cells m ys). elems (list_remove e s) a = elems s a"
    using remove_cells_other [OF assms(1)] assms(3) by (auto simp: list_remove_eq)
  then show ?thesis using dlist_cong assms(2) by blast
qed

lemma list_pop_other:
  assumes "dlist (elems s) l (x # xs)" "dlist (elems s) m ys"
    "set (cells m ys) \<inter> set (cells l (x # xs)) = {}"
  shows "dlist (elems (snd (list_pop l s))) m ys"
  using list_remove_other [of s l "[]" x xs m ys] dlist_head [OF assms(1)] assms
  by (simp add: list_pop_def Let_def)

lemma list_op_frame [simp]:
  "eflags (list_append l e s) = eflags s" "esp (list_append l e s) = esp s"
  "mem (list_append l e s) = mem s" "machine.more (list_append l e s) = machine.more s"
  "eflags (list_push l e s) = eflags s" "esp (list_push l e s) = esp s"
  "mem (list_push l e s) = mem s" "machine.more (list_push l e s) = machine.more s"
  "eflags (list_remove e s) = eflags s" "esp (list_remove e s) = esp s"
  "mem (list_remove e s) = mem s" "machine.more (list_remove e s) = machine.more s"
  "eflags (snd (list_pop l s)) = eflags s" "esp (snd (list_pop l s)) = esp s"
  "mem (snd (list_pop l s)) = mem s" "machine.more (snd (list_pop l s)) = machine.more s"
  by (simp_all add: list_append_def list_push_def list_pop_def Let_def list_insert_before_eq list_remove_eq)

section \<open>A queue\<close>

interpretation lq: fifo "\<lambda>s. dlist (elems s) l" "\<lambda>xs e. e \<notin> set (cells l xs)" "list_append l" "list_pop l"
  by unfold_locales (auto simp: list_append_dlist list_pop_dlist)

section \<open>Claims\<close>

text \<open>An empty machine to evaluate the operations on.\<close>

definition blank :: machine where
  "blank = \<lparr>eflags = 0x202, esp = 0xc009f000, mem = (\<lambda>_. 0), elems = (\<lambda>_. \<lparr>lprev = 0, lnext = 0\<rparr>)\<rparr>"

text \<open>
  C6. Insertion and removal on an intrusive list. On a well-linked list that holds \<open>xs\<close>, \<open>list_append\<close>
  makes it hold \<open>xs\<close> followed by the element and \<open>list_push\<close> the element followed by \<open>xs\<close>, both linked in both
  directions; \<open>list_remove\<close> takes the element out wherever it is. Any other list that shares no cell with it
  is left as it was, and the interrupt flag, the stack pointer and memory are those of before.
\<close>

theorem list_ops_refine:
  assumes "dlist (elems s) l (xs @ ys)" "e \<notin> set (cells l (xs @ ys))"
    "dlist (elems s) m zs" "set (cells m zs) \<inter> set (e # cells l (xs @ ys)) = {}"
  shows "dlist (elems (list_append l e s)) l (xs @ ys @ [e]) \<and> dlist (elems (list_push l e s)) l (e # xs @ ys) \<and>
    dlist (elems (list_append l e s)) m zs \<and> dlist (elems (list_push l e s)) m zs \<and>
    (ys = x # ys' \<longrightarrow> dlist (elems (list_remove x s)) l (xs @ ys') \<and> dlist (elems (list_remove x s)) m zs) \<and>
    (\<exists>h. list_append l e s = s\<lparr>elems := h\<rparr>) \<and> (\<exists>h. list_push l e s = s\<lparr>elems := h\<rparr>) \<and>
    (\<exists>h. list_remove x s = s\<lparr>elems := h\<rparr>)"
  using assms list_append_dlist [of s l "xs @ ys" e] list_push_dlist [of s l "xs @ ys" e]
    list_append_other [of s l "xs @ ys" m zs e] list_push_other [of s l "xs @ ys" m zs e]
    list_remove_dlist [of s l xs x ys'] list_remove_other [of s l xs x ys' m zs]
  by (auto simp: list_append_def list_push_def list_insert_before_eq list_remove_eq)

theorem list_ops_refine_witness:
  "dlist (elems (list_append 100 300 (list_init 500 (list_append 100 200 (list_init 100 blank))))) 100 [200, 300]"
proof -
  let ?s = "list_init 500 (list_append 100 200 (list_init 100 blank))"
  have "dlist (elems ?s) 100 ([200] @ [])" "dlist (elems ?s) 500 []" by code_simp+
  from list_ops_refine [OF this(1) _ this(2), of 300] show ?thesis
    by (simp add: cells_def tail_of_def)
qed

text \<open>
  C22. Append and pop make a first-in first-out queue: for every sequence of appends and pops that the reference
  queue on plain lists accepts (no element appended twice, no pop of an empty queue), the linked list
  returns the same elements in the same order and holds the same elements afterwards.
\<close>

theorem list_queue_fifo:
  assumes "dlist (elems s) l xs" "run_spec (\<lambda>xs e. e \<notin> set (cells l xs)) cs xs = Some (out, ys)"
  shows "fst (run_ops (list_append l) (list_pop l) cs s) = out \<and>
    dlist (elems (snd (run_ops (list_append l) (list_pop l) cs s))) l ys"
  using lq.run_queue [OF assms(2,1)] by auto

theorem list_queue_fifo_witness:
  "fst (run_ops (list_append 100) (list_pop 100) [Put 200, Put 300, Get, Put 200, Get, Get] (list_init 100 blank))
   = [200, 300, 200]"
  by (rule list_queue_fifo [where ys = "[]" and xs = "[]", THEN conjunct1])
    (simp_all add: list_init_dlist cells_def tail_of_def)

text \<open>
  The walks over a well-linked list always end: \<open>elem_find\<close> decides membership, \<open>list_len\<close> counts the elements and
  \<open>list_traversal\<close> with a callback that only tests returns the first element that passes, or \<open>NULL\<close>.
\<close>

theorem list_walks_total:
  assumes "dlist (elems s) l xs" "\<And>e. e \<in> set xs \<Longrightarrow> func e arg s = Some (P e, s)"
  shows "elem_find l obj s = Some (obj \<in> set xs) \<and> list_len l s = Some (of_nat (length xs)) \<and>
    list_traversal l func arg s = Some (case List.find P xs of None \<Rightarrow> NULL | Some e \<Rightarrow> e, s)"
  using elem_find_dlist [OF assms(1)] list_len_dlist [OF assms(1)] list_traversal_dlist [where P = P and func = func and arg = arg, OF assms] by blast

theorem list_walks_total_witness:
  "list_traversal 100 (\<lambda>e arg s. Some (e > arg, s)) 250 (list_append 100 300 (list_append 100 200 (list_init 100 blank)))
   = Some (300, list_append 100 300 (list_append 100 200 (list_init 100 blank)))"
proof -
  let ?s = "list_append 100 300 (list_append 100 200 (list_init 100 blank))"
  have "dlist (elems ?s) 100 [200, 300]" by code_simp
  from list_walks_total [OF this, where P = "\<lambda>e. e > 250" and func = "\<lambda>e arg s. Some (e > arg, s)" and arg = 250]
  show ?thesis by simp
qed

end
