(* ===== verification/Paging.thy ===== *)
theory Paging
  imports DList
begin

text \<open>
  Two-level paging as \<^verbatim>\<open>kernel/memory.c\<close> drives it. The record \<open>mmu\<close> adds to the machine the
  register \<open>cr3\<close> and the words of the page directories and page tables, by physical address.
  \<open>translate\<close> is the page walk of the processor (present bits and frame numbers; the kernel runs at
  ring 0 without write protection and without 4 MB pages). A load or store of a table word goes through
  a virtual address and its translation, as in the C code; a missing translation is a page
  fault, from which \<open>general_intr_handler\<close> never returns.

  The last entry of every page directory maps the directory itself. Under that hypothesis
  (\<open>selfmap\<close>) the lemmas show that the pointers \<open>pde_ptr\<close> and \<open>pte_ptr\<close> really point at the directory and
  table entry of an address, that \<open>addr_v2p\<close> computes the translation of the processor, and what writing an
  entry does to the translation of every other address.
\<close>

record mmu = machine +
  cr3 :: addr
  ptab :: "addr \<Rightarrow> u32"

section \<open>The page walk\<close>

definition frame :: "u32 \<Rightarrow> addr" where
  "frame e = e AND 0xfffff000"

definition present :: "u32 \<Rightarrow> bool" where
  "present e \<longleftrightarrow> e AND 1 \<noteq> 0"

definition PDE_IDX :: "addr \<Rightarrow> u32" where
  "PDE_IDX a = drop_bit 22 (a AND 0xffc00000)"

definition PTE_IDX :: "addr \<Rightarrow> u32" where
  "PTE_IDX a = drop_bit 12 (a AND 0x003ff000)"

definition pde_at :: "'a mmu_scheme \<Rightarrow> addr \<Rightarrow> addr" where
  "pde_at s va = frame (cr3 s) + PDE_IDX va * 4"

definition pte_at :: "'a mmu_scheme \<Rightarrow> addr \<Rightarrow> addr" where
  "pte_at s va = frame (ptab s (pde_at s va)) + PTE_IDX va * 4"

definition translate :: "'a mmu_scheme \<Rightarrow> addr \<Rightarrow> addr option" where
  "translate s va =
     (if \<not> present (ptab s (pde_at s va)) then None
      else if \<not> present (ptab s (pte_at s va)) then None
      else Some (frame (ptab s (pte_at s va)) + (va AND 0xfff)))"

definition ld_tab :: "addr \<Rightarrow> 'a mmu_scheme \<Rightarrow> u32 option" where
  "ld_tab va s = map_option (ptab s) (translate s va)"

definition st_tab :: "addr \<Rightarrow> u32 \<Rightarrow> 'a mmu_scheme \<Rightarrow> 'a mmu_scheme option" where
  "st_tab va w s = map_option (\<lambda>pa. s\<lparr>ptab := (ptab s)(pa := w)\<rparr>) (translate s va)"

text \<open>Clearing one page of table memory: the 4096 bytes behind one translation.\<close>

definition zero_tab :: "addr \<Rightarrow> 'a mmu_scheme \<Rightarrow> 'a mmu_scheme option" where
  "zero_tab va s =
     map_option (\<lambda>pa. s\<lparr>ptab := (\<lambda>a. if a - pa < PG_SIZE then 0 else ptab s a)\<rparr>) (translate s va)"

section \<open>The routines\<close>

definition pte_ptr :: "addr \<Rightarrow> addr" where
  "pte_ptr vaddr = 0xffc00000 + drop_bit 10 (vaddr AND 0xffc00000) + PTE_IDX vaddr * 4"

definition pde_ptr :: "addr \<Rightarrow> addr" where
  "pde_ptr vaddr = 0xfffff000 + PDE_IDX vaddr * 4"

definition addr_v2p :: "addr \<Rightarrow> 'a mmu_scheme \<Rightarrow> addr option" where
  "addr_v2p vaddr s = do {
     pte \<leftarrow> ld_tab (pte_ptr vaddr) s;
     Some ((pte AND 0xfffff000) + (vaddr AND 0x00000fff)) }"

text \<open>\<open>invlpg\<close> has no counterpart: \<open>translate\<close> always walks the tables.\<close>

definition page_table_pte_remove :: "addr \<Rightarrow> 'a mmu_scheme \<Rightarrow> 'a mmu_scheme option" where
  "page_table_pte_remove vaddr s = do {
     pte \<leftarrow> ld_tab (pte_ptr vaddr) s;
     st_tab (pte_ptr vaddr) (pte AND NOT 1) s }"

text \<open>The directory maps itself with its last entry.\<close>

definition selfmap :: "'a mmu_scheme \<Rightarrow> bool" where
  "selfmap s \<longleftrightarrow> (let e = ptab s (frame (cr3 s) + 4092) in present e \<and> frame e = frame (cr3 s))"

section \<open>Masks and indices\<close>

lemma bit_masks:
  "bit (0xfffff000 :: u32) n \<longleftrightarrow> 12 \<le> n \<and> n < 32"
  "bit (0xffc00000 :: u32) n \<longleftrightarrow> 22 \<le> n \<and> n < 32"
  "bit (0x003ff000 :: u32) n \<longleftrightarrow> 12 \<le> n \<and> n < 22"
  "bit (0xfff :: u32) n \<longleftrightarrow> n < 12"
proof -
  have "(0xfffff000 :: u32) = push_bit 12 (mask 20)" "(0xffc00000 :: u32) = push_bit 22 (mask 10)"
    "(0x003ff000 :: u32) = push_bit 12 (mask 10)" "(0xfff :: u32) = mask 12"
    by (simp_all add: mask_eq_exp_minus_1 push_bit_eq_mult)
  then show "bit (0xfffff000 :: u32) n \<longleftrightarrow> 12 \<le> n \<and> n < 32" "bit (0xffc00000 :: u32) n \<longleftrightarrow> 22 \<le> n \<and> n < 32"
    "bit (0x003ff000 :: u32) n \<longleftrightarrow> 12 \<le> n \<and> n < 22" "bit (0xfff :: u32) n \<longleftrightarrow> n < 12"
    by (auto simp only: bit_simps possible_bit_word) auto
qed

lemma times_4: "(w :: u32) * 4 = push_bit 2 w"
  by (simp add: push_bit_eq_mult)

lemmas idx_bits = bit_simps comp_apply bit_masks possible_bit_word PDE_IDX_def PTE_IDX_def

lemma pte_ptr_or:
  "pte_ptr va = 0xffc00000 OR drop_bit 10 (va AND 0xffc00000) OR push_bit 2 (PTE_IDX va)"
proof -
  have "0xffc00000 AND drop_bit 10 (va AND 0xffc00000) = (0 :: u32)"
    "(0xffc00000 OR drop_bit 10 (va AND 0xffc00000)) AND push_bit 2 (PTE_IDX va) = (0 :: u32)"
    by (rule bit_word_eqI; simp only: idx_bits; auto)+
  then show ?thesis by (simp only: pte_ptr_def times_4 disjunctive_add_eq_or or.assoc)
qed

lemma pde_ptr_or: "pde_ptr va = 0xfffff000 OR push_bit 2 (PDE_IDX va)"
proof -
  have "0xfffff000 AND push_bit 2 (PDE_IDX va) = (0 :: u32)"
    by (rule bit_word_eqI; simp only: idx_bits; auto)
  then show ?thesis by (simp only: pde_ptr_def times_4 disjunctive_add_eq_or)
qed

lemma IDX_ptrs:
  "PDE_IDX (pde_ptr va) = 1023" "PTE_IDX (pde_ptr va) = 1023" "pde_ptr va AND 0xfff = PDE_IDX va * 4"
  "PDE_IDX (pte_ptr va) = 1023" "PTE_IDX (pte_ptr va) = PDE_IDX va" "pte_ptr va AND 0xfff = PTE_IDX va * 4"
proof -
  have m: "(1023 :: u32) = mask 10" by (simp add: mask_eq_exp_minus_1)
  show "PDE_IDX (pde_ptr va) = 1023" "PTE_IDX (pde_ptr va) = 1023" "pde_ptr va AND 0xfff = PDE_IDX va * 4"
    "PDE_IDX (pte_ptr va) = 1023" "PTE_IDX (pte_ptr va) = PDE_IDX va" "pte_ptr va AND 0xfff = PTE_IDX va * 4"
    unfolding m times_4 pte_ptr_or pde_ptr_or
    by (rule bit_word_eqI; simp only: idx_bits; auto)+
qed

lemma page_base_idx:
  "PDE_IDX (va AND 0xfffff000) = PDE_IDX va" "PTE_IDX (va AND 0xfffff000) = PTE_IDX va"
  "(va AND 0xfffff000) AND 0xfff = (0 :: u32)"
  by (rule bit_word_eqI; simp only: idx_bits; auto)+

lemma in_page_bits: "(i :: u32) < 4096 \<Longrightarrow> bit i n \<Longrightarrow> n < 12"
proof -
  assume "i < 4096" "bit i n"
  then have "take_bit 12 i = i" by (simp add: take_bit_eq_mod mod_word_less)
  then show "n < 12" using \<open>bit i n\<close> by (metis bit_take_bit_iff)
qed

lemma frame_plus:
  assumes "i < 4096"
  shows "frame (frame a + i) = frame a" "(frame a + i) AND 0xfff = i"
proof -
  have bits: "n < 12" if "bit i n" for n using in_page_bits [OF assms that] .
  have "frame a AND i = 0"
    unfolding frame_def by (rule bit_word_eqI; simp only: idx_bits; auto dest: bits)
  then have add: "frame a + i = frame a OR i" by (rule disjunctive_add_eq_or)
  show "frame (frame a + i) = frame a" "(frame a + i) AND 0xfff = i"
    unfolding add unfolding frame_def by (rule bit_word_eqI; simp only: idx_bits; auto dest: bits)+
qed

lemma IDX_less [simp]: "PDE_IDX va < 1024" "PTE_IDX va < 1024"
proof -
  have "take_bit 10 (PDE_IDX va) = PDE_IDX va" "take_bit 10 (PTE_IDX va) = PTE_IDX va"
    by (rule bit_word_eqI; simp only: idx_bits; auto)+
  then show "PDE_IDX va < 1024" "PTE_IDX va < 1024"
    using word_mod_less_divisor [of 1024 "PDE_IDX va"] word_mod_less_divisor [of 1024 "PTE_IDX va"]
    by (simp_all add: take_bit_eq_mod)
qed

lemma index_times_4: "(i :: u32) < 1024 \<Longrightarrow> i * 4 < 4096" "(i :: u32) < 1024 \<Longrightarrow> j < 1024 \<Longrightarrow> i * 4 = j * 4 \<longleftrightarrow> i = j"
  by (simp_all add: word_less_nat_alt unat_word_ariths word_unat_eq_iff)

lemma frame_idem [simp]: "frame (frame a) = frame a"
  using frame_plus(1) [of 0 a] by simp

lemma frame_index_inj:
  assumes "i < 1024" "j < 1024"
  shows "frame a + i * 4 = frame b + j * 4 \<longleftrightarrow> frame a = frame b \<and> i = j"
proof
  assume eq: "frame a + i * 4 = frame b + j * 4"
  have "frame a = frame b" using arg_cong [OF eq, of frame] assms by (simp add: frame_plus index_times_4)
  with eq show "frame a = frame b \<and> i = j" using assms by (simp add: index_times_4)
qed simp

section \<open>The self map\<close>

lemma present_bit: "present e \<longleftrightarrow> bit e 0"
  using and_exp_eq_0_iff [of 0 e] by (simp add: present_def)

lemma translate_pde_ptr: "selfmap s \<Longrightarrow> translate s (pde_ptr va) = Some (pde_at s va)"
  by (simp add: translate_def pde_at_def pte_at_def IDX_ptrs selfmap_def Let_def)

lemma translate_pte_ptr:
  "selfmap s \<Longrightarrow> translate s (pte_ptr va) = (if present (ptab s (pde_at s va)) then Some (pte_at s va) else None)"
  by (simp add: translate_def pde_at_def pte_at_def IDX_ptrs selfmap_def Let_def)

lemma translate_pte_page:
  "selfmap s \<Longrightarrow> translate s (pte_ptr va AND 0xfffff000)
    = (if present (ptab s (pde_at s va)) then Some (frame (ptab s (pde_at s va))) else None)"
  by (simp add: translate_def pde_at_def pte_at_def page_base_idx IDX_ptrs selfmap_def Let_def)

lemma addr_v2p_eq:
  "selfmap s \<Longrightarrow> addr_v2p va s =
    (if present (ptab s (pde_at s va)) then Some (frame (ptab s (pte_at s va)) + (va AND 0xfff)) else None)"
  by (simp add: addr_v2p_def ld_tab_def translate_pte_ptr frame_def)

text \<open>A translation reads two words; a store elsewhere does not change it.\<close>

definition walk :: "'a mmu_scheme \<Rightarrow> addr \<Rightarrow> addr set" where
  "walk s va = (if present (ptab s (pde_at s va)) then {pde_at s va, pte_at s va} else {pde_at s va})"

lemma walk_cong:
  assumes "cr3 s' = cr3 s" "\<forall>a \<in> walk s va. ptab s' a = ptab s a"
  shows "translate s' va = translate s va" "walk s' va = walk s va" "pde_at s' va = pde_at s va"
    "ptab s' (pde_at s' va) = ptab s (pde_at s va)" "pte_at s' va = pte_at s va"
proof -
  have e: "pde_at s' va = pde_at s va" using assms(1) by (simp add: pde_at_def)
  moreover have p: "ptab s' (pde_at s va) = ptab s (pde_at s va)" using assms(2) by (simp add: walk_def split: if_splits)
  ultimately have t: "pte_at s' va = pte_at s va" by (simp add: pte_at_def)
  show "pde_at s' va = pde_at s va" "ptab s' (pde_at s' va) = ptab s (pde_at s va)" "pte_at s' va = pte_at s va"
    using e p t by simp_all
  show "walk s' va = walk s va" using e p t by (simp add: walk_def)
  show "translate s' va = translate s va" using e p t assms(2) by (simp add: translate_def walk_def split: if_splits)
qed

lemma selfmap_cong:
  assumes "cr3 s' = cr3 s" "ptab s' (frame (cr3 s) + 4092) = ptab s (frame (cr3 s) + 4092)"
  shows "selfmap s' = selfmap s"
  using assms by (simp add: selfmap_def)

text \<open>Two pages whose entries do not share a word.\<close>

definition apart :: "'a mmu_scheme \<Rightarrow> addr \<Rightarrow> addr \<Rightarrow> bool" where
  "apart s va va' \<longleftrightarrow> pte_at s va \<notin> walk s va'"

lemma apart_index:
  assumes "frame (ptab s (pde_at s va)) \<noteq> frame (cr3 s)"
    and "frame (ptab s (pde_at s va)) \<noteq> frame (ptab s (pde_at s va')) \<or> PTE_IDX va \<noteq> PTE_IDX va'"
  shows "apart s va va'"
proof -
  have "pte_at s va \<noteq> pde_at s va'" using assms(1) by (simp add: pte_at_def pde_at_def frame_index_inj)
  moreover have "pte_at s va \<noteq> pte_at s va'" using assms(2) by (simp add: pte_at_def frame_index_inj)
  ultimately show ?thesis by (simp add: apart_def walk_def)
qed

lemma page_table_pte_remove_eq:
  assumes "selfmap s" "present (ptab s (pde_at s va))"
  shows "page_table_pte_remove va s
    = Some (s\<lparr>ptab := (ptab s)(pte_at s va := ptab s (pte_at s va) AND NOT 1)\<rparr>)"
  using assms by (simp add: page_table_pte_remove_def ld_tab_def st_tab_def translate_pte_ptr)

section \<open>Claims\<close>

text \<open>
  C25. The self map. When the last directory entry maps the directory, the processor translates \<open>pde_ptr va\<close> to the physical address of the
  directory entry of \<open>va\<close> and \<open>pte_ptr va\<close> to that of its page table entry, or faults on the latter when the
  directory entry is not present; and \<open>addr_v2p\<close> returns what the page walk gives for \<open>va\<close> whenever \<open>va\<close> is mapped.
\<close>

theorem selfmap_pointers:
  assumes "selfmap s"
  shows "translate s (pde_ptr va) = Some (pde_at s va) \<and>
    translate s (pte_ptr va) = (if present (ptab s (pde_at s va)) then Some (pte_at s va) else None) \<and>
    (\<forall>pa. translate s va = Some pa \<longrightarrow> addr_v2p va s = Some pa)"
  using assms translate_pde_ptr [OF assms] translate_pte_ptr [OF assms] addr_v2p_eq [OF assms]
  by (auto simp: translate_def split: if_splits)

text \<open>A machine with one directory at \<open>0x100000\<close> and one table at \<open>0x101000\<close> for the first 4 MB of the kernel half.\<close>

definition boot_mmu :: mmu where
  "boot_mmu = \<lparr>eflags = 0x202, esp = 0xc009f000, mem = (\<lambda>_. 0), elems = (\<lambda>_. \<lparr>lprev = 0, lnext = 0\<rparr>),
     cr3 = 0x100000, ptab = (\<lambda>_. 0)(0x100ffc := 0x100007, 0x100c00 := 0x101007, 0x101008 := 0x2007)\<rparr>"

theorem selfmap_pointers_witness:
  "selfmap boot_mmu \<and> translate boot_mmu 0xc0002abc = Some 0x2abc \<and> addr_v2p 0xc0002abc boot_mmu = Some 0x2abc"
proof -
  have "selfmap boot_mmu" "translate boot_mmu 0xc0002abc = Some 0x2abc" by code_simp+
  with selfmap_pointers [of boot_mmu "0xc0002abc"] show ?thesis by simp
qed

text \<open>
  Unmapping one page. \<open>page_table_pte_remove\<close> on a mapped address returns, afterwards the address is not translated any more and
  every address whose walk does not read the cleared entry is translated as before.
\<close>

theorem pte_remove_unmaps:
  assumes "selfmap s" "translate s va = Some pa" "pte_at s va \<noteq> pde_at s va"
  shows "\<exists>s'. page_table_pte_remove va s = Some s' \<and> translate s' va = None \<and>
    (\<forall>va'. apart s va va' \<longrightarrow> translate s' va' = translate s va')"
proof -
  let ?s = "s\<lparr>ptab := (ptab s)(pte_at s va := ptab s (pte_at s va) AND NOT 1)\<rparr>"
  have p: "present (ptab s (pde_at s va))" using assms(2) by (simp add: translate_def split: if_splits)
  have keep: "ptab ?s (pde_at s va) = ptab s (pde_at s va)" using assms(3) by simp
  have pde: "pde_at ?s va = pde_at s va" by (simp add: pde_at_def)
  have pte: "pte_at ?s va = pte_at s va" using keep pde by (simp add: pte_at_def)
  have "\<not> present (ptab ?s (pte_at ?s va))"
    unfolding pte using and_not_exp_bit [of _ 0 0] by (simp add: present_bit)
  then have "translate ?s va = None" by (simp add: translate_def)
  moreover have "translate ?s va' = translate s va'" if "apart s va va'" for va'
    using that by (intro walk_cong(1)) (auto simp: apart_def)
  ultimately show ?thesis using page_table_pte_remove_eq [OF assms(1) p] by blast
qed

theorem pte_remove_unmaps_witness:
  "\<exists>s'. page_table_pte_remove 0xc0002000 boot_mmu = Some s' \<and> translate s' 0xc0002000 = None"
proof -
  have "selfmap boot_mmu" "translate boot_mmu 0xc0002000 = Some 0x2000"
    "pte_at boot_mmu 0xc0002000 \<noteq> pde_at boot_mmu 0xc0002000" by code_simp+
  from pte_remove_unmaps [OF this] show ?thesis by blast
qed

end
