(* ===== verification/CString.thy ===== *)
theory CString
  imports Prelude
begin

text \<open>
  \<^verbatim>\<open>lib/string.c\<close>: the byte and string routines of the kernel, on a byte-addressed memory with
  32-bit wrapping addresses. The counted loops (\<open>memset\<close>, \<open>memcpy\<close>, \<open>memcmp\<close>) are total; a loop that
  stops at a terminating zero is a \<^theory_text>\<open>partial_function\<close> in \<open>option\<close>, since it runs for ever on a
  memory without one. \<open>char\<close> is signed on this target, so comparisons of characters read the
  bytes with \<open>sint\<close>.

  The lemmas describe each routine on a terminated string (\<open>cstr m p xs\<close>: the non-zero bytes \<open>xs\<close>
  at \<open>p\<close> followed by a zero) and give the exact memory after the writing ones: \<open>a - dst < sz\<close> says
  that \<open>a\<close> is one of the \<open>sz\<close> addresses from \<open>dst\<close> on, also where the range wraps.
\<close>

section \<open>The routines\<close>

function memset_loop :: "addr \<Rightarrow> u8 \<Rightarrow> u32 \<Rightarrow> memory \<Rightarrow> memory" where
  "memset_loop dst value sz m =
     (if sz = 0 then m else memset_loop (dst + 1) value (sz - 1) (m(dst := value)))"
  by pat_completeness auto
termination
  by (relation "measure (\<lambda>(dst, value, sz, m). unat sz)") (auto simp: unat_minus_one_less)

definition memset :: "addr \<Rightarrow> u8 \<Rightarrow> u32 \<Rightarrow> memory \<Rightarrow> memory option" where
  "memset dst value sz m = do {
     ASSERT (dst \<noteq> NULL);
     Some (memset_loop dst value sz m) }"

function memcpy_loop :: "addr \<Rightarrow> addr \<Rightarrow> u32 \<Rightarrow> memory \<Rightarrow> memory" where
  "memcpy_loop dst src sz m =
     (if sz = 0 then m else memcpy_loop (dst + 1) (src + 1) (sz - 1) (m(dst := m src)))"
  by pat_completeness auto
termination
  by (relation "measure (\<lambda>(dst, src, sz, m). unat sz)") (auto simp: unat_minus_one_less)

definition memcpy :: "addr \<Rightarrow> addr \<Rightarrow> u32 \<Rightarrow> memory \<Rightarrow> memory option" where
  "memcpy dst src sz m = do {
     ASSERT (dst \<noteq> NULL \<and> src \<noteq> NULL);
     Some (memcpy_loop dst src sz m) }"

function memcmp_loop :: "addr \<Rightarrow> addr \<Rightarrow> u32 \<Rightarrow> memory \<Rightarrow> u32" where
  "memcmp_loop a b sz m =
     (if sz = 0 then 0
      else if m a \<noteq> m b then (if sint (m b) < sint (m a) then 1 else - 1)
      else memcmp_loop (a + 1) (b + 1) (sz - 1) m)"
  by pat_completeness auto
termination
  by (relation "measure (\<lambda>(a, b, sz, m). unat sz)") (auto simp: unat_minus_one_less)

definition memcmp :: "addr \<Rightarrow> addr \<Rightarrow> u32 \<Rightarrow> memory \<Rightarrow> u32 option" where
  "memcmp a b sz m = do {
     ASSERT (a \<noteq> NULL \<or> b \<noteq> NULL);
     Some (memcmp_loop a b sz m) }"

partial_function (option) strcpy_loop :: "addr \<Rightarrow> addr \<Rightarrow> memory \<Rightarrow> memory option" where
  "strcpy_loop dst src m =
     (let c = m src; m' = m(dst := c)
      in if c = 0 then Some m' else strcpy_loop (dst + 1) (src + 1) m')"

definition strcpy :: "addr \<Rightarrow> addr \<Rightarrow> memory \<Rightarrow> (addr \<times> memory) option" where
  "strcpy dst src m = do {
     ASSERT (dst \<noteq> NULL \<and> src \<noteq> NULL);
     m' \<leftarrow> strcpy_loop dst src m;
     Some (dst, m') }"

partial_function (option) strlen_loop :: "addr \<Rightarrow> memory \<Rightarrow> addr option" where
  "strlen_loop p m = (if m p \<noteq> 0 then strlen_loop (p + 1) m else Some (p + 1))"

definition strlen :: "addr \<Rightarrow> memory \<Rightarrow> u32 option" where
  "strlen str m = do {
     ASSERT (str \<noteq> NULL);
     p \<leftarrow> strlen_loop str m;
     Some (p - str - 1) }"

partial_function (option) strcmp_loop :: "addr \<Rightarrow> addr \<Rightarrow> memory \<Rightarrow> u8 option" where
  "strcmp_loop a b m =
     (if m a \<noteq> 0 \<and> m a = m b then strcmp_loop (a + 1) (b + 1) m
      else Some (if sint (m a) < sint (m b) then - 1
                 else if sint (m b) < sint (m a) then 1 else 0))"

definition strcmp :: "addr \<Rightarrow> addr \<Rightarrow> memory \<Rightarrow> u8 option" where
  "strcmp a b m = do {
     ASSERT (a \<noteq> NULL \<and> b \<noteq> NULL);
     strcmp_loop a b m }"

text \<open>
  \<open>*str == ch\<close> compares a signed \<open>char\<close> with an unsigned \<open>uint8_t\<close>; both are promoted to \<open>int\<close>, so
  the bytes are equal only when they are below 128.
\<close>

definition char_is :: "u8 \<Rightarrow> u8 \<Rightarrow> bool" where
  "char_is c ch \<longleftrightarrow> sint c = uint ch"

partial_function (option) strchr_loop :: "addr \<Rightarrow> u8 \<Rightarrow> memory \<Rightarrow> addr option" where
  "strchr_loop str ch m =
     (if m str = 0 then Some NULL
      else if char_is (m str) ch then Some str
      else strchr_loop (str + 1) ch m)"

definition strchr :: "addr \<Rightarrow> u8 \<Rightarrow> memory \<Rightarrow> addr option" where
  "strchr str ch m = do {
     ASSERT (str \<noteq> NULL);
     strchr_loop str ch m }"

partial_function (option) strrchr_loop :: "addr \<Rightarrow> u8 \<Rightarrow> addr \<Rightarrow> memory \<Rightarrow> addr option" where
  "strrchr_loop str ch last_char m =
     (if m str = 0 then Some last_char
      else strrchr_loop (str + 1) ch (if char_is (m str) ch then str else last_char) m)"

definition strrchr :: "addr \<Rightarrow> u8 \<Rightarrow> memory \<Rightarrow> addr option" where
  "strrchr str ch m = do {
     ASSERT (str \<noteq> NULL);
     strrchr_loop str ch NULL m }"

definition strcat :: "addr \<Rightarrow> addr \<Rightarrow> memory \<Rightarrow> (addr \<times> memory) option" where
  "strcat dst src m = do {
     ASSERT (dst \<noteq> NULL \<and> src \<noteq> NULL);
     p \<leftarrow> strlen_loop dst m;
     let str = p - 1;
     m' \<leftarrow> strcpy_loop str src m;
     Some (dst, m') }"

partial_function (option) strchrs_loop :: "addr \<Rightarrow> u8 \<Rightarrow> u32 \<Rightarrow> memory \<Rightarrow> u32 option" where
  "strchrs_loop p ch ch_cnt m =
     (if m p = 0 then Some ch_cnt
      else strchrs_loop (p + 1) ch (if char_is (m p) ch then ch_cnt + 1 else ch_cnt) m)"

definition strchrs :: "addr \<Rightarrow> u8 \<Rightarrow> memory \<Rightarrow> u32 option" where
  "strchrs str ch m = do {
     ASSERT (str \<noteq> NULL);
     strchrs_loop str ch 0 m }"

text \<open>Strings in memory: what the routines read, as a list of bytes.\<close>

primrec cstr :: "memory \<Rightarrow> addr \<Rightarrow> u8 list \<Rightarrow> bool" where
  "cstr m p [] \<longleftrightarrow> m p = 0"
| "cstr m p (x # xs) \<longleftrightarrow> m p = x \<and> x \<noteq> 0 \<and> cstr m (p + 1) xs"

text \<open>The order \<open>strcmp\<close> decides: the signed bytes compared at the first difference.\<close>

fun cmp_spec :: "u8 list \<Rightarrow> u8 list \<Rightarrow> u8" where
  "cmp_spec [] [] = 0"
| "cmp_spec [] (y # ys) = (if 0 < sint y then - 1 else 1)"
| "cmp_spec (x # xs) [] = (if sint x < 0 then - 1 else 1)"
| "cmp_spec (x # xs) (y # ys) =
     (if x = y then cmp_spec xs ys else if sint x < sint y then - 1 else 1)"

text \<open>The positions of a string at which \<open>strchr\<close>, \<open>strrchr\<close> and \<open>strchrs\<close> see the character.\<close>

definition hits :: "u8 \<Rightarrow> u8 list \<Rightarrow> nat list" where
  "hits ch xs = filter (\<lambda>i. char_is (xs ! i) ch) [0..<length xs]"

declare memset_loop.simps [simp del] memcpy_loop.simps [simp del] memcmp_loop.simps [simp del]

section \<open>Counted loops\<close>

lemma word_less_step:
  fixes x n :: "'a::len word"
  assumes "n \<noteq> 0"
  shows "x < n \<longleftrightarrow> x = 0 \<or> x - 1 < n - 1"
proof (cases "x = 0")
  case True
  with assms show ?thesis by (simp add: word_neq_0_conv)
next
  case False
  have "unat (x - 1) = unat x - 1" "unat (n - 1) = unat n - 1"
    using False assms by (simp_all add: unat_minus_one)
  moreover have "0 < unat x" using False by (simp add: unat_gt_0)
  ultimately show ?thesis using False by (auto simp: word_less_nat_alt)
qed

lemma word_le_step:
  fixes x n :: "'a::len word"
  assumes "n + 1 \<noteq> 0"
  shows "x \<le> n + 1 \<longleftrightarrow> x = 0 \<or> x - 1 \<le> n"
proof (cases "x = 0")
  case False
  have "unat (x - 1) = unat x - 1" "unat (n + 1) = unat n + 1"
    using False assms by (simp_all add: unat_minus_one unatSuc add.commute)
  moreover have "0 < unat x" using False by (simp add: unat_gt_0)
  ultimately show ?thesis using False by (auto simp: word_le_nat_alt)
qed simp

lemma memset_loop_eq:
  "memset_loop dst v n m = (\<lambda>a. if a - dst < n then v else m a)"
proof (induction dst v n m rule: memset_loop.induct)
  case (1 dst v n m)
  show ?case
  proof (cases "n = 0")
    case True
    then show ?thesis by (simp add: memset_loop.simps)
  next
    case False
    have step: "a - dst < n \<longleftrightarrow> a = dst \<or> a - (dst + 1) < n - 1" for a
      using word_less_step [OF False, of "a - dst"] by (simp add: algebra_simps)
    show ?thesis
      using False by (subst memset_loop.simps) (auto simp: 1 [OF False] step fun_eq_iff)
  qed
qed

lemma memcpy_loop_eq:
  assumes "dst = src \<or> n \<le> dst - src"
  shows "memcpy_loop dst src n m = (\<lambda>a. if a - dst < n then m (src + (a - dst)) else m a)"
  using assms
proof (induction dst src n m rule: memcpy_loop.induct)
  case (1 dst src n m)
  show ?case
  proof (cases "n = 0")
    case True
    then show ?thesis by (simp add: memcpy_loop.simps)
  next
    case False
    have step: "a - dst < n \<longleftrightarrow> a = dst \<or> a - (dst + 1) < n - 1" for a
      using word_less_step [OF False, of "a - dst"] by (simp add: algebra_simps)
    have pre: "dst + 1 = src + 1 \<or> n - 1 \<le> dst + 1 - (src + 1)"
      using 1(2) False by (auto simp: word_le_nat_alt unat_minus_one)
    have src: "src + (a - dst) \<noteq> dst" if "a \<noteq> dst" "a - (dst + 1) < n - 1" for a
    proof
      assume e: "src + (a - dst) = dst"
      have "a - dst < n" using that step by blast
      moreover have "a - dst = dst - src" using e by (simp add: algebra_simps)
      ultimately have "dst = src" using 1(2) by auto
      with e that show False by simp
    qed
    have shift: "src + 1 + (a - (dst + 1)) = src + (a - dst)" for a by simp
    have "memcpy_loop dst src n m = memcpy_loop (dst + 1) (src + 1) (n - 1) (m(dst := m src))"
      using False by (subst memcpy_loop.simps) simp
    also have "\<dots> = (\<lambda>a. if a - dst < n then m (src + (a - dst)) else m a)"
    proof
      fix a
      show "memcpy_loop (dst + 1) (src + 1) (n - 1) (m(dst := m src)) a =
          (if a - dst < n then m (src + (a - dst)) else m a)"
        using src [of a] False
        by (cases "a = dst") (simp_all add: 1(1) [OF False pre] shift step word_neq_0_conv)
    qed
    finally show ?thesis .
  qed
qed

lemma memcmp_loop_zero:
  "memcmp_loop a b n m = 0 \<longleftrightarrow> (\<forall>i < n. m (a + i) = m (b + i))"
proof (induction a b n m rule: memcmp_loop.induct)
  case (1 a b n m)
  show ?case
  proof (cases "n = 0 \<or> m a \<noteq> m b")
    case True
    moreover have "m a = m b" if "\<forall>i < n. m (a + i) = m (b + i)" "n \<noteq> 0"
      using that by (metis add_0_right word_neq_0_conv)
    ultimately show ?thesis by (subst memcmp_loop.simps) auto
  next
    case False
    then have n: "n \<noteq> 0" and e: "m a = m b" by auto
    have "(\<forall>i < n. m (a + i) = m (b + i)) \<longleftrightarrow> (\<forall>i < n - 1. m (a + 1 + i) = m (b + 1 + i))"
      (is "?L \<longleftrightarrow> ?R")
    proof
      assume L: ?L
      show ?R
      proof (intro allI impI)
        fix i assume "i < n - 1"
        then have "i + 1 < n" using word_less_step [OF n, of "i + 1"] by simp
        then have "m (a + (i + 1)) = m (b + (i + 1))" using L by blast
        then show "m (a + 1 + i) = m (b + 1 + i)" by (simp add: ac_simps)
      qed
    next
      assume R: ?R
      show ?L
      proof (intro allI impI)
        fix i assume "i < n"
        then have "i = 0 \<or> i - 1 < n - 1" using word_less_step [OF n, of i] by simp
        then show "m (a + i) = m (b + i)"
        proof
          assume "i - 1 < n - 1"
          then have "m (a + 1 + (i - 1)) = m (b + 1 + (i - 1))" using R by blast
          then show ?thesis by simp
        qed (simp add: e)
      qed
    qed
    then show ?thesis using 1 n e by (subst memcmp_loop.simps) simp
  qed
qed

section \<open>Terminated strings\<close>

lemma cstr_nth:
  "cstr m p xs \<longleftrightarrow>
     (\<forall>i < length xs. m (p + of_nat i) = xs ! i \<and> xs ! i \<noteq> 0) \<and> m (p + of_nat (length xs)) = 0"
proof (induction xs arbitrary: p)
  case Nil
  then show ?case by simp
next
  case (Cons x xs)
  have "(\<forall>i < length (x # xs). m (p + of_nat i) = (x # xs) ! i \<and> (x # xs) ! i \<noteq> 0) \<longleftrightarrow>
      (m p = x \<and> x \<noteq> 0) \<and> (\<forall>i < length xs. m (p + 1 + of_nat i) = xs ! i \<and> xs ! i \<noteq> 0)"
    by (simp add: All_less_Suc2 add.assoc)
  then show ?case by (simp add: Cons.IH add.assoc)
qed

lemma cstr_length: "cstr m p xs \<Longrightarrow> length xs < 2 ^ LENGTH(32)"
proof (rule ccontr)
  assume c: "cstr m p xs" and "\<not> length xs < 2 ^ LENGTH(32)"
  then obtain k where k: "length xs = k + 2 ^ LENGTH(32)" by (metis add.commute le_Suc_ex linorder_not_less)
  have "(of_nat (length xs) :: u32) = of_nat k"
    unfolding k by (simp add: word_eq_iff_unsigned)
  moreover have "k < length xs" using k by simp
  ultimately show False using c unfolding cstr_nth by (metis (no_types))
qed

lemma cstr_unique: "cstr m p xs \<Longrightarrow> cstr m p ys \<Longrightarrow> xs = ys"
proof (induction xs arbitrary: p ys)
  case Nil
  then show ?case by (cases ys) auto
next
  case (Cons x xs)
  then show ?case by (cases ys) auto
qed

lemma cstr_cong:
  assumes "\<And>i. i \<le> length xs \<Longrightarrow> m' (p + of_nat i) = m (p + of_nat i)"
  shows "cstr m' p xs \<longleftrightarrow> cstr m p xs"
  using assms by (auto simp: cstr_nth)

lemma strlen_loop_cstr: "cstr m p xs \<Longrightarrow> strlen_loop p m = Some (p + of_nat (length xs) + 1)"
  by (induction xs arbitrary: p) (simp_all add: strlen_loop.simps add.assoc)

lemma strlen_cstr: "cstr m p xs \<Longrightarrow> p \<noteq> NULL \<Longrightarrow> strlen p m = Some (of_nat (length xs))"
  by (simp add: strlen_def strlen_loop_cstr)

lemma strcmp_loop_cstr:
  "cstr m a xs \<Longrightarrow> cstr m b ys \<Longrightarrow> strcmp_loop a b m = Some (cmp_spec xs ys)"
proof (induction xs ys arbitrary: a b rule: cmp_spec.induct)
  case 1
  then show ?case by (simp add: strcmp_loop.simps)
next
  case (2 y ys)
  then show ?case by (simp add: strcmp_loop.simps) (metis linorder_neqE signed_0 signed_word_eqI)
next
  case (3 x xs)
  then show ?case by (simp add: strcmp_loop.simps) (metis linorder_neqE signed_0 signed_word_eqI)
next
  case (4 x xs y ys)
  then show ?case by (simp add: strcmp_loop.simps) (metis linorder_neqE signed_word_eqI)
qed

lemma cmp_spec_eq_0: "0 \<notin> set xs \<Longrightarrow> 0 \<notin> set ys \<Longrightarrow> cmp_spec xs ys = 0 \<longleftrightarrow> xs = ys"
  by (induction xs ys rule: cmp_spec.induct) auto

lemma cstr_nonzero: "cstr m p xs \<Longrightarrow> 0 \<notin> set xs"
  by (induction xs arbitrary: p) auto

text \<open>
  The copy loop of \<open>strcpy\<close> and \<open>strcat\<close>: with the source string \<open>xs\<close> not starting to be overwritten
  before it is read, exactly \<open>length xs + 1\<close> bytes from \<open>dst\<close> on change.
\<close>

lemma strcpy_loop_cstr:
  assumes "cstr m src xs" "dst = src \<or> of_nat (length xs) < dst - src"
  shows "strcpy_loop dst src m =
    Some (\<lambda>a. if a - dst \<le> of_nat (length xs) then m (src + (a - dst)) else m a)"
  using assms
proof (induction xs arbitrary: dst src m)
  case Nil
  then show ?case by (simp add: strcpy_loop.simps fun_eq_iff)
next
  case (Cons x xs)
  let ?n = "of_nat (length xs) :: u32" and ?m = "m(dst := x)"
  have lx: "Suc (length xs) < 2 ^ LENGTH(32)" using cstr_length [OF Cons.prems(1)] by simp
  have n1: "unat (?n + 1) = Suc (length xs)"
  proof -
    have "?n + 1 = of_nat (Suc (length xs))" by simp
    then show ?thesis using unat_of_nat_lt [OF lx] by (simp only:)
  qed
  have n0: "unat ?n = length xs" by (rule unat_of_nat_lt) (use lx in simp)
  have nz: "?n + 1 \<noteq> 0" using n1 by force
  have m: "m src = x" "x \<noteq> 0" "cstr m (src + 1) xs" using Cons.prems(1) by auto
  have off: "dst \<noteq> src + 1 + of_nat i" if "i \<le> length xs" for i
  proof
    assume e: "dst = src + 1 + of_nat i"
    then have d: "dst - src = of_nat (Suc i)" by simp
    have "unat (dst - src) = Suc i" unfolding d using lx that by (subst unat_of_nat_lt) auto
    then show False
      using Cons.prems(2) d n1 that by (auto simp: word_less_nat_alt add.commute)
  qed
  have c: "cstr ?m (src + 1) xs"
    using m(3) off by (subst cstr_cong [where m = m]) auto
  have pre: "dst + 1 = src + 1 \<or> ?n < dst + 1 - (src + 1)"
    using Cons.prems(2) n0 n1 by (auto simp: word_less_nat_alt add.commute)
  have step: "a - dst \<le> ?n + 1 \<longleftrightarrow> a = dst \<or> a - (dst + 1) \<le> ?n" for a
    using word_le_step [OF nz, of "a - dst"] by (simp add: diff_diff_eq)
  have shift: "src + 1 + (a - (dst + 1)) = src + (a - dst)" for a by simp
  have src: "src + (a - dst) \<noteq> dst" if "a \<noteq> dst" "a - (dst + 1) \<le> ?n" for a
    using off [of "unat (a - (dst + 1))"] that n0 shift [of a]
    by (auto simp: word_le_nat_alt)
  have "strcpy_loop dst src m = strcpy_loop (dst + 1) (src + 1) ?m"
    using m by (subst strcpy_loop.simps) simp
  also have "\<dots> = Some (\<lambda>a. if a - (dst + 1) \<le> ?n then ?m (src + 1 + (a - (dst + 1))) else ?m a)"
    by (rule Cons.IH [OF c pre])
  also have "(\<lambda>a. if a - (dst + 1) \<le> ?n then ?m (src + 1 + (a - (dst + 1))) else ?m a) =
      (\<lambda>a. if a - dst \<le> ?n + 1 then m (src + (a - dst)) else m a)"
  proof
    fix a
    show "(if a - (dst + 1) \<le> ?n then ?m (src + 1 + (a - (dst + 1))) else ?m a) =
        (if a - dst \<le> ?n + 1 then m (src + (a - dst)) else m a)"
    proof (cases "a = dst")
      case True
      have "\<not> (- 1 :: u32) \<le> ?n" using nz by (auto simp: word_order.extremum_unique)
      then show ?thesis using True m(1) by simp
    next
      case False
      then show ?thesis using src [OF False] by (simp add: step shift)
    qed
  qed
  finally show ?case by (simp add: add.commute)
qed

lemma hits_simps [simp]:
  "hits ch [] = []"
  "hits ch (x # xs) = (if char_is x ch then 0 # map Suc (hits ch xs) else map Suc (hits ch xs))"
  by (simp_all add: hits_def upt_conv_Cons map_Suc_upt [symmetric] filter_map comp_def del: upt_Suc)

lemma strchr_loop_cstr:
  "cstr m p xs \<Longrightarrow>
   strchr_loop p ch m = Some (case hits ch xs of [] \<Rightarrow> NULL | i # _ \<Rightarrow> p + of_nat i)"
proof (induction xs arbitrary: p)
  case Nil
  then show ?case by (simp add: strchr_loop.simps)
next
  case (Cons x xs)
  then show ?case by (simp add: strchr_loop.simps [of p]) (auto split: list.split)
qed

lemma strrchr_loop_cstr:
  "cstr m p xs \<Longrightarrow>
   strrchr_loop p ch lc m = Some (if hits ch xs = [] then lc else p + of_nat (last (hits ch xs)))"
proof (induction xs arbitrary: p lc)
  case Nil
  then show ?case by (simp add: strrchr_loop.simps)
next
  case (Cons x xs)
  then show ?case by (simp add: strrchr_loop.simps [of p] last_map)
qed

lemma strchrs_loop_cstr:
  "cstr m p xs \<Longrightarrow> strchrs_loop p ch n m = Some (n + of_nat (length (hits ch xs)))"
proof (induction xs arbitrary: p n)
  case Nil
  then show ?case by (simp add: strchrs_loop.simps)
next
  case (Cons x xs)
  then show ?case by (simp add: strchrs_loop.simps [of p])
qed

lemma cstr_append:
  assumes "\<forall>i < length xs. m (p + of_nat i) = xs ! i \<and> xs ! i \<noteq> 0"
    and "cstr m (p + of_nat (length xs)) ys"
  shows "cstr m p (xs @ ys)"
  using assms
proof (induction xs arbitrary: p)
  case Nil
  then show ?case by simp
next
  case (Cons x xs)
  from Cons.prems(1) have "m p = x" "x \<noteq> 0"
    and "\<forall>i < length xs. m (p + 1 + of_nat i) = xs ! i \<and> xs ! i \<noteq> 0"
    by (simp_all add: All_less_Suc2 add.assoc)
  with Cons.IH [of "p + 1"] Cons.prems(2) show ?case by (simp add: add.assoc)
qed

lemma cstr_copied:
  assumes "cstr m src xs"
  shows "cstr (\<lambda>a. if a - dst \<le> of_nat (length xs) then m (src + (a - dst)) else m a) dst xs"
proof -
  have "(of_nat i :: u32) \<le> of_nat (length xs)" if "i \<le> length xs" for i
    using that cstr_length [OF assms] by (simp add: word_le_nat_alt unat_of_nat_lt)
  with assms show ?thesis by (auto simp: cstr_nth)
qed

section \<open>What the routines do\<close>

text \<open>
  \<open>strcat\<close> appends: on terminated strings \<open>xs\<close> at \<open>dst\<close> and \<open>ys\<close> at \<open>src\<close>, where the bytes written do not
  run over the source before it is read, it returns \<open>dst\<close>, the memory then holds \<open>xs @ ys\<close> at \<open>dst\<close>,
  and no byte outside the \<open>length ys + 1\<close> bytes from the old terminator on changes.
\<close>

theorem strcat_appends:
  assumes "cstr m dst xs" "cstr m src ys" "dst \<noteq> NULL" "src \<noteq> NULL"
    and "of_nat (length ys) < dst + of_nat (length xs) - src"
    and "length xs + length ys < 2 ^ 32"
  shows "\<exists>m'. strcat dst src m = Some (dst, m') \<and> cstr m' dst (xs @ ys) \<and>
    (\<forall>a. of_nat (length ys) < a - (dst + of_nat (length xs)) \<longrightarrow> m' a = m a)"
proof -
  let ?e = "dst + of_nat (length xs)"
  let ?m = "\<lambda>a. if a - ?e \<le> of_nat (length ys) then m (src + (a - ?e)) else m a"
  have "strcpy_loop ?e src m = Some ?m"
    by (rule strcpy_loop_cstr) (use assms in auto)
  then have call: "strcat dst src m = Some (dst, ?m)"
    using assms by (simp add: strcat_def strlen_loop_cstr)
  have keep: "?m (dst + of_nat i) = m (dst + of_nat i)" if i: "i < length xs" for i
  proof -
    have e: "dst + of_nat i - ?e = of_nat i - of_nat (length xs)" by simp
    have "unat (dst + of_nat i - ?e) = 2 ^ 32 - (length xs - i)"
      unfolding e using i assms(6) by (simp add: unat_sub_if' unat_of_nat_lt)
    moreover have "length ys < 2 ^ 32 - (length xs - i)" using i assms(6) by simp
    moreover have "unat (of_nat (length ys) :: u32) = length ys"
      using assms(6) by (simp add: unat_of_nat_lt)
    ultimately have "\<not> dst + of_nat i - ?e \<le> of_nat (length ys)" by (simp add: word_le_nat_alt)
    then show ?thesis by simp
  qed
  have "cstr ?m dst (xs @ ys)"
    using assms(1) keep cstr_copied [OF assms(2), of ?e] by (intro cstr_append) (auto simp: cstr_nth)
  then show ?thesis using call by (intro exI [of _ ?m]) (simp add: not_le [symmetric])
qed

theorem strcat_appends_witness:
  "\<exists>m'. strcat 100 200 ((\<lambda>_. 0)(100 := 97, 200 := 98)) = Some (100, m') \<and> cstr m' 100 ([97] @ [98])"
proof -
  let ?m = "(\<lambda>_. 0)(100 := 97, 200 := 98) :: memory"
  have "cstr ?m 100 [97]" "cstr ?m 200 [98]" by simp_all
  from strcat_appends [OF this] show ?thesis by (simp add: word_less_nat_alt) blast
qed

text \<open>
  \<open>strcmp\<close> on two terminated strings returns, and it returns 0 exactly when the strings are equal;
  otherwise it returns 1 or \<open>- 1\<close> according to the first bytes that differ, read as signed characters.
\<close>

theorem strcmp_decides:
  assumes "cstr m a xs" "cstr m b ys" "a \<noteq> NULL" "b \<noteq> NULL"
  shows "strcmp a b m = Some (cmp_spec xs ys) \<and> (cmp_spec xs ys = 0 \<longleftrightarrow> xs = ys)"
  using assms by (simp add: strcmp_def strcmp_loop_cstr cmp_spec_eq_0 cstr_nonzero)

theorem strcmp_decides_witness:
  "strcmp 100 200 ((\<lambda>_. 0)(100 := 97, 200 := 225)) = Some 1"
proof -
  let ?m = "(\<lambda>_. 0)(100 := 97, 200 := 225) :: memory"
  have "cstr ?m 100 [97]" "cstr ?m 200 [225]" by simp_all
  from strcmp_decides [OF this] show ?thesis by simp
qed

text \<open>
  The three searches on a terminated string: \<open>strchr\<close> returns the address of the first occurrence,
  \<open>strrchr\<close> that of the last one, both \<open>NULL\<close> when there is none, and \<open>strchrs\<close> counts the occurrences.
\<close>

theorem string_searches:
  assumes "cstr m p xs" "p \<noteq> NULL"
  shows "strchr p ch m = Some (case hits ch xs of [] \<Rightarrow> NULL | i # _ \<Rightarrow> p + of_nat i) \<and>
    strrchr p ch m = Some (if hits ch xs = [] then NULL else p + of_nat (last (hits ch xs))) \<and>
    strchrs p ch m = Some (of_nat (length (hits ch xs)))"
  using assms
  by (simp add: strchr_def strrchr_def strchrs_def
      strchr_loop_cstr strrchr_loop_cstr strchrs_loop_cstr)

theorem string_searches_witness:
  "strrchr 100 47 ((\<lambda>_. 0)(100 := 47, 101 := 97, 102 := 47)) = Some 102"
proof -
  let ?m = "(\<lambda>_. 0)(100 := 47, 101 := 97, 102 := 47) :: memory"
  have "cstr ?m 100 [47, 97, 47]" by simp
  from string_searches [OF this] show ?thesis by (simp add: char_is_def)
qed

end
