(* ===== verification/Bitmap.thy ===== *)
theory Bitmap
  imports CString
begin

text \<open>
  \<^verbatim>\<open>lib/kernel/bitmap.c\<close>: bitmaps as a length in bytes and a pointer into byte memory. The three
  loops of \<open>bitmap_scan\<close> are three functions, with the reads they really make: the first loop looks
  at \<open>bits[idx_byte]\<close> before it compares \<open>idx_byte\<close> with the length, and the last loop also tests the
  bit just behind the bitmap.

  The lemmas give a bitmap its meaning as a predicate on bit numbers (\<open>used\<close>) and show that \<open>bitmap_set\<close>
  changes one bit and one byte, and that \<open>bitmap_scan\<close> is a first-fit search.
\<close>

section \<open>The data and the operations\<close>

record bitmap =
  btmp_bytes_len :: u32
  bits :: addr

definition bitmap_init :: "bitmap \<Rightarrow> memory \<Rightarrow> memory option" where
  "bitmap_init btmp m = memset (bits btmp) 0 (btmp_bytes_len btmp) m"

definition bitmap_scan_test :: "bitmap \<Rightarrow> u32 \<Rightarrow> memory \<Rightarrow> u32" where
  "bitmap_scan_test btmp bit_idx m =
     (let byte_idx = bit_idx div 8; bit_odd = bit_idx mod 8
      in ucast (m (bits btmp + byte_idx)) AND push_bit (unat bit_odd) 1)"

function bitmap_scan_bytes :: "bitmap \<Rightarrow> u32 \<Rightarrow> memory \<Rightarrow> u32" where
  "bitmap_scan_bytes btmp idx_byte m =
     (if m (bits btmp + idx_byte) = 0xff \<and> idx_byte < btmp_bytes_len btmp
      then bitmap_scan_bytes btmp (idx_byte + 1) m else idx_byte)"
  by pat_completeness auto
termination
  by (relation "measure (\<lambda>(btmp, i, m). unat (btmp_bytes_len btmp) - unat i)")
    (auto simp: word_measure_less)

function bitmap_scan_bit :: "u8 \<Rightarrow> nat \<Rightarrow> nat" where
  "bitmap_scan_bit byte idx_bit =
     (if push_bit idx_bit 1 AND byte \<noteq> 0 then bitmap_scan_bit byte (Suc idx_bit) else idx_bit)"
  by pat_completeness auto
termination
proof (relation "measure (\<lambda>(byte, i). 8 - i)")
  fix byte :: u8 and i
  assume "push_bit i 1 AND byte \<noteq> 0"
  moreover have "push_bit i 1 = (0 :: u8)" if "8 \<le> i"
    using that by (intro bit_word_eqI) (auto simp: bit_exp_iff)
  ultimately have "i < 8" by (metis and_zero_eq linorder_not_less zero_and_eq)
  then show "((byte, Suc i), (byte, i)) \<in> measure (\<lambda>(byte, i). 8 - i)" by simp
qed simp

function bitmap_scan_run :: "bitmap \<Rightarrow> u32 \<Rightarrow> u32 \<Rightarrow> u32 \<Rightarrow> u32 \<Rightarrow> memory \<Rightarrow> u32" where
  "bitmap_scan_run btmp cnt bit_left next_bit count m =
     (if bit_left = 0 then - 1
      else
        let count' = (if bitmap_scan_test btmp next_bit m = 0 then count + 1 else 0)
        in if count' = cnt then next_bit - cnt + 1
           else bitmap_scan_run btmp cnt (bit_left - 1) (next_bit + 1) count' m)"
  by pat_completeness auto
termination
  by (relation "measure (\<lambda>(btmp, cnt, left, n, c, m). unat left)") (auto simp: unat_minus_one_less)

definition bitmap_scan :: "bitmap \<Rightarrow> u32 \<Rightarrow> memory \<Rightarrow> u32 option" where
  "bitmap_scan btmp cnt m =
     (let idx_byte = bitmap_scan_bytes btmp 0 m in do {
        ASSERT (idx_byte < btmp_bytes_len btmp);
        if idx_byte = btmp_bytes_len btmp then Some (- 1)
        else
          let idx_bit = bitmap_scan_bit (m (bits btmp + idx_byte)) 0;
              bit_idx_start = idx_byte * 8 + of_nat idx_bit
          in if cnt = 1 then Some bit_idx_start
             else Some (bitmap_scan_run btmp cnt (btmp_bytes_len btmp * 8 - bit_idx_start)
                          (bit_idx_start + 1) 1 m) })"

definition bitmap_set :: "bitmap \<Rightarrow> u32 \<Rightarrow> u8 \<Rightarrow> memory \<Rightarrow> memory option" where
  "bitmap_set btmp bit_idx v m = do {
     ASSERT (v = 0 \<or> v = 1);
     let p = bits btmp + bit_idx div 8;
     let bit_odd = unat (bit_idx mod 8);
     if v \<noteq> 0 then Some (m(p := m p OR push_bit bit_odd 1))
     else Some (m(p := m p AND NOT (push_bit bit_odd 1))) }"

text \<open>
  The meaning of a bitmap: bit number \<open>i\<close> is in use. \<open>bm_ok\<close> bounds the length so that bit numbers,
  which the code keeps in an \<open>int\<close>, do not overflow (the largest bitmap of the kernel has 24119 bytes).
\<close>

definition used :: "bitmap \<Rightarrow> memory \<Rightarrow> nat \<Rightarrow> bool" where
  "used btmp m i = bit (m (bits btmp + of_nat (i div 8))) (i mod 8)"

definition bm_bits :: "bitmap \<Rightarrow> nat" where
  "bm_bits btmp = 8 * unat (btmp_bytes_len btmp)"

definition bm_ok :: "bitmap \<Rightarrow> bool" where
  "bm_ok btmp \<longleftrightarrow> unat (btmp_bytes_len btmp) < 2 ^ 28"

definition free_run :: "bitmap \<Rightarrow> memory \<Rightarrow> nat \<Rightarrow> nat \<Rightarrow> bool" where
  "free_run btmp m n s \<longleftrightarrow> (\<forall>i < n. \<not> used btmp m (s + i))"

text \<open>The reference: the first position at which \<open>n\<close> bits below the limit are free.\<close>

definition first_fit :: "bitmap \<Rightarrow> memory \<Rightarrow> nat \<Rightarrow> nat \<Rightarrow> nat option" where
  "first_fit btmp m limit n = find (free_run btmp m n) [0..<Suc limit - n]"

text \<open>
  The invariant of the last loop: the \<open>c\<close> bits before \<open>n\<close> are free, the bit before them is in use, and no
  run of \<open>cnt\<close> free bits ends at or before \<open>n\<close>.
\<close>

definition run_inv :: "bitmap \<Rightarrow> memory \<Rightarrow> nat \<Rightarrow> nat \<Rightarrow> nat \<Rightarrow> bool" where
  "run_inv btmp m cnt n c \<longleftrightarrow> c < cnt \<and> c \<le> n \<and>
     (\<forall>i. n - c \<le> i \<and> i < n \<longrightarrow> \<not> used btmp m i) \<and>
     (c < n \<longrightarrow> used btmp m (n - c - 1)) \<and>
     (\<forall>s. s + cnt \<le> n \<longrightarrow> \<not> free_run btmp m cnt s)"

declare bitmap_scan_bytes.simps [simp del] bitmap_scan_bit.simps [simp del]
  bitmap_scan_run.simps [simp del]

section \<open>Single bits\<close>

lemma bit_ucast_8_32 [simp]: "bit (ucast (w :: u8) :: u32) k \<longleftrightarrow> bit w k"
  by (auto simp: bit_unsigned_iff dest: bit_imp_le_length)

lemma bitmap_scan_test_used:
  assumes "i < 2 ^ 32"
  shows "bitmap_scan_test btmp (of_nat i) m = 0 \<longleftrightarrow> \<not> used btmp m i"
proof -
  have "(of_nat i :: u32) div 8 = of_nat (i div 8)"
    using assms by (simp add: word_arith_nat_div unat_of_nat_lt)
  moreover have "unat ((of_nat i :: u32) mod 8) = i mod 8"
    using assms by (simp add: unat_mod_distrib unat_of_nat_lt)
  moreover have "i mod 8 < LENGTH(32)"
    by (rule less_le_trans [where y = 8]) simp_all
  ultimately show ?thesis
    by (simp add: bitmap_scan_test_def used_def Let_def)
qed

lemma used_div_mod: "used btmp m (8 * j + k) = bit (m (bits btmp + of_nat j)) k" if "k < 8"
  using that by (simp add: used_def)

lemma bitmap_set_eq:
  assumes "i < 2 ^ 32" "v = 0 \<or> v = 1"
  shows "bitmap_set btmp (of_nat i) v m =
    (let p = bits btmp + of_nat (i div 8)
     in Some (m(p := if v = 1 then m p OR 2 ^ (i mod 8) else m p AND NOT (2 ^ (i mod 8)))))"
proof -
  have "(of_nat i :: u32) div 8 = of_nat (i div 8)"
    using assms by (simp add: word_arith_nat_div unat_of_nat_lt)
  moreover have "unat ((of_nat i :: u32) mod 8) = i mod 8"
    using assms by (simp add: unat_mod_distrib unat_of_nat_lt)
  ultimately show ?thesis
    using assms(2) by (auto simp: bitmap_set_def Let_def)
qed

lemma bitmap_set_used:
  assumes "bitmap_set btmp (of_nat i) v m = Some m'" "i < 2 ^ 32" "j < 2 ^ 32"
  shows "used btmp m' j \<longleftrightarrow> (if j = i then v = 1 else used btmp m j)"
proof -
  have v: "v = 0 \<or> v = 1" using assms(1) by (auto simp: bitmap_set_def)
  have lt: "i div 8 < 2 ^ LENGTH(32)" "j div 8 < 2 ^ LENGTH(32)" using assms(2,3) by simp_all
  have eq: "i = j" if "i div 8 = j div 8" "i mod 8 = j mod 8"
    using that by (metis div_mult_mod_eq)
  from assms(1) show ?thesis
    unfolding bitmap_set_eq [OF assms(2) v] using v eq
    by (auto simp: used_def Let_def of_nat_inj_lt [OF lt(2) lt(1)] split: if_splits)
qed

lemma bitmap_set_frame:
  assumes "bitmap_set btmp (of_nat i) v m = Some m'" "i < 2 ^ 32" "a \<noteq> bits btmp + of_nat (i div 8)"
  shows "m' a = m a"
proof -
  have v: "v = 0 \<or> v = 1" using assms(1) by (auto simp: bitmap_set_def)
  from assms(1,3) show ?thesis
    unfolding bitmap_set_eq [OF assms(2) v] by (auto simp: Let_def)
qed

lemma bitmap_set_total:
  "v = 0 \<or> v = 1 \<Longrightarrow> \<exists>m'. bitmap_set btmp i v m = Some m'"
  by (auto simp: bitmap_set_def Let_def)

section \<open>The scan\<close>

lemma bitmap_scan_bytes_spec:
  assumes "idx \<le> btmp_bytes_len btmp" "bitmap_scan_bytes btmp idx m = r"
  shows "idx \<le> r \<and> r \<le> btmp_bytes_len btmp \<and>
    (\<forall>j. unat idx \<le> j \<and> j < unat r \<longrightarrow> m (bits btmp + of_nat j) = 0xff) \<and>
    (r < btmp_bytes_len btmp \<longrightarrow> m (bits btmp + r) \<noteq> 0xff)"
  using assms
proof (induction btmp idx m rule: bitmap_scan_bytes.induct)
  case (1 btmp idx m)
  show ?case
  proof (cases "m (bits btmp + idx) = 0xff \<and> idx < btmp_bytes_len btmp")
    case True
    have u: "unat (idx + 1) = Suc (unat idx)" using unat_Suc_lt True by blast
    have le: "idx + 1 \<le> btmp_bytes_len btmp"
      using True u by (simp add: word_le_nat_alt word_less_nat_alt)
    have r: "bitmap_scan_bytes btmp (idx + 1) m = r"
      using 1(3) True by (subst (asm) bitmap_scan_bytes.simps) simp
    note IH = "1.IH" [OF True le r]
    have "m (bits btmp + of_nat j) = 0xff" if "unat idx \<le> j" "j < unat r" for j
      using that IH True u by (cases "j = unat idx") auto
    then show ?thesis
      using IH u by (auto simp: word_le_nat_alt)
  next
    case False
    then have "r = idx"
      using 1(3) by (subst (asm) bitmap_scan_bytes.simps) auto
    then show ?thesis using 1(2) False by auto
  qed
qed

lemma bitmap_scan_bit_spec:
  assumes "\<exists>k \<ge> i. k < 8 \<and> \<not> bit byte k" "bitmap_scan_bit byte i = r"
  shows "i \<le> r \<and> r < 8 \<and> \<not> bit byte r \<and> (\<forall>k. i \<le> k \<and> k < r \<longrightarrow> bit byte k)"
  using assms
proof (induction byte i rule: bitmap_scan_bit.induct)
  case (1 byte i)
  from 1(2) have i: "i < 8" by auto
  then have test: "push_bit i 1 AND byte \<noteq> 0 \<longleftrightarrow> bit byte i"
    by (simp add: and.commute)
  show ?case
  proof (cases "bit byte i")
    case True
    with 1(2) have ex: "\<exists>k \<ge> Suc i. k < 8 \<and> \<not> bit byte k"
      by (metis le_antisym not_less_eq_eq)
    have r: "bitmap_scan_bit byte (Suc i) = r"
      using 1(3) True test by (subst (asm) bitmap_scan_bit.simps) simp
    note IH = "1.IH" [OF test [THEN iffD2, OF True] ex r]
    have "bit byte k" if "i \<le> k" "k < r" for k
      using that IH True by (cases "k = i") auto
    then show ?thesis using IH by auto
  next
    case False
    then have "r = i"
      using 1(3) test by (subst (asm) bitmap_scan_bit.simps) auto
    then show ?thesis using i False by auto
  qed
qed

lemma not_all_ones: "(byte :: u8) \<noteq> 0xff \<Longrightarrow> \<exists>k < 8. \<not> bit byte k"
proof (rule ccontr)
  assume n: "byte \<noteq> 0xff" and all: "\<not> (\<exists>k < 8. \<not> bit byte k)"
  have "byte = - 1"
    by (rule bit_word_eqI) (use all in \<open>auto simp: bit_minus_1_iff\<close>)
  with n show False by simp
qed

lemma div8_cases:
  fixes i a k :: nat
  assumes "i < 8 * a + k" "k < 8"
  shows "i div 8 < a \<or> i div 8 = a \<and> i mod 8 < k"
proof -
  have "i = 8 * (i div 8) + i mod 8" "i mod 8 < 8" by simp_all
  then show ?thesis using assms by linarith
qed

lemma bit_ff: "bit (0xff :: u8) k \<longleftrightarrow> k < 8"
proof -
  have "(0xff :: u8) = - 1" by simp
  then show ?thesis by (simp only: bit_minus_1_iff) simp
qed

text \<open>The first two loops together find the lowest free bit.\<close>

lemma bitmap_scan_start:
  assumes "bitmap_scan_bytes btmp 0 m < btmp_bytes_len btmp"
  defines "r \<equiv> bitmap_scan_bytes btmp 0 m"
  defines "s \<equiv> 8 * unat r + bitmap_scan_bit (m (bits btmp + r)) 0"
  shows "s < bm_bits btmp" "\<not> used btmp m s" "\<forall>i < s. used btmp m i"
proof -
  let ?k = "bitmap_scan_bit (m (bits btmp + r)) 0"
  have bytes: "\<forall>j < unat r. m (bits btmp + of_nat j) = 0xff" "m (bits btmp + r) \<noteq> 0xff"
    using bitmap_scan_bytes_spec [of 0 btmp m r] assms(1) by (auto simp: r_def)
  have k: "?k < 8" "\<not> bit (m (bits btmp + r)) ?k" "\<forall>j < ?k. bit (m (bits btmp + r)) j"
    using bitmap_scan_bit_spec [of 0 "m (bits btmp + r)" ?k] not_all_ones [OF bytes(2)] by auto
  have "unat r < unat (btmp_bytes_len btmp)"
    using assms(1) by (simp add: r_def word_less_nat_alt)
  then show "s < bm_bits btmp" using k(1) by (simp add: s_def bm_bits_def)
  show "\<not> used btmp m s" using k used_div_mod by (simp add: s_def)
  show "\<forall>i < s. used btmp m i"
  proof (intro allI impI)
    fix i assume "i < s"
    then consider "i div 8 < unat r" | "i div 8 = unat r" "i mod 8 < ?k"
      using div8_cases [OF _ k(1)] unfolding s_def by blast
    then show "used btmp m i"
    proof cases
      case 1
      then have "m (bits btmp + of_nat (i div 8)) = 0xff" using bytes(1) by blast
      then show ?thesis unfolding used_def by (simp only: bit_ff)
    next
      case 2
      then show ?thesis using k(3) by (simp add: used_def)
    qed
  qed
qed

lemma bitmap_scan_bytes_full:
  assumes "\<forall>i < bm_bits btmp. used btmp m i"
  shows "bitmap_scan_bytes btmp 0 m = btmp_bytes_len btmp"
  using assms bitmap_scan_start [of btmp m] bitmap_scan_bytes_spec [of 0 btmp m]
  by (metis order_less_le word_coorder.extremum)

lemma bitmap_scan_bytes_free:
  assumes "i < bm_bits btmp" "\<not> used btmp m i"
  shows "bitmap_scan_bytes btmp 0 m < btmp_bytes_len btmp"
proof (rule ccontr)
  let ?r = "bitmap_scan_bytes btmp 0 m"
  assume "\<not> ?r < btmp_bytes_len btmp"
  then have r: "?r = btmp_bytes_len btmp"
    using bitmap_scan_bytes_spec [of 0 btmp m ?r] by auto
  have "i div 8 < unat ?r" using assms(1) r by (simp add: bm_bits_def less_mult_imp_div_less)
  then have "m (bits btmp + of_nat (i div 8)) = 0xff"
    using bitmap_scan_bytes_spec [of 0 btmp m ?r] by simp
  then show False using assms(2) unfolding used_def by (simp only: bit_ff)
qed

lemma run_inv_hit:
  assumes "run_inv btmp m cnt n c" "\<not> used btmp m n" "Suc c = cnt"
  shows "Suc n - cnt + cnt = Suc n" "free_run btmp m cnt (Suc n - cnt)"
    "\<forall>s < Suc n - cnt. \<not> free_run btmp m cnt s"
proof -
  show le: "Suc n - cnt + cnt = Suc n" using assms by (auto simp: run_inv_def)
  show "free_run btmp m cnt (Suc n - cnt)"
    unfolding free_run_def
  proof (intro allI impI)
    fix i assume "i < cnt"
    then have "n - c \<le> Suc n - cnt + i" "Suc n - cnt + i < n \<or> Suc n - cnt + i = n"
      using assms(3) le by linarith+
    then show "\<not> used btmp m (Suc n - cnt + i)"
      using assms(1,2) unfolding run_inv_def by metis
  qed
  show "\<forall>s < Suc n - cnt. \<not> free_run btmp m cnt s"
    using assms(1) by (auto simp: run_inv_def)
qed

lemma run_inv_free:
  assumes "run_inv btmp m cnt n c" "\<not> used btmp m n" "Suc c \<noteq> cnt"
  shows "run_inv btmp m cnt (Suc n) (Suc c)"
proof -
  have "\<not> free_run btmp m cnt s" if "s + cnt \<le> Suc n" for s
  proof (cases "s + cnt \<le> n")
    case False
    with that have s: "s + cnt = Suc n" by simp
    with assms have "c < n" "n - c - 1 - s < cnt" "s + (n - c - 1 - s) = n - c - 1"
      by (auto simp: run_inv_def)
    then show ?thesis using assms(1) unfolding free_run_def run_inv_def by metis
  qed (use assms in \<open>auto simp: run_inv_def\<close>)
  moreover have "\<not> used btmp m i" if "n - c \<le> i" "i < Suc n" for i
    using that assms by (cases "i = n") (auto simp: run_inv_def)
  ultimately show ?thesis using assms by (auto simp: run_inv_def)
qed

lemma run_inv_used:
  assumes "run_inv btmp m cnt n c" "used btmp m n"
  shows "run_inv btmp m cnt (Suc n) 0"
proof -
  have "\<not> free_run btmp m cnt s" if "s + cnt \<le> Suc n" for s
  proof (cases "s + cnt \<le> n")
    case False
    with that assms have "n - s < cnt" "s + (n - s) = n" by (auto simp: run_inv_def)
    then show ?thesis using assms(2) unfolding free_run_def by metis
  qed (use assms in \<open>auto simp: run_inv_def\<close>)
  then show ?thesis using assms by (auto simp: run_inv_def)
qed

lemma run_inv_start:
  assumes "\<not> used btmp m s" "\<forall>i < s. used btmp m i" "1 < n"
  shows "run_inv btmp m n (Suc s) 1"
proof -
  have "\<not> free_run btmp m n j" if "j + n \<le> Suc s" for j
  proof -
    have "j < s" using that assms(3) by simp
    then show ?thesis using assms(2,3) by (auto simp: free_run_def intro!: exI [of _ 0])
  qed
  moreover have "\<not> used btmp m i" if "s \<le> i" "i < Suc s" for i
    using that assms(1) by (cases "i = s") auto
  ultimately show ?thesis using assms by (auto simp: run_inv_def)
qed

lemma bitmap_scan_run_spec:
  assumes "run_inv btmp m cnt n c" "n + left = Suc L" "L < 2 ^ 31" "cnt < 2 ^ 32"
  shows "bitmap_scan_run btmp (of_nat cnt) (of_nat left) (of_nat n) (of_nat c) m =
    (case first_fit btmp m (Suc L) cnt of None \<Rightarrow> - 1 | Some s \<Rightarrow> of_nat s)"
  using assms(1,2)
proof (induction left arbitrary: n c)
  case 0
  have "first_fit btmp m (Suc L) cnt = None"
    using 0 by (auto simp: first_fit_def find_upt_None run_inv_def)
  then show ?case by (subst bitmap_scan_run.simps) simp
next
  case (Suc left)
  have n: "n < 2 ^ 32" and left: "Suc left < 2 ^ 32" using Suc.prems(2) assms(3) by auto
  have l0: "of_nat (Suc left) \<noteq> (0 :: u32)" and l1: "of_nat (Suc left) - 1 = (of_nat left :: u32)"
    using of_nat_inj_lt [where i = "Suc left" and j = 0 and 'a = 32] left by simp_all
  have c: "(of_nat (Suc c) :: u32) = of_nat cnt \<longleftrightarrow> Suc c = cnt"
    using Suc.prems(1) assms(4) by (intro of_nat_inj_lt) (auto simp: run_inv_def)
  have z: "(0 :: u32) \<noteq> of_nat cnt"
    using Suc.prems(1) assms(4) of_nat_inj_lt [where i = 0 and j = cnt and 'a = 32]
    by (auto simp: run_inv_def)
  have inc: "of_nat n + 1 = (of_nat (Suc n) :: u32)" "of_nat c + 1 = (of_nat (Suc c) :: u32)"
    by simp_all
  note unfold = bitmap_scan_run.simps [of btmp "of_nat cnt" "of_nat (Suc left)" "of_nat n" "of_nat c"]
  show ?case
  proof (cases "used btmp m n")
    case True
    have "bitmap_scan_run btmp (of_nat cnt) (of_nat left) (of_nat (Suc n)) (of_nat 0) m =
      (case first_fit btmp m (Suc L) cnt of None \<Rightarrow> - 1 | Some s \<Rightarrow> of_nat s)"
      using run_inv_used [OF Suc.prems(1) True] Suc.prems(2) by (intro Suc.IH) simp_all
    then show ?thesis
      using True n l0 l1 z by (subst unfold) (simp add: bitmap_scan_test_used inc del: of_nat_Suc)
  next
    case free: False
    show ?thesis
    proof (cases "Suc c = cnt")
      case True
      note hit = run_inv_hit [OF Suc.prems(1) free True]
      have "first_fit btmp m (Suc L) cnt = Some (Suc n - cnt)"
        unfolding first_fit_def find_upt_Some using hit Suc.prems(2) by auto
      moreover have "of_nat n - of_nat cnt + 1 = (of_nat (Suc n - cnt) :: u32)"
        using hit(1) by (simp add: of_nat_diff)
      ultimately show ?thesis
        using True free n l0 c
        by (subst unfold) (simp add: bitmap_scan_test_used inc(2) del: of_nat_Suc)
    next
      case False
      have "bitmap_scan_run btmp (of_nat cnt) (of_nat left) (of_nat (Suc n)) (of_nat (Suc c)) m =
        (case first_fit btmp m (Suc L) cnt of None \<Rightarrow> - 1 | Some s \<Rightarrow> of_nat s)"
        using run_inv_free [OF Suc.prems(1) free False] Suc.prems(2) by (intro Suc.IH) simp_all
      then show ?thesis
        using False free n l0 l1 c
        by (subst unfold) (simp add: bitmap_scan_test_used inc del: of_nat_Suc)
    qed
  qed
qed

section \<open>What the operations do\<close>

lemma free_run_1 [simp]: "free_run btmp m (Suc 0) s \<longleftrightarrow> \<not> used btmp m s"
  by (simp add: free_run_def)

lemma bitmap_scan_unfold:
  assumes "i < bm_bits btmp" "\<not> used btmp m i"
  shows "\<exists>s < bm_bits btmp. \<not> used btmp m s \<and> (\<forall>j < s. used btmp m j) \<and>
    bitmap_scan btmp cnt m =
      Some (if cnt = 1 then of_nat s
            else bitmap_scan_run btmp cnt (of_nat (bm_bits btmp - s)) (of_nat (Suc s)) 1 m)"
proof -
  let ?r = "bitmap_scan_bytes btmp 0 m"
  let ?k = "bitmap_scan_bit (m (bits btmp + ?r)) 0"
  define s where "s = 8 * unat ?r + ?k"
  have r: "?r < btmp_bytes_len btmp" by (rule bitmap_scan_bytes_free [OF assms])
  note s = bitmap_scan_start [OF r, folded s_def]
  have start: "?r * 8 + of_nat ?k = of_nat s" by (simp add: s_def mult.commute)
  have "btmp_bytes_len btmp * 8 = of_nat (bm_bits btmp)" by (simp add: bm_bits_def mult.commute)
  then have left: "btmp_bytes_len btmp * 8 - of_nat s = of_nat (bm_bits btmp - s)"
    using s(1) by (simp add: of_nat_diff)
  have "bitmap_scan btmp cnt m =
      Some (if cnt = 1 then of_nat s
            else bitmap_scan_run btmp cnt (of_nat (bm_bits btmp - s)) (of_nat (Suc s)) 1 m)"
    unfolding bitmap_scan_def Let_def start left using r by (auto simp: add.commute)
  with s show ?thesis by blast
qed

lemma bm_bits_bound: "bm_ok btmp \<Longrightarrow> bm_bits btmp < 2 ^ 31"
  by (simp add: bm_ok_def bm_bits_def)

lemma scan_first_fit:
  assumes "bm_ok btmp" "i < bm_bits btmp" "\<not> used btmp m i" "0 < cnt"
  shows "bitmap_scan btmp cnt m =
    Some (case first_fit btmp m (if cnt = 1 then bm_bits btmp else Suc (bm_bits btmp)) (unat cnt)
          of None \<Rightarrow> - 1 | Some s \<Rightarrow> of_nat s)"
proof -
  obtain s where s: "s < bm_bits btmp" "\<not> used btmp m s" "\<forall>j < s. used btmp m j"
    and call: "bitmap_scan btmp cnt m =
      Some (if cnt = 1 then of_nat s
            else bitmap_scan_run btmp cnt (of_nat (bm_bits btmp - s)) (of_nat (Suc s)) 1 m)"
    using bitmap_scan_unfold [OF assms(2,3)] by blast
  show ?thesis
  proof (cases "cnt = 1")
    case True
    have "first_fit btmp m (bm_bits btmp) 1 = Some s"
      unfolding first_fit_def find_upt_Some using s by simp
    then show ?thesis using True call by simp
  next
    case False
    define n where "n = unat cnt"
    have "n \<noteq> 1" using False unfolding n_def by (metis One_nat_def unat_1 word_unat_eq_iff)
    moreover have "0 < n" using assms(4) unfolding n_def by (simp add: unat_gt_0 word_neq_0_conv)
    ultimately have n1: "1 < n" by simp
    have inv: "run_inv btmp m n (Suc s) 1" by (rule run_inv_start [OF s(2,3) n1])
    have "bitmap_scan_run btmp (of_nat n) (of_nat (bm_bits btmp - s)) (of_nat (Suc s)) (of_nat 1) m =
      (case first_fit btmp m (Suc (bm_bits btmp)) n of None \<Rightarrow> - 1 | Some s \<Rightarrow> of_nat s)"
      by (rule bitmap_scan_run_spec [OF inv])
        (use s(1) bm_bits_bound [OF assms(1)] in \<open>auto simp: n_def\<close>)
    then show ?thesis using False call by (simp add: n_def)
  qed
qed



text \<open>
  A full bitmap stops the kernel: when every bit is in use \<open>bitmap_scan\<close> does not return, because the
  \<open>ASSERT\<close> on the byte index fails before the branch that returns \<open>- 1\<close> is reached.
\<close>

theorem bitmap_scan_full:
  assumes "\<forall>i < bm_bits btmp. used btmp m i"
  shows "bitmap_scan btmp cnt m = None"
  using bitmap_scan_bytes_full [OF assms] by (simp add: bitmap_scan_def)

theorem bitmap_scan_full_witness:
  "bitmap_scan \<lparr>btmp_bytes_len = 1, bits = 100\<rparr> 1 ((\<lambda>_. 0)(100 := 0xff)) = None"
proof (rule bitmap_scan_full)
  show "\<forall>i < bm_bits \<lparr>btmp_bytes_len = 1, bits = 100\<rparr>.
      used \<lparr>btmp_bytes_len = 1, bits = 100\<rparr> ((\<lambda>_. 0)(100 := 0xff)) i"
    by code_simp
qed

text \<open>
  \<open>bitmap_set\<close> sets exactly the bit it names: with the value 0 or 1 it returns, afterwards bit \<open>i\<close> holds
  the value, every other bit number is as before, and no byte but the one of bit \<open>i\<close> changes.
\<close>

theorem bitmap_set_correct:
  assumes "v = 0 \<or> v = 1"
  shows "\<exists>m'. bitmap_set btmp i v m = Some m' \<and>
    (\<forall>j < 2 ^ 32. used btmp m' j \<longleftrightarrow> (if j = unat i then v = 1 else used btmp m j)) \<and>
    (\<forall>a. a \<noteq> bits btmp + i div 8 \<longrightarrow> m' a = m a)"
proof -
  obtain m' where m': "bitmap_set btmp i v m = Some m'" using bitmap_set_total [OF assms] by blast
  then have of: "bitmap_set btmp (of_nat (unat i)) v m = Some m'" by simp
  have lt: "unat i < 2 ^ 32" by (rule unat_lt_32(1))
  have "(of_nat (unat i div 8) :: u32) = i div 8" by (simp add: word_arith_nat_div)
  then show ?thesis
    using m' bitmap_set_used [OF of lt] bitmap_set_frame [OF of lt] by auto
qed

theorem bitmap_set_correct_witness:
  "\<exists>m'. bitmap_set \<lparr>btmp_bytes_len = 2, bits = 100\<rparr> 9 1 (\<lambda>_. 0) = Some m' \<and>
     used \<lparr>btmp_bytes_len = 2, bits = 100\<rparr> m' 9"
proof -
  have "(1 :: u8) = 0 \<or> (1 :: u8) = 1" by simp
  from bitmap_set_correct [OF this, of "\<lparr>btmp_bytes_len = 2, bits = 100\<rparr>" 9 "\<lambda>_. 0"]
  show ?thesis by (elim exE conjE) (rule exI, rule conjI, assumption, simp)
qed

text \<open>
  The bit behind the bitmap is really taken into account: on a bitmap of one byte whose only free bit
  is its last one, a search for two bits answers 7 when the byte behind the bitmap happens to be 0,
  a run that ends outside the 8 bits of the bitmap.
\<close>

theorem bitmap_scan_overrun:
  "bitmap_scan \<lparr>btmp_bytes_len = 1, bits = 100\<rparr> 2 ((\<lambda>_. 0)(100 := 0x7f)) = Some 7 \<and>
   bm_bits \<lparr>btmp_bytes_len = 1, bits = 100\<rparr> = 8"
  by code_simp

text \<open>
  What a caller gets: the bits \<open>s, ..., s + cnt - 1\<close> of a result \<open>s\<close> other than \<open>- 1\<close> are all free, and they
  all lie inside the bitmap when a single bit is asked for or the bit behind the bitmap reads as used.
\<close>

theorem bitmap_scan_result:
  assumes "bm_ok btmp" "bitmap_scan btmp cnt m = Some r" "r \<noteq> - 1" "0 < cnt"
  shows "free_run btmp m (unat cnt) (unat r) \<and>
    (cnt = 1 \<or> used btmp m (bm_bits btmp) \<longrightarrow> unat r + unat cnt \<le> bm_bits btmp)"
proof -
  let ?L = "if cnt = 1 then bm_bits btmp else Suc (bm_bits btmp)"
  obtain i where "i < bm_bits btmp" "\<not> used btmp m i"
    using assms(2) bitmap_scan_bytes_full [of btmp m] by (fastforce simp: bitmap_scan_def)
  then obtain s where s: "first_fit btmp m ?L (unat cnt) = Some s" "r = of_nat s"
    using scan_first_fit [OF assms(1) _ _ assms(4)] assms(2,3) by (auto split: option.splits)
  then have run: "free_run btmp m (unat cnt) s" and le: "s + unat cnt \<le> ?L"
    by (auto simp: first_fit_def find_upt_Some split: if_splits)
  have cnt: "0 < unat cnt" using assms(4) by (simp add: unat_gt_0 word_neq_0_conv)
  have rs: "unat r = s" unfolding s(2) using le bm_bits_bound [OF assms(1)] cnt
    by (intro unat_of_nat_lt) (auto split: if_splits)
  have "s + unat cnt \<noteq> Suc (bm_bits btmp)" if "used btmp m (bm_bits btmp)"
  proof
    assume "s + unat cnt = Suc (bm_bits btmp)"
    then have "s + (unat cnt - 1) = bm_bits btmp" using cnt by simp
    then show False using run that cnt unfolding free_run_def by (metis diff_less zero_less_one)
  qed
  then show ?thesis using run le rs by (auto split: if_splits)
qed

theorem bitmap_scan_result_witness:
  "free_run \<lparr>btmp_bytes_len = 1, bits = 100\<rparr> ((\<lambda>_. 0)(100 := 0x1f)) 2 5"
proof -
  let ?b = "\<lparr>btmp_bytes_len = 1, bits = 100\<rparr>" and ?m = "(\<lambda>_. 0)(100 := 0x1f) :: memory"
  have "bm_ok ?b" by (simp add: bm_ok_def)
  moreover have "bitmap_scan ?b 2 ?m = Some 5" by code_simp
  ultimately show ?thesis using bitmap_scan_result [of ?b 2 ?m 5] by simp
qed

end
