(* ===== verification/Thread.thy ===== *)
theory Thread
  imports Paging Bitmap
begin

text \<open>
  \<^verbatim>\<open>thread/thread.c\<close>, \<^verbatim>\<open>thread/switch.S\<close> and the parts of \<^verbatim>\<open>userprog/process.c\<close> and \<^verbatim>\<open>userprog/tss.c\<close>
  that a context switch runs through. The record \<open>tsys\<close> adds to the machine the process control blocks by
  address, the semaphores, locks and block descriptors by address, the addresses of the global lists,
  and the registers that \<open>switch_to\<close> saves.

  \<open>schedule\<close> is the machine transition up to and including \<open>switch_to\<close>: in the state it yields another
  thread is running, at the place where that thread itself had called \<open>switch_to\<close> (or at its entry point). What
  the code of the descheduled thread does when it is switched back to is therefore a
  separate step: \<open>thread_block\<close> and \<open>thread_yield\<close> take a parameter \<open>others\<close> that stands for the run of the other
  threads until the calling thread is dispatched again.

  The lemmas show the scheduling discipline: under the invariant \<open>sched_inv\<close> no assertion of the scheduler
  fails, the thread at the head of the ready list runs next, a preempted thread goes to the
  tail, a woken one to the head, and the invariant is kept.
\<close>

section \<open>State\<close>

datatype task_status = TASK_RUNNING | TASK_READY | TASK_BLOCKED | TASK_WAITING | TASK_HANGING | TASK_DIED

record virtual_addr =
  vaddr_bitmap :: bitmap
  vaddr_start :: addr

text \<open>\<open>name[16]\<close> is bytes of memory at offset 12; the list tags are link cells at offsets 36 and 44;
  the descriptors \<open>u_block_desc\<close> are at offset 68.\<close>

record task_struct =
  self_kstack :: addr
  pid :: u16
  status :: task_status
  priority :: u8
  ticks :: u8
  elapsed_ticks :: u32
  pgdir :: addr
  userprog_vaddr :: virtual_addr
  fd_table :: "u32 list"
  cwd_inode_nr :: u32
  stack_magic :: u32

text \<open>The list \<open>waiters\<close> of a semaphore is at offset 4, the semaphore of a lock at offset 4, the
  \<open>free_list\<close> of a block descriptor at offset 8.\<close>

record semaphore =
  svalue :: u8

record lock =
  holder :: addr
  holder_repeat_nr :: u32

record mem_block_desc =
  block_size :: u32
  blocks_per_arena :: u32

record regs =
  ebp :: u32
  ebx :: u32
  edi :: u32
  esi :: u32
  eip :: addr

record tsys = mmu +
  tasks :: "addr \<Rightarrow> task_struct"
  semas :: "addr \<Rightarrow> semaphore"
  locks :: "addr \<Rightarrow> lock"
  descs :: "addr \<Rightarrow> mem_block_desc"
  ctx :: regs
  thread_ready_list :: addr
  thread_all_list :: addr
  main_thread :: addr
  idle_thread :: addr
  pid_lock :: addr
  next_pid :: u16
  esp0 :: addr
  timer_ticks :: u32

definition general_tag :: "addr \<Rightarrow> addr" where
  "general_tag pcb = pcb + 36"

definition all_list_tag :: "addr \<Rightarrow> addr" where
  "all_list_tag pcb = pcb + 44"

definition tag2task :: "addr \<Rightarrow> addr" where
  "tag2task elem = elem - 36"

definition upd_task :: "addr \<Rightarrow> (task_struct \<Rightarrow> task_struct) \<Rightarrow> 'a tsys_scheme \<Rightarrow> 'a tsys_scheme" where
  "upd_task t f s = s\<lparr>tasks := (tasks s)(t := f (tasks s t))\<rparr>"

definition set_status :: "addr \<Rightarrow> task_status \<Rightarrow> 'a tsys_scheme \<Rightarrow> 'a tsys_scheme" where
  "set_status t st = upd_task t (\<lambda>p. p\<lparr>status := st\<rparr>)"

section \<open>The operations\<close>

definition running_thread :: "'a machine_scheme \<Rightarrow> addr" where
  "running_thread s = esp s AND 0xfffff000"

text \<open>\<open>self_kstack\<close> is a \<open>uint32_t*\<close>, so the two sizes (76 and 32 bytes) are subtracted in units of four bytes.
  \<open>kernel_thread\<close> is the address of that function.\<close>

definition thread_create :: "addr \<Rightarrow> addr \<Rightarrow> addr \<Rightarrow> u32 \<Rightarrow> 'a tsys_scheme \<Rightarrow> 'a tsys_scheme" where
  "thread_create kernel_thread pthread function func_arg s =
     (let s = upd_task pthread (\<lambda>p. p\<lparr>self_kstack := self_kstack p - 4 * 76\<rparr>) s;
          s = upd_task pthread (\<lambda>p. p\<lparr>self_kstack := self_kstack p - 4 * 32\<rparr>) s;
          k = self_kstack (tasks s pthread);
          m = st32 (k + 16) kernel_thread (mem s);
          m = st32 (k + 24) function m;
          m = st32 (k + 28) func_arg m;
          m = st32 (k + 8) 0 m;
          m = st32 (k + 12) 0 m;
          m = st32 (k + 4) 0 m;
          m = st32 k 0 m
      in s\<lparr>mem := m\<rparr>)"

text \<open>
  \<open>switch_to\<close> as called from C: the two arguments and the return address (\<open>eip\<close> of the caller) are pushed, then
  the four registers; the stack pointers are exchanged; the registers and the return address are popped.
\<close>

definition switch_to :: "addr \<Rightarrow> addr \<Rightarrow> 'a tsys_scheme \<Rightarrow> 'a tsys_scheme" where
  "switch_to cur nxt s =
     (let c = ctx s; sp = esp s;
          m = st32 (sp - 4) nxt (mem s);
          m = st32 (sp - 8) cur m;
          m = st32 (sp - 12) (eip c) m;
          m = st32 (sp - 16) (esi c) m;
          m = st32 (sp - 20) (edi c) m;
          m = st32 (sp - 24) (ebx c) m;
          m = st32 (sp - 28) (ebp c) m;
          s = upd_task cur (\<lambda>p. p\<lparr>self_kstack := sp - 28\<rparr>) s;
          k = self_kstack (tasks s nxt)
      in s\<lparr>mem := m, esp := k + 20,
           ctx := \<lparr>ebp = ld32 m k, ebx = ld32 m (k + 4), edi = ld32 m (k + 8), esi = ld32 m (k + 12),
                   eip = ld32 m (k + 16)\<rparr>\<rparr>)"

definition update_tss_esp :: "addr \<Rightarrow> 'a tsys_scheme \<Rightarrow> 'a tsys_scheme" where
  "update_tss_esp pthread s = s\<lparr>esp0 := pthread + PG_SIZE\<rparr>"

definition page_dir_activate :: "addr \<Rightarrow> 'a tsys_scheme \<Rightarrow> 'a tsys_scheme option" where
  "page_dir_activate p_thread s = do {
     pagedir_phy_addr \<leftarrow> (if pgdir (tasks s p_thread) \<noteq> NULL then addr_v2p (pgdir (tasks s p_thread)) s
                         else Some 0x100000);
     Some (s\<lparr>cr3 := pagedir_phy_addr\<rparr>) }"

definition process_activate :: "addr \<Rightarrow> 'a tsys_scheme \<Rightarrow> 'a tsys_scheme option" where
  "process_activate p_thread s = do {
     ASSERT (p_thread \<noteq> NULL);
     s \<leftarrow> page_dir_activate p_thread s;
     Some (if pgdir (tasks s p_thread) \<noteq> NULL then update_tss_esp p_thread s else s) }"

definition blocked_status :: "task_status \<Rightarrow> bool" where
  "blocked_status st \<longleftrightarrow> st = TASK_BLOCKED \<or> st = TASK_WAITING \<or> st = TASK_HANGING"

definition thread_unblock :: "addr \<Rightarrow> 'a tsys_scheme \<Rightarrow> 'a tsys_scheme option" where
  "thread_unblock pthread s = do {
     let (old_status, s) = intr_disable s;
     ASSERT (blocked_status (status (tasks s pthread)));
     s \<leftarrow> (if status (tasks s pthread) \<noteq> TASK_READY then do {
              found \<leftarrow> elem_find (thread_ready_list s) (general_tag pthread) s;
              ASSERT (\<not> found);
              found \<leftarrow> elem_find (thread_ready_list s) (general_tag pthread) s;
              ASSERT (\<not> found);
              let s = list_push (thread_ready_list s) (general_tag pthread) s;
              Some (set_status pthread TASK_READY s) }
            else Some s);
     Some (snd (intr_set_status old_status s)) }"

definition schedule :: "'a tsys_scheme \<Rightarrow> 'a tsys_scheme option" where
  "schedule s = do {
     ASSERT (intr_get_status s = INTR_OFF);
     let cur = running_thread s;
     s \<leftarrow> (if status (tasks s cur) = TASK_RUNNING then do {
              found \<leftarrow> elem_find (thread_ready_list s) (general_tag cur) s;
              ASSERT (\<not> found);
              let s = list_append (thread_ready_list s) (general_tag cur) s;
              let s = upd_task cur (\<lambda>p. p\<lparr>ticks := priority p\<rparr>) s;
              Some (set_status cur TASK_READY s) }
            else Some s);
     s \<leftarrow> (if list_empty (thread_ready_list s) s then thread_unblock (idle_thread s) s else Some s);
     let (thread_tag, s) = list_pop (thread_ready_list s) s;
     let nxt = tag2task thread_tag;
     let s = set_status nxt TASK_RUNNING s;
     s \<leftarrow> process_activate nxt s;
     Some (switch_to cur nxt s) }"

text \<open>Control comes back to \<open>cur\<close>: at once when the scheduler chose \<open>cur\<close> itself, otherwise after the others ran.\<close>

definition resume :: "(addr \<Rightarrow> 'a tsys_scheme \<Rightarrow> 'a tsys_scheme option) \<Rightarrow> addr \<Rightarrow> 'a tsys_scheme \<Rightarrow> 'a tsys_scheme option" where
  "resume others cur s = (if running_thread s = cur then Some s else others cur s)"

text \<open>The part of \<open>thread_block\<close> up to the context switch, and the whole.\<close>

definition block_begin :: "task_status \<Rightarrow> 'a tsys_scheme \<Rightarrow> (intr_status \<times> 'a tsys_scheme) option" where
  "block_begin stat s = do {
     ASSERT (blocked_status stat);
     let (old_status, s) = intr_disable s;
     let cur_thread = running_thread s;
     let s = set_status cur_thread stat s;
     s \<leftarrow> schedule s;
     Some (old_status, s) }"

definition thread_block ::
    "(addr \<Rightarrow> 'a tsys_scheme \<Rightarrow> 'a tsys_scheme option) \<Rightarrow> task_status \<Rightarrow> 'a tsys_scheme \<Rightarrow> 'a tsys_scheme option" where
  "thread_block others stat s = do {
     let cur_thread = running_thread s;
     (old_status, s) \<leftarrow> block_begin stat s;
     s \<leftarrow> resume others cur_thread s;
     Some (snd (intr_set_status old_status s)) }"

text \<open>The part of \<open>thread_yield\<close> before the call of \<open>schedule\<close>, and the whole.\<close>

definition yield_enqueue :: "'a tsys_scheme \<Rightarrow> 'a tsys_scheme option" where
  "yield_enqueue s = do {
     let cur = running_thread s;
     found \<leftarrow> elem_find (thread_ready_list s) (general_tag cur) s;
     ASSERT (\<not> found);
     let s = list_append (thread_ready_list s) (general_tag cur) s;
     Some (set_status cur TASK_READY s) }"

definition thread_yield ::
    "(addr \<Rightarrow> 'a tsys_scheme \<Rightarrow> 'a tsys_scheme option) \<Rightarrow> 'a tsys_scheme \<Rightarrow> 'a tsys_scheme option" where
  "thread_yield others s = do {
     let cur = running_thread s;
     let (old_status, s) = intr_disable s;
     s \<leftarrow> yield_enqueue s;
     s \<leftarrow> schedule s;
     s \<leftarrow> resume others cur s;
     Some (snd (intr_set_status old_status s)) }"

text \<open>The timer interrupt (\<^verbatim>\<open>device/timer.c\<close>), which ends the time slice of the running thread.\<close>

definition intr_timer_handler :: "'a tsys_scheme \<Rightarrow> 'a tsys_scheme option" where
  "intr_timer_handler s = do {
     let cur_thread = running_thread s;
     ASSERT (stack_magic (tasks s cur_thread) = 0x19870916);
     let s = upd_task cur_thread (\<lambda>p. p\<lparr>elapsed_ticks := elapsed_ticks p + 1\<rparr>) s;
     let s = s\<lparr>timer_ticks := timer_ticks s + 1\<rparr>;
     (if ticks (tasks s cur_thread) = 0 then schedule s
      else Some (upd_task cur_thread (\<lambda>p. p\<lparr>ticks := ticks p - 1\<rparr>) s)) }"

section \<open>Facts on the parts\<close>

lemma tag2task_tag [simp]: "tag2task (general_tag t) = t"
  by (simp add: tag2task_def general_tag_def)

lemma general_tag_inj [simp]: "general_tag t = general_tag u \<longleftrightarrow> t = u"
  by (simp add: general_tag_def)

lemma tag_in_map [simp]: "general_tag t \<in> general_tag ` A \<longleftrightarrow> t \<in> A"
  by auto

lemma running_thread_frame: "running_thread s = frame (esp s)"
  by (simp add: running_thread_def frame_def)

lemma running_thread_cong: "esp s' = esp s \<Longrightarrow> running_thread s' = running_thread s"
  by (simp add: running_thread_def)

lemma intr_disable_eq: "\<exists>old e. intr_disable s = (old, s\<lparr>eflags := e\<rparr>) \<and> \<not> bit e 9"
proof -
  have "snd (intr_disable s) = s\<lparr>eflags := eflags (snd (intr_disable s))\<rparr>" by (simp add: intr_disable_def)
  then show ?thesis using intr_disable_off [of s] by (metis prod.collapse)
qed

lemma upd_task_sel [simp]:
  "elems (upd_task t f s) = elems s" "eflags (upd_task t f s) = eflags s" "esp (upd_task t f s) = esp s"
  "mem (upd_task t f s) = mem s" "cr3 (upd_task t f s) = cr3 s" "ptab (upd_task t f s) = ptab s"
  "semas (upd_task t f s) = semas s" "locks (upd_task t f s) = locks s" "descs (upd_task t f s) = descs s"
  "thread_ready_list (upd_task t f s) = thread_ready_list s" "idle_thread (upd_task t f s) = idle_thread s"
  "timer_ticks (upd_task t f s) = timer_ticks s"
  "tasks (upd_task t f s) = (tasks s)(t := f (tasks s t))" "tsys.more (upd_task t f s) = tsys.more s"
  by (simp_all add: upd_task_def)

lemma set_status_tasks [simp]:
  "tasks (set_status t st s) = (tasks s)(t := (tasks s t)\<lparr>status := st\<rparr>)"
  "elems (set_status t st s) = elems s" "eflags (set_status t st s) = eflags s" "esp (set_status t st s) = esp s"
  "cr3 (set_status t st s) = cr3 s" "ptab (set_status t st s) = ptab s" "mem (set_status t st s) = mem s"
  "semas (set_status t st s) = semas s" "locks (set_status t st s) = locks s" "descs (set_status t st s) = descs s"
  "thread_ready_list (set_status t st s) = thread_ready_list s" "idle_thread (set_status t st s) = idle_thread s"
  "tsys.more (set_status t st s) = tsys.more s"
  by (simp_all add: set_status_def)

text \<open>A thread that is not running can be switched to: its saved stack pointer lies in its own page.\<close>

definition kstack_ok :: "addr \<Rightarrow> addr \<Rightarrow> bool" where
  "kstack_ok t k \<longleftrightarrow> frame k = t \<and> unat (k AND 0xfff) + 20 < 4096"

definition stack_room :: "'a machine_scheme \<Rightarrow> bool" where
  "stack_room s \<longleftrightarrow> 28 \<le> unat (esp s AND 0xfff)"

lemma frame_split: "frame a + (a AND 0xfff) = a"
proof -
  have "frame a AND (a AND 0xfff) = 0" unfolding frame_def by (rule bit_word_eqI; simp only: idx_bits; auto)
  then have "frame a + (a AND 0xfff) = frame a OR (a AND 0xfff)" by (rule disjunctive_add_eq_or)
  also have "\<dots> = a" unfolding frame_def by (rule bit_word_eqI; simp only: idx_bits; auto)
  finally show ?thesis .
qed

lemma offset_less: "a AND 0xfff < (4096 :: u32)"
proof -
  have "a AND 0xfff = take_bit 12 a" by (rule bit_word_eqI; simp only: idx_bits; auto)
  then show ?thesis using word_mod_less_divisor [of 4096 a] by (simp add: take_bit_eq_mod)
qed

lemma frame_shift:
  assumes "unat (a AND 0xfff) + n < 4096"
  shows "frame (a + of_nat n) = frame a"
proof -
  have "a + of_nat n = frame a + ((a AND 0xfff) + of_nat n)" using frame_split [of a] by (metis add.assoc)
  moreover have "unat ((a AND 0xfff) + of_nat n) = unat (a AND 0xfff) + n"
    using assms by (subst unat_add_lt) (simp_all add: unat_of_nat_lt)
  then have "(a AND 0xfff) + of_nat n < 4096" using assms by (simp add: word_less_nat_alt)
  ultimately show ?thesis by (metis frame_plus(1))
qed

lemma kstack_ok_running: "kstack_ok t k \<Longrightarrow> frame (k + 20) = t"
  using frame_shift [of k 20] by (simp add: kstack_ok_def)

lemma frame_unshift:
  assumes "n \<le> unat (a AND 0xfff)"
  shows "frame (a - of_nat n) = frame a" "unat ((a - of_nat n) AND 0xfff) = unat (a AND 0xfff) - n"
proof -
  let ?o = "a AND 0xfff"
  have split: "a - of_nat n = frame a + (?o - of_nat n)" using frame_split [of a] by (metis add_diff_eq)
  have n: "unat (of_nat n :: u32) = n"
    using assms unat_lt_32(1) [of ?o] by (intro unat_of_nat_lt) (simp del: unat_lt_32)
  then have u: "unat (?o - of_nat n) = unat ?o - n" using assms by (subst unat_diff_le) (simp_all add: word_le_nat_alt)
  then have lt: "?o - of_nat n < 4096" using offset_less [of a] by (simp add: word_less_nat_alt)
  show "frame (a - of_nat n) = frame a" "unat ((a - of_nat n) AND 0xfff) = unat ?o - n"
    unfolding split frame_plus [OF lt] u by simp_all
qed

lemma stack_room_save: "stack_room s \<Longrightarrow> kstack_ok (running_thread s) (esp s - 28)"
  using frame_unshift [of 28 "esp s"] offset_less [of "esp s"]
  by (simp add: stack_room_def kstack_ok_def running_thread_frame word_less_nat_alt)

text \<open>A set of page directories that is closed under activation, so that \<open>addr_v2p\<close> never faults there.\<close>

definition dirs_ok :: "addr set \<Rightarrow> 'a tsys_scheme \<Rightarrow> bool" where
  "dirs_ok T s \<longleftrightarrow> (\<exists>D. cr3 s \<in> D \<and> 0x100000 \<in> D \<and>
     (\<forall>t \<in> T. pgdir (tasks s t) \<noteq> NULL \<longrightarrow> (\<forall>c \<in> D. \<exists>pa \<in> D. addr_v2p (pgdir (tasks s t)) (s\<lparr>cr3 := c\<rparr>) = Some pa)))"

lemma addr_v2p_cong: "cr3 s' = cr3 s \<Longrightarrow> ptab s' = ptab s \<Longrightarrow> addr_v2p va s' = addr_v2p va s"
  by (simp add: addr_v2p_def ld_tab_def translate_def pde_at_def pte_at_def)

lemma dirs_ok_cong:
  assumes "cr3 s' = cr3 s" "ptab s' = ptab s" "\<And>t. pgdir (tasks s' t) = pgdir (tasks s t)"
  shows "dirs_ok T s' \<longleftrightarrow> dirs_ok T s"
proof -
  have "addr_v2p va (s'\<lparr>cr3 := c\<rparr>) = addr_v2p va (s\<lparr>cr3 := c\<rparr>)" for va c
    using assms by (intro addr_v2p_cong) simp_all
  then show ?thesis unfolding dirs_ok_def using assms by simp
qed

lemma process_activate_ok:
  assumes "dirs_ok T s" "t \<in> T" "t \<noteq> NULL"
  shows "\<exists>c e. process_activate t s = Some (s\<lparr>cr3 := c, esp0 := e\<rparr>) \<and> dirs_ok T (s\<lparr>cr3 := c, esp0 := e\<rparr>)"
proof -
  obtain D where D: "cr3 s \<in> D" "0x100000 \<in> D"
    "\<forall>t \<in> T. pgdir (tasks s t) \<noteq> NULL \<longrightarrow> (\<forall>c \<in> D. \<exists>pa \<in> D. addr_v2p (pgdir (tasks s t)) (s\<lparr>cr3 := c\<rparr>) = Some pa)"
    using assms(1) by (auto simp: dirs_ok_def)
  have keep: "dirs_ok T (s\<lparr>cr3 := c, esp0 := e\<rparr>)" if "c \<in> D" for c e
    unfolding dirs_ok_def
  proof (intro exI [of _ D] conjI)
    show "\<forall>t \<in> T. pgdir (tasks (s\<lparr>cr3 := c, esp0 := e\<rparr>) t) \<noteq> NULL \<longrightarrow>
        (\<forall>c' \<in> D. \<exists>pa \<in> D. addr_v2p (pgdir (tasks (s\<lparr>cr3 := c, esp0 := e\<rparr>) t)) (s\<lparr>cr3 := c, esp0 := e\<rparr>\<lparr>cr3 := c'\<rparr>) = Some pa)"
      using D(3) addr_v2p_cong [of "s\<lparr>cr3 := c, esp0 := e\<rparr>\<lparr>cr3 := _\<rparr>" "s\<lparr>cr3 := _\<rparr>"] by simp
  qed (use D that in simp_all)
  show ?thesis
  proof (cases "pgdir (tasks s t) = NULL")
    case True
    then have "process_activate t s = Some (s\<lparr>cr3 := 0x100000, esp0 := esp0 s\<rparr>)"
      using assms(3) by (simp add: process_activate_def page_dir_activate_def)
    then show ?thesis using keep D(2) by blast
  next
    case False
    then obtain pa where pa: "pa \<in> D" "addr_v2p (pgdir (tasks s t)) (s\<lparr>cr3 := cr3 s\<rparr>) = Some pa"
      using D assms(2) by blast
    then have "process_activate t s = Some (s\<lparr>cr3 := pa, esp0 := t + PG_SIZE\<rparr>)"
      using False assms(3) by (simp add: process_activate_def page_dir_activate_def update_tss_esp_def)
    then show ?thesis using keep pa(1) by blast
  qed
qed

section \<open>The scheduler invariant\<close>

text \<open>
  \<open>sched_ok T rs s\<close>: \<open>T\<close> are the threads of the system and \<open>rs\<close> the ready queue in order. A thread is in the queue
  exactly when its status says so, nobody but the running thread has status \<open>TASK_RUNNING\<close>, and every other
  thread can be switched to.
\<close>

definition sched_ok :: "addr set \<Rightarrow> addr list \<Rightarrow> 'a tsys_scheme \<Rightarrow> bool" where
  "sched_ok T rs s \<longleftrightarrow>
     dlist (elems s) (thread_ready_list s) (map general_tag rs) \<and> set rs \<subseteq> T \<and>
     running_thread s \<in> T \<and> idle_thread s \<in> T \<and> NULL \<notin> T \<and>
     (\<forall>t \<in> T. general_tag t \<noteq> thread_ready_list s \<and> general_tag t \<noteq> tail_of (thread_ready_list s)) \<and>
     (\<forall>t \<in> T. status (tasks s t) = TASK_READY \<longleftrightarrow> t \<in> set rs) \<and>
     (\<forall>t \<in> T. status (tasks s t) = TASK_RUNNING \<longrightarrow> t = running_thread s) \<and>
     (\<forall>t \<in> T. t \<noteq> running_thread s \<longrightarrow> kstack_ok t (self_kstack (tasks s t))) \<and>
     dirs_ok T s"

lemma sched_okD:
  assumes "sched_ok T rs s"
  shows "dlist (elems s) (thread_ready_list s) (map general_tag rs)" "set rs \<subseteq> T" "running_thread s \<in> T"
    "idle_thread s \<in> T" "NULL \<notin> T"
    "\<And>t. t \<in> T \<Longrightarrow> status (tasks s t) = TASK_READY \<longleftrightarrow> t \<in> set rs"
    "\<And>t. t \<in> T \<Longrightarrow> status (tasks s t) = TASK_RUNNING \<Longrightarrow> t = running_thread s"
    "\<And>t. t \<in> T \<Longrightarrow> t \<noteq> running_thread s \<Longrightarrow> kstack_ok t (self_kstack (tasks s t))" "dirs_ok T s"
    "distinct rs" "\<And>t. t \<in> T \<Longrightarrow> t \<notin> set rs \<Longrightarrow> general_tag t \<notin> set (cells (thread_ready_list s) (map general_tag rs))"
proof -
  show "distinct rs"
    using assms by (auto simp: sched_ok_def dlist_def cells_def distinct_map)
  show "general_tag t \<notin> set (cells (thread_ready_list s) (map general_tag rs))" if "t \<in> T" "t \<notin> set rs" for t
    using assms that by (auto simp: sched_ok_def cells_def)
qed (use assms in \<open>auto simp: sched_ok_def\<close>)

lemma sched_ok_find:
  assumes "sched_ok T rs s" "t \<in> T" "elems s' = elems s" "thread_ready_list s' = thread_ready_list s"
  shows "elem_find (thread_ready_list s') (general_tag t) s' = Some (t \<in> set rs)"
  using elem_find_dlist [of s' "thread_ready_list s'" "map general_tag rs" "general_tag t"] sched_okD(1) [OF assms(1)] assms
  by auto

lemma blocked_not_ready: "blocked_status st \<Longrightarrow> st \<noteq> TASK_READY \<and> st \<noteq> TASK_RUNNING"
  by (auto simp: blocked_status_def)

text \<open>Waking a thread: it goes to the head of the ready queue.\<close>

definition woken :: "addr \<Rightarrow> 'a tsys_scheme \<Rightarrow> 'a tsys_scheme" where
  "woken t s = set_status t TASK_READY (list_push (thread_ready_list s) (general_tag t) s)"

lemma thread_unblock_eq:
  assumes "sched_ok T rs s" "t \<in> T" "blocked_status (status (tasks s t))"
  shows "thread_unblock t s = Some (woken t s)"
proof -
  obtain old e where e: "intr_disable s = (old, s\<lparr>eflags := e\<rparr>)" using intr_disable_eq by blast
  have "t \<notin> set rs" using assms blocked_not_ready sched_okD(6) by metis
  then have f: "elem_find (thread_ready_list s) (general_tag t) (s\<lparr>eflags := e\<rparr>) = Some False"
    using sched_ok_find [OF assms(1,2), of "s\<lparr>eflags := e\<rparr>"] by simp
  let ?s = "set_status t TASK_READY (list_push (thread_ready_list s) (general_tag t) (s\<lparr>eflags := e\<rparr>))"
  have "eflags ?s = eflags (s\<lparr>eflags := e\<rparr>)" by simp
  from intr_bracket [OF e this] have "snd (intr_set_status old ?s) = ?s\<lparr>eflags := eflags s\<rparr>" by simp
  also have "\<dots> = woken t s"
    by (simp add: woken_def list_push_def list_insert_before_eq set_status_def upd_task_def)
  finally show ?thesis
    using assms(3) blocked_not_ready [OF assms(3)] f e by (simp add: thread_unblock_def Let_def)
qed

lemma woken_sel [simp]:
  "tasks (woken t s) = (tasks s)(t := (tasks s t)\<lparr>status := TASK_READY\<rparr>)" "esp (woken t s) = esp s"
  "eflags (woken t s) = eflags s" "cr3 (woken t s) = cr3 s" "ptab (woken t s) = ptab s" "mem (woken t s) = mem s"
  "semas (woken t s) = semas s" "locks (woken t s) = locks s"
  "thread_ready_list (woken t s) = thread_ready_list s" "idle_thread (woken t s) = idle_thread s"
  by (simp_all add: woken_def list_push_def list_insert_before_eq)

lemma woken_ok:
  assumes "sched_ok T rs s" "t \<in> T" "blocked_status (status (tasks s t))"
  shows "sched_ok T (t # rs) (woken t s)"
proof -
  have nr: "t \<notin> set rs" using assms blocked_not_ready sched_okD(6) by metis
  have "dlist (elems (woken t s)) (thread_ready_list s) (general_tag t # map general_tag rs)"
    using list_push_dlist [OF sched_okD(1) sched_okD(11)] assms nr by (simp add: woken_def)
  moreover have "running_thread (woken t s) = running_thread s" by (simp add: running_thread_def)
  moreover have "dirs_ok T (woken t s) \<longleftrightarrow> dirs_ok T s" by (rule dirs_ok_cong) simp_all
  ultimately show ?thesis using assms by (auto simp: sched_ok_def)
qed

text \<open>Requeueing the running thread when its time slice ends.\<close>

definition requeued :: "'a tsys_scheme \<Rightarrow> 'a tsys_scheme" where
  "requeued s = upd_task (running_thread s) (\<lambda>p. p\<lparr>ticks := priority p, status := TASK_READY\<rparr>)
     (list_append (thread_ready_list s) (general_tag (running_thread s)) s)"

lemma requeued_sel [simp]:
  "tasks (requeued s) = (tasks s)(running_thread s :=
     (tasks s (running_thread s))\<lparr>ticks := priority (tasks s (running_thread s)), status := TASK_READY\<rparr>)"
  "esp (requeued s) = esp s" "eflags (requeued s) = eflags s" "cr3 (requeued s) = cr3 s"
  "ptab (requeued s) = ptab s" "mem (requeued s) = mem s" "semas (requeued s) = semas s" "locks (requeued s) = locks s"
  "thread_ready_list (requeued s) = thread_ready_list s" "idle_thread (requeued s) = idle_thread s"
  "elems (requeued s) = elems (list_append (thread_ready_list s) (general_tag (running_thread s)) s)"
  by (simp_all add: requeued_def list_append_def list_insert_before_eq)

lemma append_ok:
  assumes "sched_ok T rs s" "running_thread s \<notin> set rs"
    and "elems s' = elems (list_append (thread_ready_list s) (general_tag (running_thread s)) s)"
      "tasks s' = (tasks s)(running_thread s := p)" "status p = TASK_READY" "pgdir p = pgdir (tasks s (running_thread s))"
      "esp s' = esp s" "cr3 s' = cr3 s" "ptab s' = ptab s" "thread_ready_list s' = thread_ready_list s" "idle_thread s' = idle_thread s"
  shows "sched_ok T (rs @ [running_thread s]) s'"
proof -
  have "dlist (elems s') (thread_ready_list s) (map general_tag rs @ [general_tag (running_thread s)])"
    unfolding assms(3) using assms(1,2) by (intro list_append_dlist sched_okD(1) sched_okD(11)) (auto dest: sched_okD)
  moreover have "running_thread s' = running_thread s" using assms(7) by (rule running_thread_cong)
  moreover have "dirs_ok T s' \<longleftrightarrow> dirs_ok T s" by (rule dirs_ok_cong) (use assms in simp_all)
  ultimately show ?thesis using assms by (auto simp: sched_ok_def)
qed

lemma requeued_ok:
  assumes "sched_ok T rs s" "running_thread s \<notin> set rs"
  shows "sched_ok T (rs @ [running_thread s]) (requeued s)"
  by (rule append_ok [OF assms, where p = "(tasks s (running_thread s))
      \<lparr>ticks := priority (tasks s (running_thread s)), status := TASK_READY\<rparr>"]) simp_all

text \<open>Dispatching the head of a non-empty ready queue.\<close>

definition dispatched :: "'a tsys_scheme \<Rightarrow> 'a tsys_scheme option" where
  "dispatched s = do {
     let (thread_tag, s') = list_pop (thread_ready_list s) s;
     let nxt = tag2task thread_tag;
     s' \<leftarrow> process_activate nxt (set_status nxt TASK_RUNNING s');
     Some (switch_to (running_thread s) nxt s') }"

lemma switch_to_sel [simp]:
  "elems (switch_to c n s) = elems s" "eflags (switch_to c n s) = eflags s"
  "cr3 (switch_to c n s) = cr3 s" "ptab (switch_to c n s) = ptab s" "semas (switch_to c n s) = semas s"
  "locks (switch_to c n s) = locks s" "thread_ready_list (switch_to c n s) = thread_ready_list s"
  "idle_thread (switch_to c n s) = idle_thread s"
  "tasks (switch_to c n s) = (tasks s)(c := (tasks s c)\<lparr>self_kstack := esp s - 28\<rparr>)"
  "esp (switch_to c n s) = self_kstack (((tasks s)(c := (tasks s c)\<lparr>self_kstack := esp s - 28\<rparr>)) n) + 20"
  by (simp_all add: switch_to_def Let_def)

lemma dispatched_ok:
  assumes "sched_ok T (n # rs) s" "stack_room s" "status (tasks s (running_thread s)) \<noteq> TASK_RUNNING"
  shows "\<exists>s'. dispatched s = Some s' \<and> sched_ok T rs s' \<and> running_thread s' = n \<and>
    status (tasks s' n) = TASK_RUNNING \<and> eflags s' = eflags s \<and> semas s' = semas s \<and> locks s' = locks s \<and>
    (\<forall>t. status (tasks s' t) = (if t = n then TASK_RUNNING else status (tasks s t))) \<and>
    elems s' = elems (snd (list_pop (thread_ready_list s) s)) \<and>
    thread_ready_list s' = thread_ready_list s \<and> idle_thread s' = idle_thread s"
proof -
  let ?l = "thread_ready_list s" and ?cur = "running_thread s"
  note ok = sched_okD [OF assms(1)]
  obtain h where h: "list_pop ?l s = (general_tag n, s\<lparr>elems := h\<rparr>)" "dlist h ?l (map general_tag rs)"
    using list_pop_dlist [of s ?l "general_tag n" "map general_tag rs"] ok(1)
    by (simp add: list_pop_def Let_def list_remove_eq)
  have n: "n \<in> T" "n \<noteq> NULL" using ok(2,5) by auto
  let ?s1 = "set_status n TASK_RUNNING (s\<lparr>elems := h\<rparr>)"
  have "dirs_ok T ?s1" using ok(9) by (subst dirs_ok_cong [of _ s]) (simp_all add: set_status_def upd_task_def)
  then obtain c e where c: "process_activate n ?s1 = Some (?s1\<lparr>cr3 := c, esp0 := e\<rparr>)" "dirs_ok T (?s1\<lparr>cr3 := c, esp0 := e\<rparr>)"
    using process_activate_ok n by blast
  let ?s2 = "switch_to ?cur n (?s1\<lparr>cr3 := c, esp0 := e\<rparr>)"
  have d: "dispatched s = Some ?s2" using h(1) c(1) by (simp add: dispatched_def)
  have save: "kstack_ok ?cur (esp s - 28)" using assms(2) by (rule stack_room_save)
  have run: "running_thread ?s2 = n"
    using ok(8) [OF n(1)] save by (auto simp: running_thread_frame kstack_ok_running)
  have dirs: "dirs_ok T ?s2" using c(2) by (subst dirs_ok_cong [of _ "?s1\<lparr>cr3 := c, esp0 := e\<rparr>"]) simp_all
  have st: "status (tasks ?s2 t) = (if t = n then TASK_RUNNING else status (tasks s t))" for t by simp
  have ks: "self_kstack (tasks ?s2 t) = (if t = ?cur then esp s - 28 else self_kstack (tasks s t))" for t by simp
  have nrs: "n \<notin> set rs" using ok(10) by simp
  have "sched_ok T rs ?s2"
    unfolding sched_ok_def run
  proof (intro conjI ballI impI)
    fix t assume t: "t \<in> T"
    show "(status (tasks ?s2 t) = TASK_READY) = (t \<in> set rs)" unfolding st using ok(6) [OF t] nrs by auto
    show "t = n" if "status (tasks ?s2 t) = TASK_RUNNING" using that ok(7) [OF t] assms(3) unfolding st by (metis (full_types))
    show "kstack_ok t (self_kstack (tasks ?s2 t))" if "t \<noteq> n" unfolding ks using save ok(8) [OF t] by simp
    show "general_tag t \<noteq> thread_ready_list ?s2" "general_tag t \<noteq> tail_of (thread_ready_list ?s2)"
      using assms(1) t by (simp_all add: sched_ok_def)
  qed (use ok n h(2) dirs in \<open>simp_all add: sched_ok_def\<close>)
  then show ?thesis using d run h(1) by (intro exI [of _ ?s2]) simp
qed

lemma esp_unblock: "thread_unblock t s = Some s' \<Longrightarrow> esp s' = esp s"
  by (auto simp: thread_unblock_def Let_def intr_disable_def intr_set_status_def intr_enable_def
      list_push_def list_insert_before_eq case_prod_unfold split: if_splits intr_status.splits Option.bind_splits)

lemma schedule_eq:
  assumes "sched_ok T rs s" "intr_get_status s = INTR_OFF"
    and "s1 = (if status (tasks s (running_thread s)) = TASK_RUNNING then requeued s else s)"
    and "list_empty (thread_ready_list s1) s1 \<Longrightarrow> thread_unblock (idle_thread s1) s1 = Some s2"
    and "\<not> list_empty (thread_ready_list s1) s1 \<Longrightarrow> s2 = s1"
  shows "schedule s = dispatched s2"
proof -
  have f: "status (tasks s (running_thread s)) = TASK_RUNNING \<Longrightarrow>
      elem_find (thread_ready_list s) (general_tag (running_thread s)) s = Some False"
    using sched_ok_find [OF assms(1) sched_okD(3) [OF assms(1)], of s]
      sched_okD(6) [OF assms(1) sched_okD(3) [OF assms(1)]] by auto
  have q: "set_status (running_thread s) TASK_READY (upd_task (running_thread s) (\<lambda>p. p\<lparr>ticks := priority p\<rparr>)
      (list_append (thread_ready_list s) (general_tag (running_thread s)) s)) = requeued s"
    by (simp add: requeued_def set_status_def upd_task_def)
  have s1: "(if status (tasks s (running_thread s)) = TASK_RUNNING then do {
              found \<leftarrow> elem_find (thread_ready_list s) (general_tag (running_thread s)) s;
              ASSERT (\<not> found);
              let s' = list_append (thread_ready_list s) (general_tag (running_thread s)) s;
              let s' = upd_task (running_thread s) (\<lambda>p. p\<lparr>ticks := priority p\<rparr>) s';
              Some (set_status (running_thread s) TASK_READY s') }
            else Some s) = Some s1"
    using f assms(3) q by simp
  have s2: "(if list_empty (thread_ready_list s1) s1 then thread_unblock (idle_thread s1) s1 else Some s1) = Some s2"
    using assms(4,5) by simp
  have "running_thread s2 = running_thread s"
    using s2 esp_unblock [of "idle_thread s1" s1 s2] assms(3) by (auto simp: running_thread_def split: if_splits)
  then show ?thesis
    using assms(2) s2 unfolding schedule_def dispatched_def Let_def s1 [unfolded Let_def] by (simp add: case_prod_unfold)
qed

text \<open>The queue the scheduler pops from: the running thread appended if it is merely preempted, the idle
  thread if there is nobody else.\<close>

definition candidates :: "addr list \<Rightarrow> 'a tsys_scheme \<Rightarrow> addr list" where
  "candidates rs s =
     (let rs1 = (if status (tasks s (running_thread s)) = TASK_RUNNING then rs @ [running_thread s] else rs)
      in if rs1 = [] then [idle_thread s] else rs1)"

definition idle_ready :: "addr list \<Rightarrow> 'a tsys_scheme \<Rightarrow> bool" where
  "idle_ready rs s \<longleftrightarrow> (rs = [] \<and> status (tasks s (running_thread s)) \<noteq> TASK_RUNNING \<longrightarrow>
     blocked_status (status (tasks s (idle_thread s))))"

text \<open>What a transition leaves alone: the flags, semaphores and locks, and every list apart from the ready list.\<close>

definition keeps :: "addr set \<Rightarrow> 'a tsys_scheme \<Rightarrow> 'a tsys_scheme \<Rightarrow> bool" where
  "keeps A s s' \<longleftrightarrow> eflags s' = eflags s \<and> semas s' = semas s \<and> locks s' = locks s \<and>
     thread_ready_list s' = thread_ready_list s \<and> idle_thread s' = idle_thread s \<and>
     (\<forall>m zs. dlist (elems s) m zs \<and> set (cells m zs) \<inter> A = {} \<longrightarrow> dlist (elems s') m zs)"

lemma keeps_refl: "keeps A s s"
  by (simp add: keeps_def)

lemma keeps_trans: "keeps A s s1 \<Longrightarrow> keeps B s1 s2 \<Longrightarrow> A \<subseteq> C \<Longrightarrow> B \<subseteq> C \<Longrightarrow> keeps C s s2"
  unfolding keeps_def by (metis inf_mono subset_empty subset_refl)

lemma woken_keeps:
  assumes "sched_ok T rs s"
  shows "keeps (insert (general_tag t) (set (cells (thread_ready_list s) (map general_tag rs)))) s (woken t s)"
  using list_push_other [OF sched_okD(1) [OF assms]] by (auto simp: keeps_def) (auto simp: woken_def)

lemma requeued_keeps:
  assumes "sched_ok T rs s"
  shows "keeps (insert (general_tag (running_thread s)) (set (cells (thread_ready_list s) (map general_tag rs)))) s (requeued s)"
  using list_append_other [OF sched_okD(1) [OF assms]] by (auto simp: keeps_def)

lemma popped_keeps:
  assumes "sched_ok T (n # rs) s" "elems s' = elems (snd (list_pop (thread_ready_list s) s))" "eflags s' = eflags s"
    "semas s' = semas s" "locks s' = locks s" "thread_ready_list s' = thread_ready_list s" "idle_thread s' = idle_thread s"
  shows "keeps (set (cells (thread_ready_list s) (map general_tag (n # rs)))) s s'"
  using list_pop_other [of s "thread_ready_list s" "general_tag n" "map general_tag rs"] sched_okD(1) [OF assms(1)] assms(2-)
  by (simp add: keeps_def)

lemma set_cells: "set (cells l xs) = insert l (insert (tail_of l) (set xs))"
  by (auto simp: cells_def)

lemma schedule_spec:
  assumes "sched_ok T rs s" "intr_get_status s = INTR_OFF" "stack_room s" "idle_ready rs s" "candidates rs s = n # q"
  shows "\<exists>s'. schedule s = Some s' \<and> sched_ok T q s' \<and> running_thread s' = n \<and> status (tasks s' n) = TASK_RUNNING \<and>
    keeps (set (cells (thread_ready_list s) (map general_tag (n # q)))) s s' \<and>
    (\<forall>t. t \<noteq> n \<longrightarrow> status (tasks s' t) =
       (if t = running_thread s \<and> status (tasks s t) = TASK_RUNNING then TASK_READY else status (tasks s t)))"
proof -
  let ?cur = "running_thread s" and ?l = "thread_ready_list s" and ?run = "status (tasks s (running_thread s)) = TASK_RUNNING"
  let ?A = "set (cells ?l (map general_tag (n # q)))"
  note ok = sched_okD [OF assms(1)]
  define s1 where "s1 = (if ?run then requeued s else s)"
  define rs1 where "rs1 = (if ?run then rs @ [?cur] else rs)"
  have cur: "?run \<Longrightarrow> ?cur \<notin> set rs" using ok(6) [OF ok(3)] by auto
  have ok1: "sched_ok T rs1 s1" using requeued_ok [OF assms(1) cur] assms(1) by (simp add: s1_def rs1_def)
  have st1: "status (tasks s1 ?cur) \<noteq> TASK_RUNNING" by (simp add: s1_def)
  have sel1: "thread_ready_list s1 = ?l" "idle_thread s1 = idle_thread s" "esp s1 = esp s" by (simp_all add: s1_def)
  have empty: "list_empty (thread_ready_list s1) s1 \<longleftrightarrow> rs1 = []" using list_empty_dlist [OF sched_okD(1) [OF ok1]] by simp
  define s2 where "s2 = (if rs1 = [] then woken (idle_thread s1) s1 else s1)"
  have nq: "n # q = (if rs1 = [] then [idle_thread s] else rs1)" using assms(5) unfolding candidates_def rs1_def Let_def by (rule sym)
  have wake: "thread_unblock (idle_thread s1) s1 = Some (woken (idle_thread s1) s1)" "sched_ok T [idle_thread s1] (woken (idle_thread s1) s1)"
    if "rs1 = []"
  proof -
    have b: "blocked_status (status (tasks s1 (idle_thread s1)))"
      using that assms(4) by (auto simp: s1_def rs1_def idle_ready_def split: if_splits)
    show "thread_unblock (idle_thread s1) s1 = Some (woken (idle_thread s1) s1)"
      by (rule thread_unblock_eq [OF ok1 sched_okD(4) [OF ok1] b])
    show "sched_ok T [idle_thread s1] (woken (idle_thread s1) s1)"
      using woken_ok [OF ok1 sched_okD(4) [OF ok1] b] that by simp
  qed
  have ok2: "sched_ok T (n # q) s2" using wake(2) ok1 nq sel1 by (simp add: s2_def)
  have sel2: "running_thread s2 = ?cur" "thread_ready_list s2 = ?l" by (simp_all add: s2_def sel1 running_thread_def)
  have nrun: "status (tasks s2 ?cur) \<noteq> TASK_RUNNING" using st1 by (simp add: s2_def)
  have room: "stack_room s2" using assms(3) sel1(3) by (simp add: s2_def stack_room_def)
  obtain s' where s': "dispatched s2 = Some s'" "sched_ok T q s'" "running_thread s' = n"
    "\<forall>t. status (tasks s' t) = (if t = n then TASK_RUNNING else status (tasks s2 t))"
    "eflags s' = eflags s2" "semas s' = semas s2" "locks s' = locks s2" "elems s' = elems (snd (list_pop (thread_ready_list s2) s2))"
    "thread_ready_list s' = thread_ready_list s2" "idle_thread s' = idle_thread s2"
    using dispatched_ok [OF ok2 room] nrun sel2 by auto
  have "schedule s = dispatched s2"
    using wake(1) empty by (intro schedule_eq [OF assms(1,2) s1_def]) (simp_all add: s2_def)
  moreover have "keeps ?A s1 s2"
    using keeps_refl woken_keeps [OF ok1, of "idle_thread s1"] nq by (auto simp: s2_def set_cells sel1 insert_commute split: if_splits)
  moreover have "keeps ?A s s1"
    using keeps_refl requeued_keeps [OF assms(1)] nq by (auto simp: s1_def rs1_def set_cells insert_commute split: if_splits)
  moreover have "keeps ?A s2 s'" using popped_keeps [OF ok2 s'(8,5,6,7,9,10)] sel2 by simp
  moreover have "status (tasks s2 t) = (if t = ?cur \<and> status (tasks s t) = TASK_RUNNING then TASK_READY else status (tasks s t))"
    if "t \<noteq> n" for t
    using that nq by (auto simp: s2_def s1_def sel1 split: if_splits)
  ultimately show ?thesis using s' keeps_trans [of ?A s s1 ?A s2 ?A] keeps_trans [of ?A s s2 ?A s' ?A] by auto
qed

section \<open>Stacks\<close>

text \<open>What \<open>switch_to\<close> leaves on the stack of the thread it suspends.\<close>

lemma switch_to_saves:
  "let m = mem (switch_to cur nxt s); k = esp s - 28
   in ld32 m k = ebp (ctx s) \<and> ld32 m (k + 4) = ebx (ctx s) \<and> ld32 m (k + 8) = edi (ctx s) \<and>
      ld32 m (k + 12) = esi (ctx s) \<and> ld32 m (k + 16) = eip (ctx s)"
  by (simp add: switch_to_def Let_def ld32_st32_other)

text \<open>Words in different pages do not overlap.\<close>

lemma pages_apart:
  assumes "frame x \<noteq> frame y" "unat (y AND 0xfff) + 3 < 4096"
  shows "3 < x - y"
proof (rule ccontr)
  assume "\<not> 3 < x - y"
  then have le: "unat (x - y) \<le> 3" by (simp add: word_less_nat_alt)
  have "frame (y + of_nat (unat (x - y))) = frame y" using assms(2) le by (intro frame_shift) simp
  then show False using assms(1) by simp
qed

lemma stack_word:
  assumes "stack_room s" "4 \<le> n" "n \<le> 28"
  shows "frame (esp s - of_nat n) = running_thread s" "unat ((esp s - of_nat n) AND 0xfff) + 3 < 4096"
  using frame_unshift [of n "esp s"] offset_less [of "esp s"] assms
  by (simp_all add: stack_room_def running_thread_frame word_less_nat_alt)

lemma frame_word:
  assumes "unat (k AND 0xfff) + n + 3 < 4096"
  shows "frame (k + of_nat n) = frame k" "unat ((k + of_nat n) AND 0xfff) + 3 < 4096"
proof -
  have o: "unat (k AND 0xfff) + n < 4096" using assms by simp
  then show "frame (k + of_nat n) = frame k" by (rule frame_shift)
  have "k + of_nat n = frame k + ((k AND 0xfff) + of_nat n)" using frame_split [of k] by (metis add.assoc)
  moreover have u: "unat ((k AND 0xfff) + of_nat n) = unat (k AND 0xfff) + n"
    using o by (subst unat_add_lt) (simp_all add: unat_of_nat_lt)
  then have "(k AND 0xfff) + of_nat n < 4096" using o by (simp add: word_less_nat_alt)
  ultimately have "(k + of_nat n) AND 0xfff = (k AND 0xfff) + of_nat n" by (metis frame_plus(2))
  then show "unat ((k + of_nat n) AND 0xfff) + 3 < 4096" using u assms by simp
qed

text \<open>Pushing on one stack leaves the words of another stack page.\<close>

lemma switch_to_other_frame:
  assumes "stack_room s" "frame k \<noteq> running_thread s" "unat (k AND 0xfff) + n + 3 < 4096"
  shows "ld32 (mem (switch_to cur nxt s)) (k + of_nat n) = ld32 (mem s) (k + of_nat n)"
proof -
  have "3 < k + of_nat n - (esp s - of_nat j)" "3 < esp s - of_nat j - (k + of_nat n)" if "4 \<le> j" "j \<le> 28" for j
    using stack_word [OF assms(1) that] frame_word [OF assms(3)] assms(2) by (intro pages_apart; simp)+
  from this [of 4] this [of 8] this [of 12] this [of 16] this [of 20] this [of 24] this [of 28]
  show ?thesis by (simp add: switch_to_def Let_def ld32_st32_other)
qed

lemma switch_to_loads:
  assumes "stack_room s" "frame k \<noteq> running_thread s" "unat (k AND 0xfff) + 20 < 4096" "nxt \<noteq> cur" "self_kstack (tasks s nxt) = k"
  shows "ctx (switch_to cur nxt s) = \<lparr>ebp = ld32 (mem s) k, ebx = ld32 (mem s) (k + 4), edi = ld32 (mem s) (k + 8),
    esi = ld32 (mem s) (k + 12), eip = ld32 (mem s) (k + 16)\<rparr>"
proof -
  note w = switch_to_other_frame [OF assms(1,2), of _ cur nxt]
  have "ctx (switch_to cur nxt s) = (let m = mem (switch_to cur nxt s)
     in \<lparr>ebp = ld32 m k, ebx = ld32 m (k + 4), edi = ld32 m (k + 8), esi = ld32 m (k + 12), eip = ld32 m (k + 16)\<rparr>)"
    using assms(4,5) by (simp add: switch_to_def Let_def)
  then show ?thesis using w [of 0] w [of 4] w [of 8] w [of 12] w [of 16] assms(3) by simp
qed

section \<open>Waking, yielding and the time slice\<close>

lemma sched_ok_cong:
  assumes "elems s' = elems s" "thread_ready_list s' = thread_ready_list s" "idle_thread s' = idle_thread s" "esp s' = esp s"
    "cr3 s' = cr3 s" "ptab s' = ptab s"
    "\<And>t. status (tasks s' t) = status (tasks s t) \<and> pgdir (tasks s' t) = pgdir (tasks s t) \<and> self_kstack (tasks s' t) = self_kstack (tasks s t)"
  shows "sched_ok T rs s' \<longleftrightarrow> sched_ok T rs s"
proof -
  have "dirs_ok T s' \<longleftrightarrow> dirs_ok T s" by (rule dirs_ok_cong) (use assms in simp_all)
  moreover have "running_thread s' = running_thread s" using assms(4) by (rule running_thread_cong)
  ultimately show ?thesis using assms by (simp add: sched_ok_def)
qed

lemma yield_enqueue_ok:
  assumes "sched_ok T rs s" "status (tasks s (running_thread s)) = TASK_RUNNING"
  shows "\<exists>s'. yield_enqueue s = Some s' \<and> sched_ok T (rs @ [running_thread s]) s' \<and> status (tasks s' (running_thread s)) = TASK_READY
    \<and> esp s' = esp s \<and> eflags s' = eflags s"
proof -
  let ?cur = "running_thread s"
  let ?s = "set_status ?cur TASK_READY (list_append (thread_ready_list s) (general_tag ?cur) s)"
  have n: "?cur \<notin> set rs" using sched_okD(6) [OF assms(1) sched_okD(3) [OF assms(1)]] assms(2) by simp
  have "yield_enqueue s = Some ?s"
    using sched_ok_find [OF assms(1) sched_okD(3) [OF assms(1)], of s] n by (simp add: yield_enqueue_def Let_def)
  moreover have "sched_ok T (rs @ [?cur]) ?s"
    by (rule append_ok [OF assms(1) n, where p = "(tasks s ?cur)\<lparr>status := TASK_READY\<rparr>"])
      (simp_all add: list_append_def list_insert_before_eq)
  ultimately show ?thesis by (intro exI [of _ ?s]) simp
qed

section \<open>Claims\<close>

text \<open>
  C3. The scheduler. In every state that satisfies the invariant, with interrupts off and room on the stack, \<open>schedule\<close> returns (no
  assertion fails) and dispatches the first thread of the ready queue, where a thread that is merely preempted
  counts as the last of the queue and the idle thread is taken when nobody else is ready. The rest of the queue
  keeps its order, the dispatched thread is the only running one, the invariant holds again, and no other list,
  semaphore or lock has changed.
\<close>

theorem schedule_dispatches:
  assumes "sched_ok T rs s" "intr_get_status s = INTR_OFF" "stack_room s" "idle_ready rs s" "candidates rs s = n # q"
  shows "\<exists>s'. schedule s = Some s' \<and> running_thread s' = n \<and> status (tasks s' n) = TASK_RUNNING \<and> sched_ok T q s' \<and>
    keeps (set (cells (thread_ready_list s) (map general_tag (n # q)))) s s'"
  using schedule_spec [OF assms] by blast

text \<open>Two kernel threads: the one with its block at \<open>0xc009e000\<close> runs, the other is ready.\<close>

definition two_threads :: tsys where
  "two_threads =
     (let t = \<lparr>self_kstack = 0, pid = 1, status = TASK_RUNNING, priority = 31, ticks = 0, elapsed_ticks = 0, pgdir = 0,
               userprog_vaddr = \<lparr>vaddr_bitmap = \<lparr>btmp_bytes_len = 0, bits = 0\<rparr>, vaddr_start = 0\<rparr>,
               fd_table = [], cwd_inode_nr = 0, stack_magic = 0x19870916\<rparr>;
          s = \<lparr>eflags = 2, esp = 0xc009ef00, mem = (\<lambda>_. 0), elems = (\<lambda>_. \<lparr>lprev = 0, lnext = 0\<rparr>), cr3 = 0x100000,
               ptab = (\<lambda>_. 0), tasks = (\<lambda>_. t)(0xc0100000 := t\<lparr>status := TASK_READY, self_kstack := 0xc0100e50\<rparr>),
               semas = (\<lambda>_. \<lparr>svalue = 0\<rparr>), locks = (\<lambda>_. \<lparr>holder = 0, holder_repeat_nr = 0\<rparr>),
               descs = (\<lambda>_. \<lparr>block_size = 0, blocks_per_arena = 0\<rparr>),
               ctx = \<lparr>ebp = 1, ebx = 2, edi = 3, esi = 4, eip = 0xc0001500\<rparr>, thread_ready_list = 0xc0005000,
               thread_all_list = 0xc0005100, main_thread = 0xc009e000, idle_thread = 0xc0100000, pid_lock = 0xc0005200,
               next_pid = 2, esp0 = 0, timer_ticks = 0\<rparr>
      in list_append 0xc0005000 0xc0100024 (list_init 0xc0005000 s))"

lemma two_threads_ok:
  "sched_ok {0xc009e000, 0xc0100000} [0xc0100000] two_threads" "stack_room two_threads"
  "intr_get_status two_threads = INTR_OFF" "running_thread two_threads = 0xc009e000"
proof -
  have s: "thread_ready_list two_threads = 0xc0005000" "idle_thread two_threads = 0xc0100000" "running_thread two_threads = 0xc009e000"
    "status (tasks two_threads 0xc009e000) = TASK_RUNNING" "status (tasks two_threads 0xc0100000) = TASK_READY"
    "kstack_ok 0xc0100000 (self_kstack (tasks two_threads 0xc0100000))" "pgdir (tasks two_threads 0xc009e000) = NULL"
    "pgdir (tasks two_threads 0xc0100000) = NULL" "cr3 two_threads = 0x100000"
    by code_simp+
  have d: "dlist (elems two_threads) (thread_ready_list two_threads) (map general_tag [0xc0100000])" by code_simp
  show "sched_ok {0xc009e000, 0xc0100000} [0xc0100000] two_threads"
    using d unfolding sched_ok_def
    by (simp add: s dirs_ok_def general_tag_def tail_of_def) (rule exI [of _ "{0x100000}"], simp)
  show "stack_room two_threads" "intr_get_status two_threads = INTR_OFF" "running_thread two_threads = 0xc009e000"
    by code_simp+
qed

theorem schedule_dispatches_witness:
  "\<exists>s'. schedule two_threads = Some s' \<and> running_thread s' = 0xc0100000 \<and> sched_ok {0xc009e000, 0xc0100000} [0xc009e000] s'"
proof -
  have "idle_ready [0xc0100000] two_threads" by (simp add: idle_ready_def)
  moreover have "candidates [0xc0100000] two_threads = [0xc0100000, 0xc009e000]" by code_simp
  ultimately show ?thesis using schedule_dispatches [OF two_threads_ok(1,3,2)] by blast
qed



text \<open>
  C31. A new thread starts in \<open>kernel_thread\<close> with its function and argument. After \<open>thread_create\<close> on a block whose kernel stack is empty, the first
  switch to it continues at \<open>kernel_thread\<close> with the saved registers zero, on the new thread's own stack, and finds the two arguments where a C
  function expects them, above the place of a return address.
\<close>

theorem thread_create_entry:
  assumes "stack_room s" "self_kstack (tasks s t) = t + 4096" "frame t = t" "t \<noteq> running_thread s"
  shows "let s2 = switch_to (running_thread s) t (thread_create kthread t func arg s)
    in running_thread s2 = t \<and> ctx s2 = \<lparr>ebp = 0, ebx = 0, edi = 0, esi = 0, eip = kthread\<rparr> \<and>
       ld32 (mem s2) (esp s2 + 4) = func \<and> ld32 (mem s2) (esp s2 + 8) = arg"
proof -
  let ?s1 = "thread_create kthread t func arg s" and ?k = "t + 3664"
  let ?s2 = "switch_to (running_thread s) t ?s1"
  have k: "frame ?k = t" "?k AND 0xfff = 3664" using frame_plus [of 3664 t] assms(3) by simp_all
  have ks: "self_kstack (tasks ?s1 t) = ?k" using assms(2) by (simp add: thread_create_def Let_def)
  have esp: "esp ?s1 = esp s" by (simp add: thread_create_def Let_def)
  then have r: "stack_room ?s1" "running_thread ?s1 = running_thread s" using assms(1) by (simp_all add: stack_room_def running_thread_def)
  have w: "ld32 (mem ?s1) ?k = 0" "ld32 (mem ?s1) (?k + 4) = 0" "ld32 (mem ?s1) (?k + 8) = 0" "ld32 (mem ?s1) (?k + 12) = 0"
    "ld32 (mem ?s1) (?k + 16) = kthread" "ld32 (mem ?s1) (?k + 24) = func" "ld32 (mem ?s1) (?k + 28) = arg"
    using assms(2) by (simp_all add: thread_create_def Let_def ld32_st32_other add.commute [of t])
  have "ctx ?s2 = \<lparr>ebp = ld32 (mem ?s1) ?k, ebx = ld32 (mem ?s1) (?k + 4), edi = ld32 (mem ?s1) (?k + 8),
      esi = ld32 (mem ?s1) (?k + 12), eip = ld32 (mem ?s1) (?k + 16)\<rparr>"
    using assms(4) r ks k by (intro switch_to_loads) auto
  moreover have "esp ?s2 = ?k + 20" using assms(4) ks by simp
  moreover have "frame (?k + 20) = t" using k kstack_ok_running [of t ?k] by (simp add: kstack_ok_def)
  moreover have "ld32 (mem ?s2) (?k + of_nat n) = ld32 (mem ?s1) (?k + of_nat n)" if "n \<le> 28" for n
    using assms(4) r k that by (intro switch_to_other_frame) auto
  from this [of 24] this [of 28] have "ld32 (mem ?s2) (?k + 24) = func" "ld32 (mem ?s2) (?k + 28) = arg" using w by simp_all
  ultimately show ?thesis using w by (simp add: Let_def running_thread_frame add.assoc add.commute [of t])
qed

theorem thread_create_entry_witness:
  "let s = upd_task 0xc0200000 (\<lambda>p. p\<lparr>self_kstack := 0xc0200000 + 4096\<rparr>) two_threads;
       s2 = switch_to 0xc009e000 0xc0200000 (thread_create 0xc0001600 0xc0200000 0xc0001700 5 s)
   in eip (ctx s2) = 0xc0001600 \<and> ld32 (mem s2) (esp s2 + 4) = 0xc0001700"
proof -
  let ?s = "upd_task 0xc0200000 (\<lambda>p. p\<lparr>self_kstack := 0xc0200000 + 4096\<rparr>) two_threads"
  have "stack_room ?s" "self_kstack (tasks ?s 0xc0200000) = 0xc0200000 + 4096" "frame 0xc0200000 = 0xc0200000"
    "0xc0200000 \<noteq> running_thread ?s" "running_thread ?s = 0xc009e000" by code_simp+
  from thread_create_entry [OF this(1-4), of "0xc0001600" "0xc0001700" 5] this(5) show ?thesis by (simp add: Let_def)
qed

text \<open>
  C32. Waking. \<open>thread_unblock\<close> on a blocked thread returns, puts it at the head of the ready queue and restores the interrupt flag; on a thread
  that is not blocked it stops the kernel.
\<close>

theorem thread_unblock_head:
  assumes "sched_ok T rs s" "t \<in> T"
  shows "if blocked_status (status (tasks s t))
    then \<exists>s'. thread_unblock t s = Some s' \<and> sched_ok T (t # rs) s' \<and> status (tasks s' t) = TASK_READY \<and> eflags s' = eflags s
    else thread_unblock t s = None"
proof (cases "blocked_status (status (tasks s t))")
  case True
  then show ?thesis using thread_unblock_eq [OF assms True] woken_ok [OF assms True] by simp
next
  case False
  obtain old e where "intr_disable s = (old, s\<lparr>eflags := e\<rparr>)" using intr_disable_eq by blast
  then show ?thesis using False by (simp add: thread_unblock_def)
qed

theorem thread_unblock_head_witness:
  "thread_unblock 0xc0100000 two_threads = None"
proof -
  have "status (tasks two_threads 0xc0100000) = TASK_READY" by code_simp
  then show ?thesis using thread_unblock_head [OF two_threads_ok(1), of "0xc0100000"] by (simp add: blocked_status_def)
qed

text \<open>
  Yielding. \<open>thread_yield\<close> with another thread ready hands the processor to the head of the ready queue, with the caller at its tail;
  the call returns when the others let the caller run again, with the interrupt flag it was called with.
\<close>

theorem thread_yield_rotates:
  assumes "sched_ok T (n # q) s" "stack_room s" "status (tasks s (running_thread s)) = TASK_RUNNING"
  shows "\<exists>s1. running_thread s1 = n \<and> sched_ok T (q @ [running_thread s]) s1 \<and> intr_get_status s1 = INTR_OFF \<and>
    (\<forall>others. thread_yield others s = map_option (\<lambda>s2. snd (intr_set_status (intr_get_status s) s2)) (others (running_thread s) s1))"
proof -
  let ?cur = "running_thread s"
  obtain e where e: "intr_disable s = (intr_get_status s, s\<lparr>eflags := e\<rparr>)" "\<not> bit e 9"
    using intr_disable_eq [of s] by (auto simp: intr_disable_def split: if_splits) (metis intr_status.exhaust)
  let ?s = "s\<lparr>eflags := e\<rparr>"
  have cur: "running_thread ?s = ?cur" by (simp add: running_thread_def)
  have "sched_ok T (n # q) ?s" using assms(1) sched_ok_cong [of ?s s] by simp
  then obtain s0 where s0: "yield_enqueue ?s = Some s0" "sched_ok T ((n # q) @ [?cur]) s0" "status (tasks s0 ?cur) = TASK_READY"
    "esp s0 = esp s" "eflags s0 = e"
    using yield_enqueue_ok [of T "n # q" ?s] assms(3) cur by auto
  have r: "running_thread s0 = ?cur" using s0(4) by (rule running_thread_cong)
  have "intr_get_status s0 = INTR_OFF" "stack_room s0" using s0(4,5) e(2) assms(2) by (simp_all add: intr_get_status_off stack_room_def)
  moreover have "candidates ((n # q) @ [?cur]) s0 = n # (q @ [?cur])" "idle_ready ((n # q) @ [?cur]) s0"
    using s0(3) r by (simp_all add: candidates_def idle_ready_def)
  ultimately obtain s1 where s1: "schedule s0 = Some s1" "sched_ok T (q @ [?cur]) s1" "running_thread s1 = n" "eflags s1 = eflags s0"
    using schedule_spec [OF s0(2)] by (auto simp: keeps_def)
  have "n \<noteq> ?cur" using sched_okD(6) [OF assms(1) sched_okD(3) [OF assms(1)]] assms(3) by auto
  then have "thread_yield others s = map_option (\<lambda>s2. snd (intr_set_status (intr_get_status s) s2)) (others ?cur s1)" for others
    using e(1) s0(1) s1 by (cases "others ?cur s1") (simp_all add: thread_yield_def resume_def)
  moreover have "intr_get_status s1 = INTR_OFF" using s1(4) s0(5) e(2) by (simp add: intr_get_status_off)
  ultimately show ?thesis using s1 by blast
qed

theorem thread_yield_rotates_witness:
  "\<exists>s1 :: tsys. running_thread s1 = 0xc0100000 \<and> sched_ok {0xc009e000, 0xc0100000} [0xc009e000] s1 \<and>
    thread_yield (\<lambda>t s. if t = 0xc009e000 then None else Some s) two_threads = None"
proof -
  have "status (tasks two_threads (running_thread two_threads)) = TASK_RUNNING" by code_simp
  from thread_yield_rotates [OF two_threads_ok(1,2) this] two_threads_ok(4) show ?thesis by auto
qed

text \<open>
  The time slice. On a timer interrupt with ticks left the running thread goes on with one tick less. With none left it is put at the tail of the
  ready queue with a fresh slice of \<open>priority\<close> ticks and the head of the queue runs. An overwritten stack mark stops the kernel.
\<close>

theorem timer_slice:
  assumes "sched_ok T rs s" "stack_room s" "intr_get_status s = INTR_OFF" "status (tasks s (running_thread s)) = TASK_RUNNING"
  shows "let cur = running_thread s in
    if stack_magic (tasks s cur) \<noteq> 0x19870916 then intr_timer_handler s = None
    else if ticks (tasks s cur) = 0
    then \<exists>s'. intr_timer_handler s = Some s' \<and> running_thread s' = hd (rs @ [cur]) \<and> sched_ok T (tl (rs @ [cur])) s'
    else \<exists>s'. intr_timer_handler s = Some s' \<and> running_thread s' = cur \<and> sched_ok T rs s' \<and>
      ticks (tasks s' cur) = ticks (tasks s cur) - 1"
proof -
  let ?cur = "running_thread s"
  let ?s = "upd_task ?cur (\<lambda>p. p\<lparr>elapsed_ticks := elapsed_ticks p + 1\<rparr>) s\<lparr>timer_ticks := timer_ticks s + 1\<rparr>"
  have cur: "running_thread ?s = ?cur" by (simp add: running_thread_def)
  have ok: "sched_ok T rs ?s" using assms(1) by (subst sched_ok_cong [of _ s]) simp_all
  show ?thesis
  proof (cases "ticks (tasks s ?cur) = 0")
    case True
    have c: "candidates rs ?s = hd (rs @ [?cur]) # tl (rs @ [?cur])" "idle_ready rs ?s"
      using assms(4) cur by (auto simp: candidates_def idle_ready_def)
    have "intr_get_status ?s = INTR_OFF" "stack_room ?s" using assms(2,3) by (simp_all add: intr_get_status_off stack_room_def)
    from schedule_spec [OF ok this c(2,1)] True show ?thesis by (auto simp: intr_timer_handler_def Let_def)
  next
    case False
    have "sched_ok T rs (upd_task ?cur (\<lambda>p. p\<lparr>ticks := ticks p - 1\<rparr>) ?s)" using ok by (subst sched_ok_cong [of _ ?s]) simp_all
    moreover have "running_thread (upd_task ?cur (\<lambda>p. p\<lparr>ticks := ticks p - 1\<rparr>) ?s) = ?cur" by (simp add: running_thread_def)
    ultimately show ?thesis using False by (auto simp: intr_timer_handler_def Let_def)
  qed
qed

theorem timer_slice_witness:
  "\<exists>s'. intr_timer_handler two_threads = Some s' \<and> running_thread s' = 0xc0100000"
proof -
  have "status (tasks two_threads (running_thread two_threads)) = TASK_RUNNING"
    "stack_magic (tasks two_threads (running_thread two_threads)) = 0x19870916" "ticks (tasks two_threads (running_thread two_threads)) = 0"
    by code_simp+
  with timer_slice [OF two_threads_ok(1-3) this(1)] show ?thesis by (auto simp: Let_def)
qed

end
