(* ===== verification/Mutex.thy ===== *)
theory Mutex
  imports Prelude
begin

text \<open>
  The contract of a lock as the components use it that protect their data with one: process numbers, the heap, the console and the channels of the disk driver. When the lock is free, acquiring it
  gives the state \<open>held s\<close>; after a critical section that keeps the lock, releasing it succeeds and gives the state \<open>given_back s t\<close>, in which the lock is free again. The client lemma of
  the locale is about a whole critical section.
\<close>

definition with_lock :: "('s \<Rightarrow> 's option) \<Rightarrow> ('s \<Rightarrow> 's option) \<Rightarrow> ('s \<Rightarrow> ('r \<times> 's) option) \<Rightarrow> 's \<Rightarrow> ('r \<times> 's) option" where
  "with_lock acquire release body s = do {
     s \<leftarrow> acquire s;
     (r, s) \<leftarrow> body s;
     s \<leftarrow> release s;
     Some (r, s) }"

locale mutex =
  fixes unheld :: "'s \<Rightarrow> bool"
    and acquire :: "'s \<Rightarrow> 's option"
    and release :: "'s \<Rightarrow> 's option"
    and held :: "'s \<Rightarrow> 's"
    and kept :: "'s \<Rightarrow> 's \<Rightarrow> bool"
    and given_back :: "'s \<Rightarrow> 's \<Rightarrow> 's"
  assumes acquire_law: "unheld s \<Longrightarrow> acquire s = Some (held s)"
    and release_law: "unheld s \<Longrightarrow> kept (held s) t \<Longrightarrow> release t = Some (given_back s t)"
    and unheld_law: "unheld s \<Longrightarrow> kept (held s) t \<Longrightarrow> unheld (given_back s t)"
begin

lemma critical_section:
  assumes "unheld s" "body (held s) = Some (r, t)" "kept (held s) t"
  shows "with_lock acquire release body s = Some (r, given_back s t)" "unheld (given_back s t)"
  using assms by (simp_all add: with_lock_def acquire_law release_law unheld_law)

end

end
