(* ===== verification/Sync.thy ===== *)
theory Sync
  imports Thread Mutex
begin

text \<open>
  \<^verbatim>\<open>thread/sync.c\<close>: semaphores and re-entrant locks. The sequential operations take the parameter \<open>others\<close> of
  \<^verbatim>\<open>Thread\<close> for the time the caller is blocked. For the interleaving of many threads on one lock the same code
  is cut at the places where another thread can come in between (interrupts are off inside \<open>sema_down\<close> and \<open>sema_up\<close>, and the
  blocked thread tests the value again when it is dispatched): \<open>lock_step\<close> is the resulting step relation, with the
  place each thread has reached.

  The lemmas show mutual exclusion, that no assertion of \<^verbatim>\<open>sync.c\<close> or of the scheduler can fail along any
  interleaving, and that no waiter is forgotten.
\<close>

section \<open>The operations\<close>

definition waiters :: "addr \<Rightarrow> addr" where
  "waiters psema = psema + 4"

definition lock_sema :: "addr \<Rightarrow> addr" where
  "lock_sema plock = plock + 4"

definition set_value :: "addr \<Rightarrow> u8 \<Rightarrow> 'a tsys_scheme \<Rightarrow> 'a tsys_scheme" where
  "set_value psema v s = s\<lparr>semas := (semas s)(psema := (semas s psema)\<lparr>svalue := v\<rparr>)\<rparr>"

definition upd_lock :: "addr \<Rightarrow> (lock \<Rightarrow> lock) \<Rightarrow> 'a tsys_scheme \<Rightarrow> 'a tsys_scheme" where
  "upd_lock plock f s = s\<lparr>locks := (locks s)(plock := f (locks s plock))\<rparr>"

definition sema_init :: "addr \<Rightarrow> u8 \<Rightarrow> 'a tsys_scheme \<Rightarrow> 'a tsys_scheme" where
  "sema_init psema val s = list_init (waiters psema) (set_value psema val s)"

definition lock_init :: "addr \<Rightarrow> 'a tsys_scheme \<Rightarrow> 'a tsys_scheme" where
  "lock_init plock s =
     (let s = upd_lock plock (\<lambda>l. l\<lparr>holder := NULL\<rparr>) s;
          s = upd_lock plock (\<lambda>l. l\<lparr>holder_repeat_nr := 0\<rparr>) s
      in sema_init (lock_sema plock) 1 s)"

text \<open>The body of the loop of \<open>sema_down\<close> before the call of \<open>thread_block\<close>.\<close>

definition sema_enqueue :: "addr \<Rightarrow> 'a tsys_scheme \<Rightarrow> 'a tsys_scheme option" where
  "sema_enqueue psema s = do {
     found \<leftarrow> elem_find (waiters psema) (general_tag (running_thread s)) s;
     ASSERT (\<not> found);
     found \<leftarrow> elem_find (waiters psema) (general_tag (running_thread s)) s;
     ASSERT (\<not> found);
     Some (list_append (waiters psema) (general_tag (running_thread s)) s) }"

partial_function (option) sema_down_loop ::
    "(addr \<Rightarrow> 'a tsys_scheme \<Rightarrow> 'a tsys_scheme option) \<Rightarrow> addr \<Rightarrow> 'a tsys_scheme \<Rightarrow> 'a tsys_scheme option" where
  "sema_down_loop others psema s =
     (if svalue (semas s psema) = 0 then do {
        s \<leftarrow> sema_enqueue psema s;
        s \<leftarrow> thread_block others TASK_BLOCKED s;
        sema_down_loop others psema s }
      else Some s)"

text \<open>What follows the loop: the semaphore is taken.\<close>

definition sema_take :: "addr \<Rightarrow> 'a tsys_scheme \<Rightarrow> 'a tsys_scheme option" where
  "sema_take psema s = do {
     let s = set_value psema (svalue (semas s psema) - 1) s;
     ASSERT (svalue (semas s psema) = 0);
     Some s }"

definition sema_down ::
    "(addr \<Rightarrow> 'a tsys_scheme \<Rightarrow> 'a tsys_scheme option) \<Rightarrow> addr \<Rightarrow> 'a tsys_scheme \<Rightarrow> 'a tsys_scheme option" where
  "sema_down others psema s = do {
     let (old_status, s) = intr_disable s;
     s \<leftarrow> sema_down_loop others psema s;
     s \<leftarrow> sema_take psema s;
     Some (snd (intr_set_status old_status s)) }"

definition sema_up :: "addr \<Rightarrow> 'a tsys_scheme \<Rightarrow> 'a tsys_scheme option" where
  "sema_up psema s = do {
     let (old_status, s) = intr_disable s;
     ASSERT (svalue (semas s psema) = 0);
     s \<leftarrow> (if \<not> list_empty (waiters psema) s then do {
              let (elem, s) = list_pop (waiters psema) s;
              let thread_blocked = tag2task elem;
              thread_unblock thread_blocked s }
            else Some s);
     let s = set_value psema (svalue (semas s psema) + 1) s;
     ASSERT (svalue (semas s psema) = 1);
     Some (snd (intr_set_status old_status s)) }"

definition lock_own :: "addr \<Rightarrow> 'a tsys_scheme \<Rightarrow> 'a tsys_scheme option" where
  "lock_own plock s = do {
     let s = upd_lock plock (\<lambda>l. l\<lparr>holder := running_thread s\<rparr>) s;
     ASSERT (holder_repeat_nr (locks s plock) = 0);
     Some (upd_lock plock (\<lambda>l. l\<lparr>holder_repeat_nr := 1\<rparr>) s) }"

definition lock_again :: "addr \<Rightarrow> 'a tsys_scheme \<Rightarrow> 'a tsys_scheme" where
  "lock_again plock s = upd_lock plock (\<lambda>l. l\<lparr>holder_repeat_nr := holder_repeat_nr l + 1\<rparr>) s"

definition lock_acquire ::
    "(addr \<Rightarrow> 'a tsys_scheme \<Rightarrow> 'a tsys_scheme option) \<Rightarrow> addr \<Rightarrow> 'a tsys_scheme \<Rightarrow> 'a tsys_scheme option" where
  "lock_acquire others plock s =
     (if holder (locks s plock) \<noteq> running_thread s then do {
        s \<leftarrow> sema_down others (lock_sema plock) s;
        lock_own plock s }
      else Some (lock_again plock s))"

text \<open>\<open>lock_release\<close>: the owner gives up one level, and with the last one the semaphore.\<close>

definition lock_disown :: "addr \<Rightarrow> 'a tsys_scheme \<Rightarrow> (bool \<times> 'a tsys_scheme) option" where
  "lock_disown plock s = do {
     ASSERT (holder (locks s plock) = running_thread s);
     (if 1 < holder_repeat_nr (locks s plock)
      then Some (False, upd_lock plock (\<lambda>l. l\<lparr>holder_repeat_nr := holder_repeat_nr l - 1\<rparr>) s)
      else do {
        ASSERT (holder_repeat_nr (locks s plock) = 1);
        let s = upd_lock plock (\<lambda>l. l\<lparr>holder := NULL\<rparr>) s;
        let s = upd_lock plock (\<lambda>l. l\<lparr>holder_repeat_nr := 0\<rparr>) s;
        Some (True, s) }) }"

definition lock_release :: "addr \<Rightarrow> 'a tsys_scheme \<Rightarrow> 'a tsys_scheme option" where
  "lock_release plock s = do {
     (last, s) \<leftarrow> lock_disown plock s;
     (if last then sema_up (lock_sema plock) s else Some s) }"

section \<open>Interleaving on one lock\<close>

text \<open>
  Where a thread is with respect to the lock: outside; inside \<open>sema_down\<close>, about to test the value; with the semaphore taken but the holder
  not yet recorded; holding the lock; with the holder cleared but the semaphore not yet given back.
\<close>

datatype pc = Outside | Trying | Got | Inside | Leaving

text \<open>One test of the value that fails: the thread queues up and the scheduler switches to another thread.\<close>

definition sema_wait :: "addr \<Rightarrow> 'a tsys_scheme \<Rightarrow> 'a tsys_scheme option" where
  "sema_wait psema s = do {
     let (old_status, s) = intr_disable s;
     s \<leftarrow> sema_enqueue psema s;
     (old_status, s) \<leftarrow> block_begin TASK_BLOCKED s;
     Some s }"

inductive lock_step :: "addr \<Rightarrow> 'a tsys_scheme \<times> (addr \<Rightarrow> pc) \<Rightarrow> 'a tsys_scheme \<times> (addr \<Rightarrow> pc) \<Rightarrow> bool"
  for l :: addr where
  compute: "lock_step l (s, pc) (s\<lparr>esp := e, eflags := f\<rparr>, pc)" if "frame e = running_thread s"
| preempt: "lock_step l (s, pc) (s', pc)" if "stack_room s" "schedule (snd (intr_disable s)) = Some s'"
| idle_block: "lock_step l (s, pc) (s', pc)"
    if "stack_room s" "running_thread s = idle_thread s" "block_begin TASK_BLOCKED s = Some (old, s')"
| acquire: "lock_step l (s, pc) (s, pc(running_thread s := Trying))"
    if "running_thread s \<noteq> idle_thread s" "pc (running_thread s) = Outside" "holder (locks s l) \<noteq> running_thread s"
| wait: "lock_step l (s, pc) (s', pc)"
    if "pc (running_thread s) = Trying" "stack_room s" "svalue (semas s (lock_sema l)) = 0" "sema_wait (lock_sema l) s = Some s'"
| take: "lock_step l (s, pc) (s', pc(running_thread s := Got))"
    if "pc (running_thread s) = Trying" "svalue (semas s (lock_sema l)) \<noteq> 0" "sema_take (lock_sema l) s = Some s'"
| own: "lock_step l (s, pc) (s', pc(running_thread s := Inside))"
    if "pc (running_thread s) = Got" "lock_own l s = Some s'"
| again: "lock_step l (s, pc) (lock_again l s, pc)"
    if "pc (running_thread s) = Inside" "holder (locks s l) = running_thread s" "holder_repeat_nr (locks s l) < - 1"
| disown_one: "lock_step l (s, pc) (s', pc)"
    if "pc (running_thread s) = Inside" "lock_disown l s = Some (False, s')"
| disown_last: "lock_step l (s, pc) (s', pc(running_thread s := Leaving))"
    if "pc (running_thread s) = Inside" "lock_disown l s = Some (True, s')"
| up: "lock_step l (s, pc) (s', pc(running_thread s := Outside))"
    if "pc (running_thread s) = Leaving" "sema_up (lock_sema l) s = Some s'"

inductive_cases lock_stepE: "lock_step l (s, pc) c"

text \<open>The runs of the system from a given start.\<close>

inductive lock_reach :: "addr \<Rightarrow> 'a tsys_scheme \<times> (addr \<Rightarrow> pc) \<Rightarrow> 'a tsys_scheme \<times> (addr \<Rightarrow> pc) \<Rightarrow> bool"
  for l :: addr and c0 :: "'a tsys_scheme \<times> (addr \<Rightarrow> pc)" where
  start: "lock_reach l c0 c0"
| step: "lock_reach l c0 c2" if "lock_reach l c0 c1" "lock_step l c1 c2"

section \<open>The invariant\<close>

text \<open>Ready queue and wait queue are well linked and apart, and the waiting threads are blocked.\<close>

definition queues_ok :: "addr \<Rightarrow> addr set \<Rightarrow> addr list \<Rightarrow> addr list \<Rightarrow> 'a tsys_scheme \<Rightarrow> bool" where
  "queues_ok l T rs ws s \<longleftrightarrow>
     sched_ok T rs s \<and> dlist (elems s) (waiters (lock_sema l)) (map general_tag ws) \<and>
     {waiters (lock_sema l), tail_of (waiters (lock_sema l))} \<inter> {thread_ready_list s, tail_of (thread_ready_list s)} = {} \<and>
     (\<forall>t \<in> T. general_tag t \<noteq> waiters (lock_sema l) \<and> general_tag t \<noteq> tail_of (waiters (lock_sema l))) \<and>
     set ws \<subseteq> T \<and> idle_thread s \<notin> set ws \<and>
     (status (tasks s (idle_thread s)) = TASK_READY \<or> status (tasks s (idle_thread s)) = TASK_RUNNING \<or>
      blocked_status (status (tasks s (idle_thread s))))"

definition lists_ok :: "addr \<Rightarrow> addr set \<Rightarrow> addr list \<Rightarrow> addr list \<Rightarrow> 'a tsys_scheme \<Rightarrow> bool" where
  "lists_ok l T rs ws s \<longleftrightarrow> queues_ok l T rs ws s \<and> status (tasks s (running_thread s)) = TASK_RUNNING \<and>
     (\<forall>w \<in> set ws. status (tasks s w) = TASK_BLOCKED)"

text \<open>The semaphore is free and nobody owns it, or exactly one thread does; the lock fields say who.\<close>

definition owners :: "addr set \<Rightarrow> (addr \<Rightarrow> pc) \<Rightarrow> addr set" where
  "owners T pc = {t \<in> T. pc t = Got \<or> pc t = Inside \<or> pc t = Leaving}"

definition own_ok :: "addr set \<Rightarrow> addr \<Rightarrow> addr list \<Rightarrow> u8 \<Rightarrow> lock \<Rightarrow> (addr \<Rightarrow> pc) \<Rightarrow> bool" where
  "own_ok T idle ws v k pc \<longleftrightarrow>
     (v = 1 \<and> owners T pc = {} \<or> v = 0 \<and> (\<exists>t. owners T pc = {t})) \<and>
     (\<forall>t \<in> T. holder k = t \<longleftrightarrow> pc t = Inside) \<and> (holder k = NULL \<or> holder k \<in> T) \<and>
     (if holder k = NULL then holder_repeat_nr k = 0 else holder_repeat_nr k \<noteq> 0) \<and>
     pc idle = Outside \<and> (\<forall>w \<in> set ws. pc w = Trying) \<and>
     (v = 1 \<and> ws \<noteq> [] \<longrightarrow> (\<exists>t \<in> T. pc t = Trying \<and> t \<notin> set ws))"

definition lock_inv :: "addr \<Rightarrow> addr set \<Rightarrow> 'a tsys_scheme \<times> (addr \<Rightarrow> pc) \<Rightarrow> bool" where
  "lock_inv l T c \<longleftrightarrow> (case c of (s, pc) \<Rightarrow> \<exists>rs ws. lists_ok l T rs ws s \<and>
     own_ok T (idle_thread s) ws (svalue (semas s (lock_sema l))) (locks s l) pc)"

lemma queues_apart:
  assumes "queues_ok l T rs ws s" "set rs' \<subseteq> T" "set rs' \<inter> set ws = {}"
  shows "set (cells (waiters (lock_sema l)) (map general_tag ws)) \<inter> set (cells (thread_ready_list s) (map general_tag rs')) = {}"
proof -
  have "\<forall>t \<in> T. general_tag t \<noteq> thread_ready_list s \<and> general_tag t \<noteq> tail_of (thread_ready_list s)"
    using assms(1) by (simp add: queues_ok_def sched_ok_def)
  moreover have "\<forall>t \<in> T. general_tag t \<noteq> waiters (lock_sema l) \<and> general_tag t \<noteq> tail_of (waiters (lock_sema l))" "set ws \<subseteq> T"
    "{waiters (lock_sema l), tail_of (waiters (lock_sema l))} \<inter> {thread_ready_list s, tail_of (thread_ready_list s)} = {}"
    using assms(1) by (simp_all add: queues_ok_def)
  ultimately show ?thesis using assms(2,3) unfolding set_cells set_map by (auto 0 3)
qed

lemma set_candidates:
  "candidates rs s \<noteq> []"
  "t \<in> set (candidates rs s) \<Longrightarrow> t \<in> set rs \<or> t = idle_thread s \<or> t = running_thread s \<and> status (tasks s t) = TASK_RUNNING"
  by (auto simp: candidates_def Let_def split: if_splits)

lemma lists_disjoint:
  assumes "lists_ok l T rs ws s"
  shows "set rs \<inter> set ws = {}" "running_thread s \<notin> set rs" "running_thread s \<notin> set ws"
proof -
  have q: "sched_ok T rs s" "set ws \<subseteq> T" using assms by (auto simp: lists_ok_def queues_ok_def)
  have w: "status (tasks s w) = TASK_BLOCKED" if "w \<in> set ws" for w using that assms by (simp add: lists_ok_def)
  show "set rs \<inter> set ws = {}" using sched_okD(6) [OF q(1)] w q(2) by fastforce
  show "running_thread s \<notin> set ws" using w assms by (auto simp: lists_ok_def)
  show "running_thread s \<notin> set rs" using sched_okD(6) [OF q(1) sched_okD(3) [OF q(1)]] assms by (simp add: lists_ok_def)
qed

text \<open>Anything that touches neither lists, tasks nor stacks keeps the queues.\<close>

lemma queues_ok_cong:
  assumes "elems s' = elems s" "thread_ready_list s' = thread_ready_list s" "idle_thread s' = idle_thread s"
    "running_thread s' = running_thread s" "cr3 s' = cr3 s" "ptab s' = ptab s" "tasks s' = tasks s"
  shows "queues_ok l T rs ws s' \<longleftrightarrow> queues_ok l T rs ws s"
proof -
  have "dirs_ok T s' \<longleftrightarrow> dirs_ok T s" by (rule dirs_ok_cong) (use assms in simp_all)
  then show ?thesis using assms by (simp add: queues_ok_def sched_ok_def)
qed

lemma lists_ok_cong:
  assumes "elems s' = elems s" "thread_ready_list s' = thread_ready_list s" "idle_thread s' = idle_thread s"
    "running_thread s' = running_thread s" "cr3 s' = cr3 s" "ptab s' = ptab s" "tasks s' = tasks s"
  shows "lists_ok l T rs ws s' \<longleftrightarrow> lists_ok l T rs ws s"
  using queues_ok_cong [OF assms] assms by (simp add: lists_ok_def)

text \<open>A call of the scheduler keeps the wait queue.\<close>

lemma schedule_lists:
  assumes "queues_ok l T rs ws s" "intr_get_status s = INTR_OFF" "stack_room s" "idle_ready rs s"
    and "\<forall>w \<in> set ws. status (tasks s w) = TASK_BLOCKED"
    and "status (tasks s (running_thread s)) = TASK_RUNNING \<or> blocked_status (status (tasks s (running_thread s)))"
  shows "\<exists>s' q. schedule s = Some s' \<and> lists_ok l T q ws s' \<and> semas s' = semas s \<and> locks s' = locks s \<and> idle_thread s' = idle_thread s"
proof -
  have ok: "sched_ok T rs s" using assms(1) by (simp add: queues_ok_def)
  obtain n q where c: "candidates rs s = n # q" using set_candidates(1) [of rs s] by (auto simp: neq_Nil_conv)
  have ws: "set ws \<subseteq> T" "idle_thread s \<notin> set ws" using assms(1) by (simp_all add: queues_ok_def)
  have mem: "t \<in> T \<and> t \<notin> set ws" if "t \<in> set (n # q)" for t
    using set_candidates(2) [of t rs s] that c sched_okD(2-4) [OF ok] sched_okD(6) [OF ok, of t] assms(5) ws by auto
  then have sub: "set (n # q) \<subseteq> T" "set (n # q) \<inter> set ws = {}" by blast+
  obtain s' where s': "schedule s = Some s'" "sched_ok T q s'" "running_thread s' = n" "status (tasks s' n) = TASK_RUNNING"
    "keeps (set (cells (thread_ready_list s) (map general_tag (n # q)))) s s'"
    "\<forall>t. t \<noteq> n \<longrightarrow> status (tasks s' t) =
       (if t = running_thread s \<and> status (tasks s t) = TASK_RUNNING then TASK_READY else status (tasks s t))"
    using schedule_spec [OF ok assms(2-4) c] by blast
  have "dlist (elems s') (waiters (lock_sema l)) (map general_tag ws)"
    using s'(5) queues_apart [OF assms(1) sub] assms(1) by (auto simp: keeps_def queues_ok_def)
  moreover have "status (tasks s' w) = TASK_BLOCKED" if "w \<in> set ws" for w
    using s'(6) assms(5) that sub(2) by auto
  moreover have "status (tasks s' (idle_thread s)) \<in> {TASK_READY, TASK_RUNNING} \<or> blocked_status (status (tasks s' (idle_thread s)))"
    using s'(4,6) assms(1) by (cases "idle_thread s = n") (auto simp: queues_ok_def)
  ultimately have "lists_ok l T q ws s'"
    using s' assms(1) by (auto simp: lists_ok_def queues_ok_def keeps_def)
  then show ?thesis using s'(1,5) by (auto simp: keeps_def)
qed

lemma lists_okD:
  assumes "lists_ok l T rs ws s"
  shows "queues_ok l T rs ws s" "sched_ok T rs s" "status (tasks s (running_thread s)) = TASK_RUNNING"
    "\<forall>w \<in> set ws. status (tasks s w) = TASK_BLOCKED" "dlist (elems s) (waiters (lock_sema l)) (map general_tag ws)"
    "set ws \<subseteq> T" "idle_thread s \<notin> set ws"
  using assms by (simp_all add: lists_ok_def queues_ok_def)

lemma preempt_lists:
  assumes "lists_ok l T rs ws s" "stack_room s"
  shows "\<exists>s' q. schedule (snd (intr_disable s)) = Some s' \<and> lists_ok l T q ws s' \<and> semas s' = semas s \<and> locks s' = locks s \<and>
    idle_thread s' = idle_thread s"
proof -
  obtain old e where e: "intr_disable s = (old, s\<lparr>eflags := e\<rparr>)" "\<not> bit e 9" using intr_disable_eq by blast
  let ?s = "s\<lparr>eflags := e\<rparr>"
  have r: "running_thread ?s = running_thread s" by (simp add: running_thread_def)
  have "queues_ok l T rs ws ?s" using lists_okD(1) [OF assms(1)] r by (subst queues_ok_cong [of _ s]) simp_all
  moreover have "intr_get_status ?s = INTR_OFF" "stack_room ?s" using e(2) assms(2) by (simp_all add: intr_get_status_off stack_room_def)
  moreover have "idle_ready rs ?s" using lists_okD(3) [OF assms(1)] r by (simp add: idle_ready_def)
  ultimately show ?thesis
    using schedule_lists [of l T rs ws ?s] lists_okD(3,4) [OF assms(1)] r e(1) by simp
qed

lemma block_begin_lists:
  assumes "queues_ok l T rs ws s" "status (tasks s (running_thread s)) = TASK_RUNNING" "stack_room s"
    and "\<forall>w \<in> set ws. w \<noteq> running_thread s \<longrightarrow> status (tasks s w) = TASK_BLOCKED"
  shows "\<exists>old s' q. block_begin TASK_BLOCKED s = Some (old, s') \<and> lists_ok l T q ws s' \<and> semas s' = semas s \<and> locks s' = locks s \<and>
    idle_thread s' = idle_thread s"
proof -
  obtain old e where e: "intr_disable s = (old, s\<lparr>eflags := e\<rparr>)" "\<not> bit e 9" using intr_disable_eq by blast
  let ?cur = "running_thread s"
  let ?s = "set_status ?cur TASK_BLOCKED (s\<lparr>eflags := e\<rparr>)"
  have sel: "running_thread ?s = ?cur" "elems ?s = elems s" "thread_ready_list ?s = thread_ready_list s" "idle_thread ?s = idle_thread s"
    "semas ?s = semas s" "locks ?s = locks s" "tasks ?s = (tasks s)(?cur := (tasks s ?cur)\<lparr>status := TASK_BLOCKED\<rparr>)"
    by (simp_all add: running_thread_def)
  have ok: "sched_ok T rs s" using assms(1) by (simp add: queues_ok_def)
  have nr: "?cur \<notin> set rs" using sched_okD(6) [OF ok sched_okD(3) [OF ok]] assms(2) by simp
  have "dirs_ok T ?s \<longleftrightarrow> dirs_ok T s" by (rule dirs_ok_cong) simp_all
  then have "sched_ok T rs ?s" using ok nr unfolding sched_ok_def sel by auto
  then have "queues_ok l T rs ws ?s" using assms(1) unfolding queues_ok_def sel by (auto simp: blocked_status_def)
  moreover have "intr_get_status ?s = INTR_OFF" "stack_room ?s" using e(2) assms(3) by (simp_all add: intr_get_status_off stack_room_def)
  moreover have "idle_ready rs ?s"
    using assms(1) sched_okD(4) [OF ok] sched_okD(6,7) [OF ok, of "idle_thread s"]
    unfolding idle_ready_def sel queues_ok_def by (auto simp: blocked_status_def)
  moreover have "\<forall>w \<in> set ws. status (tasks ?s w) = TASK_BLOCKED" using assms(4) by (simp add: sel)
  moreover have "status (tasks ?s (running_thread ?s)) = TASK_BLOCKED" by (simp add: sel)
  ultimately obtain s' q where "schedule ?s = Some s'" "lists_ok l T q ws s'" "semas s' = semas s" "locks s' = locks s"
    "idle_thread s' = idle_thread s"
    using schedule_lists [of l T rs ws ?s] sel by (auto simp: blocked_status_def)
  moreover have "running_thread (s\<lparr>eflags := e\<rparr>) = ?cur" by (simp add: running_thread_def)
  ultimately show ?thesis using e(1) by (auto simp: block_begin_def blocked_status_def)
qed

lemma sema_enqueue_queues:
  assumes "lists_ok l T rs ws s" "running_thread s \<noteq> idle_thread s"
  shows "\<exists>h. sema_enqueue (lock_sema l) s = Some (s\<lparr>elems := h\<rparr>) \<and> queues_ok l T rs (ws @ [running_thread s]) (s\<lparr>elems := h\<rparr>)"
proof -
  let ?cur = "running_thread s" and ?wl = "waiters (lock_sema l)"
  note ok = lists_okD [OF assms(1)] and dis = lists_disjoint [OF assms(1)]
  have cur: "?cur \<in> T" using sched_okD(3) [OF ok(2)] .
  define h where "h = elems (list_append ?wl (general_tag ?cur) s)"
  have s1: "list_append ?wl (general_tag ?cur) s = s\<lparr>elems := h\<rparr>" by (simp add: h_def list_append_def list_insert_before_eq)
  have "elem_find ?wl (general_tag ?cur) s = Some False" using elem_find_dlist [OF ok(5), of "general_tag ?cur"] dis(3) by auto
  then have eq: "sema_enqueue (lock_sema l) s = Some (s\<lparr>elems := h\<rparr>)" by (simp add: sema_enqueue_def s1)
  have nw: "general_tag ?cur \<notin> set (cells ?wl (map general_tag ws))"
    using ok(1) cur dis(3) unfolding set_cells queues_ok_def by auto
  have wq: "dlist h ?wl (map general_tag (ws @ [?cur]))" using list_append_dlist [OF ok(5) nw] by (simp add: h_def)
  have nr: "general_tag ?cur \<notin> set (cells (thread_ready_list s) (map general_tag rs))" using sched_okD(11) [OF ok(2) cur dis(2)] .
  have "set (cells (thread_ready_list s) (map general_tag rs)) \<inter> set (cells ?wl (map general_tag ws)) = {}"
    using queues_apart [OF ok(1) sched_okD(2) [OF ok(2)] dis(1)] by blast
  then have "dlist h (thread_ready_list s) (map general_tag rs)"
    using list_append_other [OF ok(5) sched_okD(1) [OF ok(2)] _ nr] by (simp add: h_def)
  moreover have "dirs_ok T (s\<lparr>elems := h\<rparr>) \<longleftrightarrow> dirs_ok T s" by (rule dirs_ok_cong) simp_all
  moreover have "running_thread (s\<lparr>elems := h\<rparr>) = ?cur" by (simp add: running_thread_def)
  ultimately have "queues_ok l T rs (ws @ [?cur]) (s\<lparr>elems := h\<rparr>)"
    using ok(1) wq cur assms(2) unfolding queues_ok_def sched_ok_def by auto
  then show ?thesis using eq by blast
qed

lemma sema_wait_lists:
  assumes "lists_ok l T rs ws s" "running_thread s \<noteq> idle_thread s" "stack_room s"
  shows "\<exists>s' q. sema_wait (lock_sema l) s = Some s' \<and> lists_ok l T q (ws @ [running_thread s]) s' \<and> semas s' = semas s \<and>
    locks s' = locks s \<and> idle_thread s' = idle_thread s"
proof -
  obtain old e where e: "intr_disable s = (old, s\<lparr>eflags := e\<rparr>)" using intr_disable_eq by blast
  let ?s = "s\<lparr>eflags := e\<rparr>"
  have r: "running_thread ?s = running_thread s" by (simp add: running_thread_def)
  have l: "lists_ok l T rs ws ?s" using assms(1) r by (subst lists_ok_cong [of _ s]) simp_all
  obtain h where h: "sema_enqueue (lock_sema l) ?s = Some (?s\<lparr>elems := h\<rparr>)" "queues_ok l T rs (ws @ [running_thread s]) (?s\<lparr>elems := h\<rparr>)"
    using sema_enqueue_queues [OF l] assms(2) r by auto
  have r2: "running_thread (?s\<lparr>elems := h\<rparr>) = running_thread s" by (simp add: running_thread_def)
  have "\<exists>old s' q. block_begin TASK_BLOCKED (?s\<lparr>elems := h\<rparr>) = Some (old, s') \<and> lists_ok l T q (ws @ [running_thread s]) s' \<and>
      semas s' = semas (?s\<lparr>elems := h\<rparr>) \<and> locks s' = locks (?s\<lparr>elems := h\<rparr>) \<and> idle_thread s' = idle_thread (?s\<lparr>elems := h\<rparr>)"
    using assms(3) lists_okD(3,4) [OF assms(1)]
    by (intro block_begin_lists [OF h(2)]) (simp_all add: r2 stack_room_def)
  then show ?thesis using e h(1) by (auto simp: sema_wait_def)
qed

lemma set_value_sel [simp]:
  "elems (set_value p v s) = elems s" "eflags (set_value p v s) = eflags s" "esp (set_value p v s) = esp s"
  "cr3 (set_value p v s) = cr3 s" "ptab (set_value p v s) = ptab s" "tasks (set_value p v s) = tasks s" "mem (set_value p v s) = mem s"
  "locks (set_value p v s) = locks s" "thread_ready_list (set_value p v s) = thread_ready_list s"
  "idle_thread (set_value p v s) = idle_thread s" "semas (set_value p v s) = (semas s)(p := (semas s p)\<lparr>svalue := v\<rparr>)"
  by (simp_all add: set_value_def)

lemma upd_lock_sel [simp]:
  "elems (upd_lock p f s) = elems s" "eflags (upd_lock p f s) = eflags s" "esp (upd_lock p f s) = esp s"
  "cr3 (upd_lock p f s) = cr3 s" "ptab (upd_lock p f s) = ptab s" "tasks (upd_lock p f s) = tasks s" "mem (upd_lock p f s) = mem s"
  "semas (upd_lock p f s) = semas s" "thread_ready_list (upd_lock p f s) = thread_ready_list s"
  "idle_thread (upd_lock p f s) = idle_thread s" "locks (upd_lock p f s) = (locks s)(p := f (locks s p))"
  by (simp_all add: upd_lock_def)

text \<open>The first waiter leaves the wait queue for the head of the ready queue.\<close>

lemma wake_first_lists:
  assumes "lists_ok l T rs (w # ws) s" "list_pop (waiters (lock_sema l)) s = (x, s1)"
  shows "\<exists>s'. thread_unblock (tag2task x) s1 = Some s' \<and> lists_ok l T (w # rs) ws s' \<and> eflags s' = eflags s \<and> semas s' = semas s \<and>
    locks s' = locks s \<and> idle_thread s' = idle_thread s"
proof -
  let ?wl = "waiters (lock_sema l)"
  note ok = lists_okD [OF assms(1)] and dis = lists_disjoint [OF assms(1)]
  have pop: "x = general_tag w" "dlist (elems s1) ?wl (map general_tag ws)"
    using list_pop_dlist [of s ?wl "general_tag w" "map general_tag ws"] ok(5) assms(2) by simp_all
  obtain h where s1: "s1 = s\<lparr>elems := h\<rparr>" using assms(2) by (auto simp: list_pop_def Let_def list_remove_eq)
  have "set (cells (thread_ready_list s) (map general_tag rs)) \<inter> set (cells ?wl (map general_tag (w # ws))) = {}"
    using queues_apart [OF ok(1) sched_okD(2) [OF ok(2)] dis(1)] by blast
  then have rq: "dlist h (thread_ready_list s) (map general_tag rs)"
    using list_pop_other [of s ?wl "general_tag w" "map general_tag ws"] ok(5) sched_okD(1) [OF ok(2)] assms(2) s1 by simp
  have r1: "running_thread s1 = running_thread s" by (simp add: s1 running_thread_def)
  have "dirs_ok T s1 \<longleftrightarrow> dirs_ok T s" unfolding s1 by (rule dirs_ok_cong) simp_all
  then have ok1: "sched_ok T rs s1" using ok(2) rq r1 by (simp add: sched_ok_def s1)
  have w: "w \<in> T" "w \<notin> set rs" "w \<noteq> running_thread s" "w \<notin> set ws" using ok(5,6) dis by (auto simp: dlist_def cells_def)
  have b: "blocked_status (status (tasks s1 w))" using ok(4) by (simp add: s1 blocked_status_def)
  let ?s = "woken w s1"
  have "keeps (insert (general_tag w) (set (cells (thread_ready_list s1) (map general_tag rs)))) s1 ?s" by (rule woken_keeps [OF ok1])
  moreover have "set (cells ?wl (map general_tag ws)) \<inter> insert (general_tag w) (set (cells (thread_ready_list s1) (map general_tag rs))) = {}"
  proof -
    have "general_tag w \<notin> set (cells ?wl (map general_tag ws))" using ok(5) by (auto simp: dlist_def cells_def)
    moreover have "set (cells ?wl (map general_tag ws)) \<inter> set (cells (thread_ready_list s) (map general_tag rs)) = {}"
      using queues_apart [OF ok(1) sched_okD(2) [OF ok(2)] dis(1)] unfolding set_cells by auto
    ultimately show ?thesis by (simp add: s1)
  qed
  ultimately have wq: "dlist (elems ?s) ?wl (map general_tag ws)" using pop(2) by (simp add: keeps_def)
  have "sched_ok T (w # rs) ?s" by (rule woken_ok [OF ok1 w(1) b])
  then have "queues_ok l T (w # rs) ws ?s" using ok(1) wq unfolding queues_ok_def by (auto simp: s1)
  moreover have "running_thread ?s = running_thread s" by (simp add: s1 running_thread_def)
  ultimately have "lists_ok l T (w # rs) ws ?s" using ok(3,4) w unfolding lists_ok_def by (auto simp: s1)
  then show ?thesis using thread_unblock_eq [OF ok1 w(1) b] pop(1) by (simp add: s1)
qed

lemma sema_up_lists:
  assumes "lists_ok l T rs ws s" "svalue (semas s (lock_sema l)) = 0"
  shows "\<exists>s' q. sema_up (lock_sema l) s = Some s' \<and> lists_ok l T q (tl ws) s' \<and>
    semas s' = (semas s)(lock_sema l := (semas s (lock_sema l))\<lparr>svalue := 1\<rparr>) \<and> locks s' = locks s \<and> idle_thread s' = idle_thread s"
proof -
  obtain old e where e: "intr_disable s = (old, s\<lparr>eflags := e\<rparr>)" using intr_disable_eq by blast
  let ?s = "s\<lparr>eflags := e\<rparr>" and ?wl = "waiters (lock_sema l)"
  have r: "running_thread ?s = running_thread s" by (simp add: running_thread_def)
  have l: "lists_ok l T rs ws ?s" using assms(1) r by (subst lists_ok_cong [of _ s]) simp_all
  have empty: "list_empty ?wl ?s \<longleftrightarrow> ws = []" using list_empty_dlist [OF lists_okD(5) [OF l]] by simp
  obtain s1 q where s1: "(if \<not> list_empty ?wl ?s then do {
              let (elem, s) = list_pop ?wl ?s;
              let thread_blocked = tag2task elem;
              thread_unblock thread_blocked s }
            else Some ?s) = Some s1" "lists_ok l T q (tl ws) s1" "eflags s1 = e" "semas s1 = semas s" "locks s1 = locks s"
      "idle_thread s1 = idle_thread s"
  proof (cases ws)
    case Nil
    then show ?thesis using that [of ?s rs] l empty by simp
  next
    case (Cons w ws')
    obtain x s2 where x: "list_pop ?wl ?s = (x, s2)" by fastforce
    show ?thesis using that wake_first_lists [of l T rs w ws' ?s] l x Cons empty by force
  qed
  let ?s2 = "set_value (lock_sema l) 1 s1"
  have "snd (intr_set_status old ?s2) = ?s2\<lparr>eflags := eflags s\<rparr>" using intr_bracket [OF e, of ?s2] s1(3) by simp
  then have "sema_up (lock_sema l) s = Some (?s2\<lparr>eflags := eflags s\<rparr>)"
    using e assms(2) s1(1,4) unfolding sema_up_def by simp
  moreover have "lists_ok l T q (tl ws) (?s2\<lparr>eflags := eflags s\<rparr>)"
    using s1(2) by (subst lists_ok_cong [of _ s1]) (simp_all add: running_thread_def)
  ultimately show ?thesis using s1 by (intro exI [of _ "?s2\<lparr>eflags := eflags s\<rparr>"]) auto
qed

section \<open>The invariant is kept\<close>

lemma owners_upd:
  "t \<in> T \<Longrightarrow> owners T (pc(t := p)) = (if p = Got \<or> p = Inside \<or> p = Leaving then insert t (owners T pc) else owners T pc - {t})"
  by (auto simp: owners_def)

lemma own_okD:
  assumes "own_ok T idle ws v k pc"
  shows "v = 1 \<and> owners T pc = {} \<or> v = 0 \<and> (\<exists>t. owners T pc = {t})" "\<And>t. t \<in> T \<Longrightarrow> holder k = t \<longleftrightarrow> pc t = Inside"
    "holder k = NULL \<or> holder k \<in> T" "holder k = NULL \<Longrightarrow> holder_repeat_nr k = 0" "holder k \<noteq> NULL \<Longrightarrow> holder_repeat_nr k \<noteq> 0"
    "pc idle = Outside" "\<And>w. w \<in> set ws \<Longrightarrow> pc w = Trying" "v = 1 \<Longrightarrow> ws \<noteq> [] \<Longrightarrow> \<exists>t \<in> T. pc t = Trying \<and> t \<notin> set ws"
  using assms by (auto simp: own_ok_def split: if_splits)

lemma own_okI:
  assumes "v = 1 \<and> owners T pc = {} \<or> v = 0 \<and> (\<exists>t. owners T pc = {t})" "\<And>t. t \<in> T \<Longrightarrow> holder k = t \<longleftrightarrow> pc t = Inside"
    "holder k = NULL \<or> holder k \<in> T" "holder k = NULL \<Longrightarrow> holder_repeat_nr k = 0" "holder k \<noteq> NULL \<Longrightarrow> holder_repeat_nr k \<noteq> 0"
    "pc idle = Outside" "\<And>w. w \<in> set ws \<Longrightarrow> pc w = Trying" "v = 1 \<Longrightarrow> ws \<noteq> [] \<Longrightarrow> \<exists>t \<in> T. pc t = Trying \<and> t \<notin> set ws"
  shows "own_ok T idle ws v k pc"
  unfolding own_ok_def using assms by (intro conjI) simp_all

lemma own_unique:
  assumes "own_ok T idle ws v k pc" "t \<in> T" "pc t = Got \<or> pc t = Inside \<or> pc t = Leaving"
  shows "v = 0" "owners T pc = {t}" "\<And>u. u \<in> T \<Longrightarrow> u \<noteq> t \<Longrightarrow> pc u = Outside \<or> pc u = Trying"
proof -
  have "t \<in> owners T pc" using assms(2,3) by (simp add: owners_def)
  then show v: "v = 0" and o: "owners T pc = {t}" using own_okD(1) [OF assms(1)] by auto
  show "pc u = Outside \<or> pc u = Trying" if "u \<in> T" "u \<noteq> t" for u
    using o that by (cases "pc u") (auto simp: owners_def)
qed

lemma own_no_holder:
  assumes "own_ok T idle ws v k pc" "\<And>t. t \<in> T \<Longrightarrow> pc t \<noteq> Inside"
  shows "holder k = NULL" "holder_repeat_nr k = 0"
proof -
  show "holder k = NULL" using own_okD(2,3) [OF assms(1)] assms(2) by blast
  then show "holder_repeat_nr k = 0" using own_okD(4) [OF assms(1)] by simp
qed

lemma own_acquire:
  assumes "own_ok T idle ws v k pc" "t \<in> T" "t \<noteq> idle" "pc t = Outside"
  shows "own_ok T idle ws v k (pc(t := Trying))"
proof -
  have "owners T (pc(t := Trying)) = owners T pc" using assms(2,4) by (auto simp: owners_def)
  moreover have "holder k = u \<longleftrightarrow> (pc(t := Trying)) u = Inside" if "u \<in> T" for u using own_okD(2) [OF assms(1) that] assms(4) by auto
  moreover have "\<exists>u \<in> T. (pc(t := Trying)) u = Trying \<and> u \<notin> set ws" if "v = 1" "ws \<noteq> []"
    using own_okD(8) [OF assms(1) that] by (metis fun_upd_apply)
  ultimately show ?thesis using own_okD [OF assms(1)] assms(3) by (intro own_okI) simp_all
qed

lemma own_take:
  assumes "own_ok T idle ws v k pc" "t \<in> T" "t \<notin> set ws" "pc t = Trying" "v \<noteq> 0"
  shows "v = 1" "own_ok T idle ws 0 k (pc(t := Got))"
proof -
  show v: "v = 1" using own_okD(1) [OF assms(1)] assms(5) by auto
  have o: "owners T pc = {}" using own_okD(1) [OF assms(1)] v by auto
  then have "owners T (pc(t := Got)) = {t}" using assms(2) by (simp add: owners_upd)
  moreover have "holder k = u \<longleftrightarrow> (pc(t := Got)) u = Inside" if "u \<in> T" for u using own_okD(2) [OF assms(1) that] assms(4) by auto
  moreover have "t \<noteq> idle" using own_okD(6) [OF assms(1)] assms(4) by auto
  moreover have "\<And>w. w \<in> set ws \<Longrightarrow> (pc(t := Got)) w = Trying" using own_okD(7) [OF assms(1)] assms(3) by auto
  ultimately show "own_ok T idle ws 0 k (pc(t := Got))" using own_okD(3-6) [OF assms(1)] by (intro own_okI) simp_all
qed

lemma own_own:
  assumes "own_ok T idle ws v k pc" "t \<in> T" "t \<noteq> NULL" "pc t = Got" "NULL \<notin> T"
  shows "holder_repeat_nr k = 0" "own_ok T idle ws v (k\<lparr>holder := t, holder_repeat_nr := 1\<rparr>) (pc(t := Inside))"
proof -
  have other: "pc u = Outside \<or> pc u = Trying" if "u \<in> T" "u \<noteq> t" for u using own_unique(3) [OF assms(1,2)] assms(4) that by blast
  show "holder_repeat_nr k = 0" using own_no_holder [OF assms(1)] other assms(4) by (metis pc.distinct(5,11,15))
  have "owners T (pc(t := Inside)) = {t}" using own_unique(2) [OF assms(1,2)] assms(2,4) by (simp add: owners_upd)
  moreover have "t = u \<longleftrightarrow> (pc(t := Inside)) u = Inside" if "u \<in> T" for u using other [OF that] by auto
  moreover have "t \<noteq> idle" "t \<notin> set ws" using own_okD(6,7) [OF assms(1)] assms(4) by force+
  moreover have "v = 0" using own_unique(1) [OF assms(1,2)] assms(4) by blast
  ultimately show "own_ok T idle ws v (k\<lparr>holder := t, holder_repeat_nr := 1\<rparr>) (pc(t := Inside))"
    using own_okD(6,7) [OF assms(1)] assms(2,3) unfolding own_ok_def by auto
qed

lemma own_disown:
  assumes "own_ok T idle ws v k pc" "t \<in> T" "pc t = Inside" "NULL \<notin> T"
  shows "holder k = t" "holder_repeat_nr k \<noteq> 0"
    "own_ok T idle ws v (k\<lparr>holder := NULL, holder_repeat_nr := 0\<rparr>) (pc(t := Leaving))"
proof -
  show h: "holder k = t" using own_okD(2) [OF assms(1,2)] assms(3) by simp
  then have "holder k \<noteq> NULL" using assms(2,4) by auto
  then show "holder_repeat_nr k \<noteq> 0" by (rule own_okD(5) [OF assms(1)])
  have other: "pc u = Outside \<or> pc u = Trying" if "u \<in> T" "u \<noteq> t" for u using own_unique(3) [OF assms(1,2)] assms(3) that by blast
  have "owners T (pc(t := Leaving)) = {t}" using own_unique(2) [OF assms(1,2)] assms(2,3) by (simp add: owners_upd)
  moreover have "(pc(t := Leaving)) u \<noteq> Inside \<and> NULL \<noteq> u" if "u \<in> T" for u using other [OF that] assms(4) that by auto
  moreover have "t \<noteq> idle" "t \<notin> set ws" using own_okD(6,7) [OF assms(1)] assms(3) by force+
  moreover have "v = 0" using own_unique(1) [OF assms(1,2)] assms(3) by blast
  ultimately show "own_ok T idle ws v (k\<lparr>holder := NULL, holder_repeat_nr := 0\<rparr>) (pc(t := Leaving))"
    using own_okD(6,7) [OF assms(1)] unfolding own_ok_def by auto
qed

lemma own_up:
  assumes "own_ok T idle ws v k pc" "t \<in> T" "pc t = Leaving" "distinct ws" "set ws \<subseteq> T"
  shows "v = 0" "own_ok T idle (tl ws) 1 k (pc(t := Outside))"
proof -
  show "v = 0" using own_unique(1) [OF assms(1,2)] assms(3) by blast
  have "owners T (pc(t := Outside)) = {}" using own_unique(2) [OF assms(1,2)] assms(2,3) by (simp add: owners_upd)
  moreover have "holder k = u \<longleftrightarrow> (pc(t := Outside)) u = Inside" if "u \<in> T" for u using own_okD(2) [OF assms(1) that] assms(3) by auto
  moreover have nw: "t \<notin> set ws" using own_okD(7) [OF assms(1)] assms(3) by force
  moreover have "\<exists>u \<in> T. (pc(t := Outside)) u = Trying \<and> u \<notin> set (tl ws)" if "tl ws \<noteq> []"
  proof -
    obtain w ws' where w: "ws = w # ws'" using \<open>tl ws \<noteq> []\<close> by (cases ws) auto
    then show ?thesis using assms(4,5) own_okD(7) [OF assms(1), of w] nw by (intro bexI [of _ w]) auto
  qed
  moreover have "\<forall>w \<in> set (tl ws). (pc(t := Outside)) w = Trying" using own_okD(7) [OF assms(1)] nw by (cases ws) auto
  ultimately show "own_ok T idle (tl ws) 1 k (pc(t := Outside))"
    using own_okD(3-6) [OF assms(1)] unfolding own_ok_def by auto
qed

lemma own_wait:
  assumes "own_ok T idle ws 0 k pc" "pc t = Trying"
  shows "own_ok T idle (ws @ [t]) 0 k pc"
  using assms by (auto simp: own_ok_def)

lemma own_count:
  assumes "own_ok T idle ws v k pc" "holder k \<noteq> NULL" "n \<noteq> 0"
  shows "own_ok T idle ws v (k\<lparr>holder_repeat_nr := n\<rparr>) pc"
  using assms by (simp add: own_ok_def)

lemma lock_invE:
  assumes "lock_inv l T (s, pc)"
  obtains rs ws where "lists_ok l T rs ws s" "own_ok T (idle_thread s) ws (svalue (semas s (lock_sema l))) (locks s l) pc"
    "running_thread s \<in> T" "NULL \<notin> T" "running_thread s \<notin> set ws" "distinct ws" "set ws \<subseteq> T"
proof -
  obtain rs ws where *: "lists_ok l T rs ws s" "own_ok T (idle_thread s) ws (svalue (semas s (lock_sema l))) (locks s l) pc"
    using assms by (auto simp: lock_inv_def)
  have "distinct ws" using lists_okD(5) [OF *(1)] by (auto simp: dlist_def cells_def distinct_map)
  then show ?thesis
    using that [OF *] sched_okD(3,5) [OF lists_okD(2) [OF *(1)]] lists_disjoint(3) [OF *(1)] lists_okD(6) [OF *(1)] by blast
qed

text \<open>Each operation, at the place where a thread reaches it, returns and keeps the invariant.\<close>

lemma inv_switch:
  assumes "lock_inv l T (s, pc)" "stack_room s"
  shows "\<exists>s'. schedule (snd (intr_disable s)) = Some s' \<and> lock_inv l T (s', pc)"
    and "running_thread s = idle_thread s \<Longrightarrow> \<exists>old s'. block_begin TASK_BLOCKED s = Some (old, s') \<and> lock_inv l T (s', pc)"
    and "pc (running_thread s) = Trying \<Longrightarrow> svalue (semas s (lock_sema l)) = 0 \<Longrightarrow>
      \<exists>s'. sema_wait (lock_sema l) s = Some s' \<and> lock_inv l T (s', pc)"
proof -
  obtain rs ws where i: "lists_ok l T rs ws s" "own_ok T (idle_thread s) ws (svalue (semas s (lock_sema l))) (locks s l) pc"
    using assms(1) by (rule lock_invE)
  show "\<exists>s'. schedule (snd (intr_disable s)) = Some s' \<and> lock_inv l T (s', pc)"
    using preempt_lists [OF i(1) assms(2)] i(2) by (force simp: lock_inv_def)
  show "\<exists>old s'. block_begin TASK_BLOCKED s = Some (old, s') \<and> lock_inv l T (s', pc)" if "running_thread s = idle_thread s"
    using block_begin_lists [OF lists_okD(1,3) [OF i(1)] assms(2)] lists_okD(4) [OF i(1)] i(2) by (force simp: lock_inv_def)
  show "\<exists>s'. sema_wait (lock_sema l) s = Some s' \<and> lock_inv l T (s', pc)"
    if c: "pc (running_thread s) = Trying" "svalue (semas s (lock_sema l)) = 0"
  proof -
    have "running_thread s \<noteq> idle_thread s" using own_okD(6) [OF i(2)] c(1) by auto
    then show ?thesis using sema_wait_lists [OF i(1) _ assms(2)] own_wait [of T _ ws "locks s l" pc] i(2) c by (force simp: lock_inv_def)
  qed
qed

lemma inv_take:
  assumes "lock_inv l T (s, pc)" "pc (running_thread s) = Trying" "svalue (semas s (lock_sema l)) \<noteq> 0"
  shows "\<exists>s'. sema_take (lock_sema l) s = Some s' \<and> lock_inv l T (s', pc(running_thread s := Got))"
proof -
  obtain rs ws where i: "lists_ok l T rs ws s" "own_ok T (idle_thread s) ws (svalue (semas s (lock_sema l))) (locks s l) pc"
    "running_thread s \<in> T" "running_thread s \<notin> set ws"
    using assms(1) by (rule lock_invE)
  have v: "svalue (semas s (lock_sema l)) = 1" using own_take(1) [OF i(2-4) assms(2,3)] .
  let ?s = "set_value (lock_sema l) 0 s"
  have "lists_ok l T rs ws ?s" using i(1) by (subst lists_ok_cong [of _ s]) (simp_all add: running_thread_def)
  then have "lock_inv l T (?s, pc(running_thread s := Got))" using own_take(2) [OF i(2-4) assms(2,3)] by (auto simp: lock_inv_def)
  moreover have "sema_take (lock_sema l) s = Some ?s" using v by (simp add: sema_take_def)
  ultimately show ?thesis by blast
qed

lemma inv_own:
  assumes "lock_inv l T (s, pc)" "pc (running_thread s) = Got"
  shows "\<exists>s'. lock_own l s = Some s' \<and> lock_inv l T (s', pc(running_thread s := Inside))"
proof -
  obtain rs ws where i: "lists_ok l T rs ws s" "own_ok T (idle_thread s) ws (svalue (semas s (lock_sema l))) (locks s l) pc"
    "running_thread s \<in> T" "NULL \<notin> T"
    using assms(1) by (rule lock_invE)
  have n: "running_thread s \<noteq> NULL" using i by auto
  note o = own_own [OF i(2,3) n assms(2) i(4)]
  let ?s = "upd_lock l (\<lambda>k. k\<lparr>holder := running_thread s, holder_repeat_nr := 1\<rparr>) s"
  have "lists_ok l T rs ws ?s" using i(1) by (subst lists_ok_cong [of _ s]) (simp_all add: running_thread_def)
  then have "lock_inv l T (?s, pc(running_thread s := Inside))" using o(2) by (auto simp: lock_inv_def)
  moreover have "lock_own l s = Some ?s" using o(1) by (simp add: lock_own_def upd_lock_def)
  ultimately show ?thesis by blast
qed

lemma inv_disown:
  assumes "lock_inv l T (s, pc)" "pc (running_thread s) = Inside"
  shows "\<exists>final s'. lock_disown l s = Some (final, s') \<and>
    lock_inv l T (s', if final then pc(running_thread s := Leaving) else pc)"
proof -
  obtain rs ws where i: "lists_ok l T rs ws s" "own_ok T (idle_thread s) ws (svalue (semas s (lock_sema l))) (locks s l) pc"
    "running_thread s \<in> T" "NULL \<notin> T"
    using assms(1) by (rule lock_invE)
  note o = own_disown [OF i(2,3) assms(2) i(4)]
  have lists: "lists_ok l T rs ws (upd_lock l f s)" for f
    using i(1) by (subst lists_ok_cong [of _ s]) (simp_all add: running_thread_def)
  show ?thesis
  proof (cases "1 < holder_repeat_nr (locks s l)")
    case True
    let ?s = "upd_lock l (\<lambda>k. k\<lparr>holder_repeat_nr := holder_repeat_nr k - 1\<rparr>) s"
    have n: "holder_repeat_nr (locks s l) - 1 \<noteq> 0" "holder (locks s l) \<noteq> NULL" using True o(1) i(3,4) by auto
    have "lock_inv l T (?s, pc)"
      using own_count [OF i(2) n(2,1)] lists by (auto simp: lock_inv_def)
    moreover have "lock_disown l s = Some (False, ?s)" using True o(1) by (simp add: lock_disown_def)
    ultimately show ?thesis by (intro exI [of _ False] exI [of _ ?s]) simp
  next
    case False
    let ?s = "upd_lock l (\<lambda>k. k\<lparr>holder := NULL, holder_repeat_nr := 0\<rparr>) s"
    have "holder_repeat_nr (locks s l) = 1" using False o(2) by (metis linorder_neqE word_neq_0_conv word_less_1)
    then have "lock_disown l s = Some (True, ?s)" using o(1) by (simp add: lock_disown_def upd_lock_def)
    moreover have "lock_inv l T (?s, pc(running_thread s := Leaving))" using o(3) lists by (auto simp: lock_inv_def)
    ultimately show ?thesis by (intro exI [of _ True] exI [of _ ?s]) simp
  qed
qed

lemma inv_again:
  assumes "lock_inv l T (s, pc)" "holder (locks s l) = running_thread s" "holder_repeat_nr (locks s l) < - 1"
  shows "lock_inv l T (lock_again l s, pc)"
proof -
  obtain rs ws where i: "lists_ok l T rs ws s" "own_ok T (idle_thread s) ws (svalue (semas s (lock_sema l))) (locks s l) pc"
    "running_thread s \<in> T" "NULL \<notin> T"
    using assms(1) by (rule lock_invE)
  have "holder_repeat_nr (locks s l) + 1 \<noteq> 0" using assms(3) by (metis add_eq_0_iff order_less_irrefl add.commute)
  moreover have "holder (locks s l) \<noteq> NULL" using assms(2) i(3,4) by auto
  ultimately have "own_ok T (idle_thread s) ws (svalue (semas s (lock_sema l)))
      ((locks s l)\<lparr>holder_repeat_nr := holder_repeat_nr (locks s l) + 1\<rparr>) pc"
    by (intro own_count [OF i(2)])
  moreover have "lists_ok l T rs ws (lock_again l s)"
    using i(1) by (subst lists_ok_cong [of _ s]) (simp_all add: running_thread_def lock_again_def)
  ultimately show ?thesis by (auto simp: lock_inv_def lock_again_def)
qed

lemma inv_up:
  assumes "lock_inv l T (s, pc)" "pc (running_thread s) = Leaving"
  shows "\<exists>s'. sema_up (lock_sema l) s = Some s' \<and> lock_inv l T (s', pc(running_thread s := Outside))"
proof -
  obtain rs ws where i: "lists_ok l T rs ws s" "own_ok T (idle_thread s) ws (svalue (semas s (lock_sema l))) (locks s l) pc"
    "running_thread s \<in> T" "distinct ws" "set ws \<subseteq> T"
    using assms(1) by (rule lock_invE)
  note o = own_up [OF i(2,3) assms(2) i(4,5)]
  from sema_up_lists [OF i(1) o(1)] show ?thesis using o(2) by (force simp: lock_inv_def)
qed

lemma inv_acquire:
  assumes "lock_inv l T (s, pc)" "running_thread s \<noteq> idle_thread s" "pc (running_thread s) = Outside"
  shows "lock_inv l T (s, pc(running_thread s := Trying))"
proof -
  obtain rs ws where i: "lists_ok l T rs ws s" "own_ok T (idle_thread s) ws (svalue (semas s (lock_sema l))) (locks s l) pc"
    "running_thread s \<in> T"
    using assms(1) by (rule lock_invE)
  from own_acquire [OF i(2,3) assms(2,3)] i(1) show ?thesis by (auto simp: lock_inv_def)
qed

lemma inv_compute:
  assumes "lock_inv l T (s, pc)" "frame e = running_thread s"
  shows "lock_inv l T (s\<lparr>esp := e, eflags := f\<rparr>, pc)"
proof -
  obtain rs ws where i: "lists_ok l T rs ws s" "own_ok T (idle_thread s) ws (svalue (semas s (lock_sema l))) (locks s l) pc"
    using assms(1) by (rule lock_invE)
  have "lists_ok l T rs ws (s\<lparr>esp := e, eflags := f\<rparr>)"
    using i(1) assms(2) by (subst lists_ok_cong [of _ s]) (simp_all add: running_thread_frame)
  then show ?thesis using i(2) by (auto simp: lock_inv_def)
qed

lemma lock_inv_step:
  assumes "lock_step l c c'" "lock_inv l T c"
  shows "lock_inv l T c'"
  using assms
proof (induction rule: lock_step.induct)
  case (compute e s pc f)
  then show ?case by (intro inv_compute)
next
  case (preempt s s' pc)
  then show ?case using inv_switch(1) [of l T s pc] by auto
next
  case (idle_block s old s' pc)
  then show ?case using inv_switch(2) [of l T s pc] by auto
next
  case (acquire s pc)
  then show ?case by (intro inv_acquire)
next
  case (wait pc s s')
  then show ?case using inv_switch(3) [of l T s pc] by auto
next
  case (take pc s s')
  then show ?case using inv_take [of l T s pc] by auto
next
  case (own pc s s')
  then show ?case using inv_own [of l T s pc] by auto
next
  case (again pc s)
  then show ?case by (intro inv_again)
next
  case (disown_one pc s s')
  then show ?case using inv_disown [of l T s pc] by auto
next
  case (disown_last pc s s')
  then show ?case using inv_disown [of l T s pc] by auto
next
  case (up pc s s')
  then show ?case using inv_up [of l T s pc] by auto
qed

lemma lock_inv_reach: "lock_reach l c0 c \<Longrightarrow> lock_inv l T c0 \<Longrightarrow> lock_inv l T c"
  by (induction rule: lock_reach.induct) (auto intro: lock_inv_step)

text \<open>A freshly initialised lock in a running system satisfies the invariant, with every thread outside.\<close>

definition fresh_lock :: "addr \<Rightarrow> addr set \<Rightarrow> addr list \<Rightarrow> 'a tsys_scheme \<Rightarrow> bool" where
  "fresh_lock l T rs s \<longleftrightarrow> sched_ok T rs s \<and> status (tasks s (running_thread s)) = TASK_RUNNING \<and>
     {waiters (lock_sema l), tail_of (waiters (lock_sema l))} \<inter> {thread_ready_list s, tail_of (thread_ready_list s)} = {} \<and>
     (\<forall>t \<in> T. general_tag t \<noteq> waiters (lock_sema l) \<and> general_tag t \<noteq> tail_of (waiters (lock_sema l))) \<and>
     (status (tasks s (idle_thread s)) = TASK_READY \<or> status (tasks s (idle_thread s)) = TASK_RUNNING \<or>
      blocked_status (status (tasks s (idle_thread s))))"

lemma list_init_other: "a \<noteq> l \<Longrightarrow> a \<noteq> tail_of l \<Longrightarrow> elems (list_init l s) a = elems s a"
  by (simp add: list_init_def Let_def)

lemma list_init_eq: "\<exists>h. list_init l s = s\<lparr>elems := h\<rparr>"
  by (simp add: list_init_def Let_def set_lprev_def set_lnext_def) metis

lemma lock_init_inv:
  assumes "fresh_lock l T rs s"
  shows "lock_inv l T (lock_init l s, \<lambda>_. Outside)"
proof -
  let ?wl = "waiters (lock_sema l)" and ?s = "lock_init l s"
  note f = assms [unfolded fresh_lock_def]
  obtain h where h: "?s = s\<lparr>locks := (locks s)(l := (locks s l)\<lparr>holder := NULL, holder_repeat_nr := 0\<rparr>),
      semas := (semas s)(lock_sema l := (semas s (lock_sema l))\<lparr>svalue := 1\<rparr>), elems := h\<rparr>"
    using list_init_eq [of ?wl "set_value (lock_sema l) 1 (upd_lock l (\<lambda>k. k\<lparr>holder_repeat_nr := 0\<rparr>) (upd_lock l (\<lambda>k. k\<lparr>holder := NULL\<rparr>) s))"]
    by (simp add: lock_init_def sema_init_def Let_def set_value_def upd_lock_def) blast
  have wq: "dlist (elems ?s) ?wl []" by (simp add: lock_init_def sema_init_def list_init_dlist)
  have "dlist (elems ?s) (thread_ready_list s) (map general_tag rs)"
  proof -
    have "elems ?s a = elems s a" if a: "a \<in> set (cells (thread_ready_list s) (map general_tag rs))" for a
    proof -
      have "set rs \<subseteq> T" using f sched_okD(2) by blast
      moreover have "\<forall>t \<in> T. general_tag t \<noteq> ?wl \<and> general_tag t \<noteq> tail_of ?wl"
        "{?wl, tail_of ?wl} \<inter> {thread_ready_list s, tail_of (thread_ready_list s)} = {}" using f by blast+
      moreover have "a = thread_ready_list s \<or> a = tail_of (thread_ready_list s) \<or> (\<exists>t \<in> set rs. a = general_tag t)"
        using a by (auto simp: set_cells)
      ultimately have "a \<noteq> ?wl \<and> a \<noteq> tail_of ?wl" by (elim disjE bexE) auto
      then show ?thesis by (simp add: lock_init_def sema_init_def list_init_other)
    qed
    then show ?thesis using f dlist_cong [of "thread_ready_list s" "map general_tag rs" "elems ?s" "elems s"] by (simp add: sched_ok_def)
  qed
  moreover have r: "running_thread ?s = running_thread s" by (simp add: h running_thread_def)
  moreover have "dirs_ok T ?s \<longleftrightarrow> dirs_ok T s" unfolding h by (rule dirs_ok_cong) simp_all
  ultimately have "sched_ok T rs ?s" using f unfolding sched_ok_def by (simp add: h)
  then have "lists_ok l T rs [] ?s" using f wq r unfolding lists_ok_def queues_ok_def by (simp add: h)
  moreover have "own_ok T (idle_thread ?s) [] 1 (locks ?s l) (\<lambda>_. Outside)"
    using f by (auto simp: own_ok_def owners_def h sched_ok_def)
  ultimately show ?thesis by (auto simp: lock_inv_def h)
qed

section \<open>Uncontended use\<close>

lemma sema_down_free:
  assumes "svalue (semas s p) = 1"
  shows "sema_down others p s = Some (set_value p 0 s)"
proof -
  obtain old e where e: "intr_disable s = (old, s\<lparr>eflags := e\<rparr>)" using intr_disable_eq by blast
  let ?s = "set_value p 0 (s\<lparr>eflags := e\<rparr>)"
  have "snd (intr_set_status old ?s) = ?s\<lparr>eflags := eflags s\<rparr>" using intr_bracket [OF e, of ?s] by simp
  also have "\<dots> = set_value p 0 s" by (simp add: set_value_def)
  finally show ?thesis
    using e assms by (simp add: sema_down_def sema_down_loop.simps sema_take_def)
qed

lemma lock_acquire_free:
  assumes "svalue (semas s (lock_sema l)) = 1" "holder (locks s l) \<noteq> running_thread s" "holder_repeat_nr (locks s l) = 0"
  shows "lock_acquire others l s
    = Some (upd_lock l (\<lambda>k. k\<lparr>holder := running_thread s, holder_repeat_nr := 1\<rparr>) (set_value (lock_sema l) 0 s))"
  using assms by (simp add: lock_acquire_def sema_down_free lock_own_def running_thread_def) (simp add: upd_lock_def)

lemma sema_up_free:
  assumes "svalue (semas s p) = 0" "list_empty (waiters p) s"
  shows "sema_up p s = Some (set_value p 1 s)"
proof -
  obtain old e where e: "intr_disable s = (old, s\<lparr>eflags := e\<rparr>)" using intr_disable_eq by blast
  let ?s = "set_value p 1 (s\<lparr>eflags := e\<rparr>)"
  have "snd (intr_set_status old ?s) = ?s\<lparr>eflags := eflags s\<rparr>" using intr_bracket [OF e, of ?s] by simp
  also have "\<dots> = set_value p 1 s" by (simp add: set_value_def)
  finally show ?thesis
    using e assms by (simp add: sema_up_def list_empty_def)
qed

lemma lock_release_last:
  assumes "holder (locks s l) = running_thread s" "holder_repeat_nr (locks s l) = 1" "svalue (semas s (lock_sema l)) = 0"
    "list_empty (waiters (lock_sema l)) s"
  shows "lock_release l s = Some (set_value (lock_sema l) 1 (upd_lock l (\<lambda>k. k\<lparr>holder := NULL, holder_repeat_nr := 0\<rparr>) s))"
proof -
  let ?s = "upd_lock l (\<lambda>k. k\<lparr>holder := NULL, holder_repeat_nr := 0\<rparr>) s"
  have "lock_disown l s = Some (True, ?s)" using assms(1,2) by (simp add: lock_disown_def upd_lock_def)
  moreover have "sema_up (lock_sema l) ?s = Some (set_value (lock_sema l) 1 ?s)"
    using assms(3,4) by (intro sema_up_free) (simp_all add: list_empty_def)
  ultimately show ?thesis by (simp add: lock_release_def)
qed

section \<open>Locks as the components use them\<close>

text \<open>A lock that nobody holds and nobody waits for, the state with the lock taken by the running thread, and what a critical section must keep.\<close>

definition lock_free :: "addr \<Rightarrow> 'a tsys_scheme \<Rightarrow> bool" where
  "lock_free l s \<longleftrightarrow> locks s l = \<lparr>holder = NULL, holder_repeat_nr = 0\<rparr> \<and> svalue (semas s (lock_sema l)) = 1 \<and>
     list_empty (waiters (lock_sema l)) s \<and> running_thread s \<noteq> NULL"

definition locked :: "addr \<Rightarrow> 'a tsys_scheme \<Rightarrow> 'a tsys_scheme" where
  "locked l s = upd_lock l (\<lambda>k. k\<lparr>holder := running_thread s, holder_repeat_nr := 1\<rparr>) (set_value (lock_sema l) 0 s)"

definition lock_kept :: "addr \<Rightarrow> 'a tsys_scheme \<Rightarrow> 'a tsys_scheme \<Rightarrow> bool" where
  "lock_kept l s t \<longleftrightarrow> locks t = locks s \<and> semas t = semas s \<and> esp t = esp s \<and> list_empty (waiters (lock_sema l)) t"

lemma locked_esp [simp]: "esp (locked l s) = esp s"
  by (simp add: locked_def upd_lock_def set_value_def)

lemma lock_given_back:
  assumes "lock_free l s" "lock_kept l (locked l s) t"
  shows "lock_release l t = Some (t\<lparr>semas := semas s, locks := locks s\<rparr>)"
proof -
  have f: "svalue (semas s (lock_sema l)) = 1" "running_thread s \<noteq> NULL" using assms(1) by (simp_all add: lock_free_def)
  have e: "list_empty (waiters (lock_sema l)) t" and r: "running_thread t = running_thread s" using assms(2) by (auto intro: running_thread_cong simp: lock_kept_def)
  have l: "locks t = (locks s)(l := \<lparr>holder = running_thread s, holder_repeat_nr = 1\<rparr>)"
    "semas t = (semas s)(lock_sema l := (semas s (lock_sema l))\<lparr>svalue := 0\<rparr>)"
    using assms by (simp_all add: lock_kept_def locked_def upd_lock_def set_value_def lock_free_def)
  have "lock_release l t = Some (set_value (lock_sema l) 1 (upd_lock l (\<lambda>k. k\<lparr>holder := NULL, holder_repeat_nr := 0\<rparr>) t))"
    using l r e by (intro lock_release_last) simp_all
  also have "set_value (lock_sema l) 1 (upd_lock l (\<lambda>k. k\<lparr>holder := NULL, holder_repeat_nr := 0\<rparr>) t) = t\<lparr>semas := semas s, locks := locks s\<rparr>"
    using l assms(1) f(1) by (simp add: set_value_def upd_lock_def lock_free_def fun_upd_idem)
  finally show ?thesis .
qed

interpretation lk: mutex "lock_free l" "lock_acquire others l" "lock_release l" "locked l" "lock_kept l" "\<lambda>s t. t\<lparr>semas := semas s, locks := locks s\<rparr>"
proof
  fix s t :: "'a tsys_scheme"
  assume f: "lock_free l s"
  then show "lock_acquire others l s = Some (locked l s)" unfolding locked_def by (intro lock_acquire_free) (simp_all add: lock_free_def)
  assume k: "lock_kept l (locked l s) t"
  show "lock_release l t = Some (t\<lparr>semas := semas s, locks := locks s\<rparr>)" by (rule lock_given_back [OF f k])
  show "lock_free l (t\<lparr>semas := semas s, locks := locks s\<rparr>)" using f k by (simp add: lock_free_def lock_kept_def list_empty_def running_thread_def)
qed

section \<open>Claims\<close>


lemma two_threads_fresh: "fresh_lock 0xc0006000 {0xc009e000, 0xc0100000} [0xc0100000] two_threads"
proof -
  have "thread_ready_list two_threads = 0xc0005000" "status (tasks two_threads 0xc009e000) = TASK_RUNNING"
    "status (tasks two_threads (idle_thread two_threads)) = TASK_READY" by code_simp+
  then show ?thesis using two_threads_ok(1,4)
    by (simp add: fresh_lock_def waiters_def lock_sema_def tail_of_def general_tag_def)
qed

lemma two_threads_trying:
  "lock_reach 0xc0006000 (lock_init 0xc0006000 two_threads, \<lambda>_. Outside)
     (lock_init 0xc0006000 two_threads, (\<lambda>_. Outside)(0xc009e000 := Trying))"
proof -
  let ?s = "lock_init 0xc0006000 two_threads"
  have r: "running_thread ?s = 0xc009e000" "idle_thread ?s = 0xc0100000" "holder (locks ?s 0xc0006000) = NULL" by code_simp+
  have "lock_step 0xc0006000 (?s, \<lambda>_. Outside) (?s, (\<lambda>_. Outside)(running_thread ?s := Trying))"
    by (rule lock_step.acquire) (simp_all add: r)
  then show ?thesis using lock_reach.step [OF lock_reach.start] r(1) by fastforce
qed






text \<open>
  A free lock, taken and released by the same thread, is free again. \<open>lock_acquire\<close> on a free lock returns without giving up the processor (whatever \<open>others\<close> is),
  taking it again only counts, and as many releases as acquisitions give back exactly the initial state when nobody has queued up.
\<close>

theorem lock_reentrant_roundtrip:
  assumes "locks s l = \<lparr>holder = NULL, holder_repeat_nr = 0\<rparr>" "svalue (semas s (lock_sema l)) = 1" "running_thread s \<noteq> NULL"
    "list_empty (waiters (lock_sema l)) s"
  shows "\<exists>s1 s2. lock_acquire others l s = Some s1 \<and> lock_acquire others l s1 = Some s2 \<and>
    holder (locks s2 l) = running_thread s \<and> holder_repeat_nr (locks s2 l) = 2 \<and> svalue (semas s2 (lock_sema l)) = 0 \<and>
    lock_release l s2 = Some s1 \<and> lock_release l s1 = Some s"
proof -
  let ?s1 = "upd_lock l (\<lambda>k. k\<lparr>holder := running_thread s, holder_repeat_nr := 1\<rparr>) (set_value (lock_sema l) 0 s)"
  let ?s2 = "lock_again l ?s1"
  have r: "running_thread ?s1 = running_thread s" "running_thread ?s2 = running_thread s" by (simp_all add: running_thread_def lock_again_def)
  have a1: "lock_acquire others l s = Some ?s1" using assms by (intro lock_acquire_free) simp_all
  have a2: "lock_acquire others l ?s1 = Some ?s2" by (simp add: lock_acquire_def r)
  have "lock_release l ?s2 = Some ?s1"
    using assms(1) r by (simp add: lock_release_def lock_disown_def lock_again_def) (simp add: upd_lock_def)
  moreover have "lock_release l ?s1 = Some s"
  proof -
    have "lock_release l ?s1 = Some (set_value (lock_sema l) 1 (upd_lock l (\<lambda>k. k\<lparr>holder := NULL, holder_repeat_nr := 0\<rparr>) ?s1))"
      using assms r by (intro lock_release_last) (simp_all add: list_empty_def)
    also have "set_value (lock_sema l) 1 (upd_lock l (\<lambda>k. k\<lparr>holder := NULL, holder_repeat_nr := 0\<rparr>) ?s1) = s"
      using assms(1,2) by (simp add: set_value_def upd_lock_def fun_upd_idem)
    finally show ?thesis .
  qed
  ultimately show ?thesis using a1 a2 r by (intro exI [of _ ?s1] exI [of _ ?s2]) (simp add: lock_again_def)
qed

theorem lock_reentrant_roundtrip_witness:
  "let s = lock_init 0xc0006000 two_threads
   in \<exists>s1. lock_acquire (\<lambda>_ _. None) 0xc0006000 s = Some s1 \<and> lock_release 0xc0006000 s1 = Some s"
proof -
  let ?s = "lock_init 0xc0006000 two_threads"
  have "holder (locks ?s 0xc0006000) = NULL" "holder_repeat_nr (locks ?s 0xc0006000) = 0" "svalue (semas ?s (lock_sema 0xc0006000)) = 1"
    "running_thread ?s \<noteq> NULL" "list_empty (waiters (lock_sema 0xc0006000)) ?s" by code_simp+
  then have "locks ?s 0xc0006000 = \<lparr>holder = NULL, holder_repeat_nr = 0\<rparr>" by simp
  from lock_reentrant_roundtrip [OF this, of "\<lambda>_ _. None"] \<open>running_thread ?s \<noteq> NULL\<close> \<open>list_empty (waiters (lock_sema 0xc0006000)) ?s\<close>
    \<open>svalue (semas ?s (lock_sema 0xc0006000)) = 1\<close>
  show ?thesis by (auto simp: Let_def)
qed

end
