(* ===== verification/IOQueue.thy ===== *)
theory IOQueue
  imports Sync "HOL-Library.Signed_Division"
begin

text \<open>
  \<^verbatim>\<open>device/ioqueue.c\<close>: the ring buffer between the keyboard interrupt and its readers. The record \<open>iosys\<close> adds the
  ring buffers by address (the lock of a buffer is the lock at the same address) and the state of the
  keyboard driver. \<open>ring_put\<close> and \<open>ring_get\<close> are the array and cursor updates; \<open>ioq_putchar\<close> and \<open>ioq_getchar\<close> wait for room or
  for a character first and wake the other side afterwards.

  The lemmas show that a ring buffer is a first-in first-out queue of at most 63 characters (an interpretation of the
  locale \<open>fifo\<close>), and what the two operations do when they need not wait.
\<close>

definition bufsize :: nat where
  "bufsize = 64"

record ioqueue =
  producer :: addr
  consumer :: addr
  ring_buf :: "u8 list"
  ring_head :: u32
  ring_tail :: u32

record kbd_state =
  ctrl_status :: bool
  shift_status :: bool
  alt_status :: bool
  caps_lock_status :: bool
  ext_scancode :: bool

record iosys = tsys +
  ioqs :: "addr \<Rightarrow> ioqueue"
  kbd_buf :: addr
  kbd :: kbd_state

section \<open>The operations\<close>

definition upd_ioq :: "addr \<Rightarrow> (ioqueue \<Rightarrow> ioqueue) \<Rightarrow> 'a iosys_scheme \<Rightarrow> 'a iosys_scheme" where
  "upd_ioq ioq f s = s\<lparr>ioqs := (ioqs s)(ioq := f (ioqs s ioq))\<rparr>"

definition ioqueue_init :: "addr \<Rightarrow> 'a iosys_scheme \<Rightarrow> 'a iosys_scheme" where
  "ioqueue_init ioq s =
     (let s = lock_init ioq s;
          s = upd_ioq ioq (\<lambda>q. q\<lparr>producer := NULL\<rparr>) s;
          s = upd_ioq ioq (\<lambda>q. q\<lparr>consumer := NULL\<rparr>) s;
          s = upd_ioq ioq (\<lambda>q. q\<lparr>ring_head := 0\<rparr>) s
      in upd_ioq ioq (\<lambda>q. q\<lparr>ring_tail := 0\<rparr>) s)"

text \<open>The C remainder of a signed division.\<close>

definition next_pos :: "u32 \<Rightarrow> u32" where
  "next_pos pos = word_of_int (sint (pos + 1) smod int bufsize)"

definition ioq_full :: "addr \<Rightarrow> 'a iosys_scheme \<Rightarrow> bool option" where
  "ioq_full ioq s = do {
     ASSERT (intr_get_status s = INTR_OFF);
     Some (next_pos (ring_head (ioqs s ioq)) = ring_tail (ioqs s ioq)) }"

definition ioq_empty :: "addr \<Rightarrow> 'a iosys_scheme \<Rightarrow> bool option" where
  "ioq_empty ioq s = do {
     ASSERT (intr_get_status s = INTR_OFF);
     Some (ring_head (ioqs s ioq) = ring_tail (ioqs s ioq)) }"

text \<open>The argument \<open>waiter\<close> is the address of one of the two pointers of the buffer.\<close>

datatype side = Producer | Consumer

definition waiter :: "side \<Rightarrow> ioqueue \<Rightarrow> addr" where
  "waiter w q = (case w of Producer \<Rightarrow> producer q | Consumer \<Rightarrow> consumer q)"

definition set_waiter :: "side \<Rightarrow> addr \<Rightarrow> ioqueue \<Rightarrow> ioqueue" where
  "set_waiter w t q = (case w of Producer \<Rightarrow> q\<lparr>producer := t\<rparr> | Consumer \<Rightarrow> q\<lparr>consumer := t\<rparr>)"

definition ioq_wait ::
    "(addr \<Rightarrow> 'a iosys_scheme \<Rightarrow> 'a iosys_scheme option) \<Rightarrow> addr \<Rightarrow> side \<Rightarrow> 'a iosys_scheme \<Rightarrow> 'a iosys_scheme option" where
  "ioq_wait others ioq w s = do {
     ASSERT (waiter w (ioqs s ioq) = NULL);
     let s = upd_ioq ioq (set_waiter w (running_thread s)) s;
     thread_block others TASK_BLOCKED s }"

definition wakeup :: "addr \<Rightarrow> side \<Rightarrow> 'a iosys_scheme \<Rightarrow> 'a iosys_scheme option" where
  "wakeup ioq w s = do {
     ASSERT (waiter w (ioqs s ioq) \<noteq> NULL);
     s \<leftarrow> thread_unblock (waiter w (ioqs s ioq)) s;
     Some (upd_ioq ioq (set_waiter w NULL) s) }"

definition ring_get :: "ioqueue \<Rightarrow> u8 \<times> ioqueue" where
  "ring_get q = (ring_buf q ! unat (ring_tail q), q\<lparr>ring_tail := next_pos (ring_tail q)\<rparr>)"

definition ring_put :: "u8 \<Rightarrow> ioqueue \<Rightarrow> ioqueue" where
  "ring_put byte q = q\<lparr>ring_buf := (ring_buf q)[unat (ring_head q) := byte], ring_head := next_pos (ring_head q)\<rparr>"

partial_function (option) getchar_wait ::
    "(addr \<Rightarrow> 'a iosys_scheme \<Rightarrow> 'a iosys_scheme option) \<Rightarrow> addr \<Rightarrow> 'a iosys_scheme \<Rightarrow> 'a iosys_scheme option" where
  "getchar_wait others ioq s = do {
     empty \<leftarrow> ioq_empty ioq s;
     (if empty then do {
        s \<leftarrow> lock_acquire others ioq s;
        s \<leftarrow> ioq_wait others ioq Consumer s;
        s \<leftarrow> lock_release ioq s;
        getchar_wait others ioq s }
      else Some s) }"

text \<open>An access outside the array of \<open>bufsize\<close> characters is outside the object.\<close>

definition ioq_getchar ::
    "(addr \<Rightarrow> 'a iosys_scheme \<Rightarrow> 'a iosys_scheme option) \<Rightarrow> addr \<Rightarrow> 'a iosys_scheme \<Rightarrow> (u8 \<times> 'a iosys_scheme) option" where
  "ioq_getchar others ioq s = do {
     ASSERT (intr_get_status s = INTR_OFF);
     s \<leftarrow> getchar_wait others ioq s;
     ASSERT (unat (ring_tail (ioqs s ioq)) < bufsize);
     let (byte, q) = ring_get (ioqs s ioq);
     let s = upd_ioq ioq (\<lambda>_. q) s;
     s \<leftarrow> (if producer (ioqs s ioq) \<noteq> NULL then wakeup ioq Producer s else Some s);
     Some (byte, s) }"

partial_function (option) putchar_wait ::
    "(addr \<Rightarrow> 'a iosys_scheme \<Rightarrow> 'a iosys_scheme option) \<Rightarrow> addr \<Rightarrow> 'a iosys_scheme \<Rightarrow> 'a iosys_scheme option" where
  "putchar_wait others ioq s = do {
     full \<leftarrow> ioq_full ioq s;
     (if full then do {
        s \<leftarrow> lock_acquire others ioq s;
        s \<leftarrow> ioq_wait others ioq Producer s;
        s \<leftarrow> lock_release ioq s;
        putchar_wait others ioq s }
      else Some s) }"

definition ioq_putchar ::
    "(addr \<Rightarrow> 'a iosys_scheme \<Rightarrow> 'a iosys_scheme option) \<Rightarrow> addr \<Rightarrow> u8 \<Rightarrow> 'a iosys_scheme \<Rightarrow> 'a iosys_scheme option" where
  "ioq_putchar others ioq byte s = do {
     ASSERT (intr_get_status s = INTR_OFF);
     s \<leftarrow> putchar_wait others ioq s;
     ASSERT (unat (ring_head (ioqs s ioq)) < bufsize);
     let s = upd_ioq ioq (ring_put byte) s;
     (if consumer (ioqs s ioq) \<noteq> NULL then wakeup ioq Consumer s else Some s) }"

section \<open>A ring buffer is a queue\<close>

definition ring_len :: "ioqueue \<Rightarrow> nat" where
  "ring_len q = (unat (ring_head q) + bufsize - unat (ring_tail q)) mod bufsize"

definition ring_ok :: "ioqueue \<Rightarrow> bool" where
  "ring_ok q \<longleftrightarrow> length (ring_buf q) = bufsize \<and> unat (ring_head q) < bufsize \<and> unat (ring_tail q) < bufsize"

definition ring_holds :: "ioqueue \<Rightarrow> u8 list \<Rightarrow> bool" where
  "ring_holds q xs \<longleftrightarrow> ring_ok q \<and> length xs = ring_len q \<and>
     (\<forall>i < length xs. xs ! i = ring_buf q ! ((unat (ring_tail q) + i) mod bufsize))"

lemma smod_nat: "int n smod 64 = int (n mod 64)"
  by (cases "n = 0") (simp_all add: smod_int_alt_def zmod_int)

lemma mod_64: "n < 128 \<Longrightarrow> n mod 64 = (if n < 64 then n else n - (64 :: nat))"
  by (auto simp: le_mod_geq)

lemma next_pos_unat:
  assumes "unat pos < bufsize"
  shows "unat (next_pos pos) = Suc (unat pos) mod bufsize"
proof -
  have u: "unat (pos + 1) = Suc (unat pos)" using assms by (subst unat_add_lt) (simp_all add: bufsize_def)
  then have "sint (pos + 1) = int (Suc (unat pos))" using assms sint_small [of "pos + 1"] by (simp add: bufsize_def)
  then have "next_pos pos = word_of_int (int (Suc (unat pos) mod 64))"
    by (simp only: next_pos_def smod_nat bufsize_def of_nat_numeral)
  also have "\<dots> = of_nat (Suc (unat pos) mod 64)" by (simp only: of_int_of_nat_eq)
  finally show ?thesis by (simp add: bufsize_def unat_of_nat_lt)
qed

text \<open>Index arithmetic around the ring.\<close>

lemma ring_arith:
  fixes h t i n :: nat
  assumes "h < 64" "t < 64" "n = (h + 64 - t) mod 64"
  shows "h = (t + n) mod 64" "n < 63 \<Longrightarrow> (Suc h mod 64 + 64 - t) mod 64 = Suc n"
    "0 < n \<Longrightarrow> (h + 64 - Suc t mod 64) mod 64 = n - 1" "i < n \<Longrightarrow> (t + i) mod 64 \<noteq> h"
    "(Suc t mod 64 + i) mod 64 = (t + Suc i) mod 64"
proof -
  have n: "n = (if t \<le> h then h - t else h + 64 - t)" using assms by (auto simp: mod_64)
  show "h = (t + n) mod 64" using assms(1,2) n by (auto simp: mod_64)
  show "(Suc h mod 64 + 64 - t) mod 64 = Suc n" if "n < 63" using assms(1,2) n that by (auto simp: mod_64 split: if_splits)
  show "(h + 64 - Suc t mod 64) mod 64 = n - 1" if "0 < n" using assms(1,2) n that by (auto simp: mod_64 split: if_splits)
  show "(t + i) mod 64 \<noteq> h" if "i < n" using assms(1,2) n that by (auto simp: mod_64 split: if_splits)
  show "(Suc t mod 64 + i) mod 64 = (t + Suc i) mod 64" by (simp add: mod_add_left_eq)
qed

lemma ring_put_holds:
  assumes "ring_holds q xs" "length xs < 63"
  shows "ring_holds (ring_put b q) (xs @ [b])"
proof -
  let ?h = "unat (ring_head q)" and ?t = "unat (ring_tail q)" and ?n = "length xs"
  have ok: "length (ring_buf q) = 64" "?h < 64" "?t < 64" "?n = (?h + 64 - ?t) mod 64"
    and xs: "\<forall>i < ?n. xs ! i = ring_buf q ! ((?t + i) mod 64)"
    using assms(1) by (simp_all add: ring_holds_def ring_ok_def ring_len_def bufsize_def)
  note ar = ring_arith [OF ok(2-4)]
  have h': "unat (next_pos (ring_head q)) = Suc ?h mod 64" using next_pos_unat ok(2) by (simp add: bufsize_def)
  have "(xs @ [b]) ! i = (ring_buf q)[?h := b] ! ((?t + i) mod 64)" if "i < Suc ?n" for i
  proof (cases "i = ?n")
    case True
    then show ?thesis unfolding True using ar(1) ok(1,2) by (simp del: mod_mod_trivial)
  next
    case False
    then show ?thesis using xs that ar(4) [of i] by (simp add: nth_append)
  qed
  moreover have "Suc ?n = (Suc ?h mod 64 + 64 - ?t) mod 64" using ar(2) assms(2) by simp
  ultimately show ?thesis
    using ok(1-3) h' by (simp add: ring_holds_def ring_ok_def ring_len_def bufsize_def ring_put_def)
qed

lemma ring_get_holds:
  assumes "ring_holds q (x # xs)"
  shows "fst (ring_get q) = x" "ring_holds (snd (ring_get q)) xs"
proof -
  let ?h = "unat (ring_head q)" and ?t = "unat (ring_tail q)"
  have ok: "length (ring_buf q) = 64" "?h < 64" "?t < 64" "Suc (length xs) = (?h + 64 - ?t) mod 64"
    and at: "\<forall>i < Suc (length xs). (x # xs) ! i = ring_buf q ! ((?t + i) mod 64)"
    using assms by (simp_all add: ring_holds_def ring_ok_def ring_len_def bufsize_def)
  note ar = ring_arith [OF ok(2-4)]
  have t': "unat (next_pos (ring_tail q)) = Suc ?t mod 64" using next_pos_unat ok(3) by (simp add: bufsize_def)
  show "fst (ring_get q) = x" using at ok(3) by (auto simp: ring_get_def)
  have "xs ! i = ring_buf q ! ((Suc ?t mod 64 + i) mod 64)" if "i < length xs" for i
    using at [rule_format, of "Suc i"] that ar(5) [of i] by simp
  then show "ring_holds (snd (ring_get q)) xs"
    using ok(1-3) t' ar(3) by (simp add: ring_holds_def ring_ok_def ring_len_def bufsize_def ring_get_def)
qed

interpretation rq: fifo ring_holds "\<lambda>xs e. length xs < 63" ring_put ring_get
  by unfold_locales (simp_all add: ring_put_holds ring_get_holds)

lemma ring_tests:
  assumes "ring_holds q xs"
  shows "next_pos (ring_head q) = ring_tail q \<longleftrightarrow> length xs = 63" "ring_head q = ring_tail q \<longleftrightarrow> xs = []" "length xs \<le> 63"
    "unat (ring_head q) < bufsize" "unat (ring_tail q) < bufsize"
proof -
  let ?h = "unat (ring_head q)" and ?t = "unat (ring_tail q)"
  have ok: "?h < 64" "?t < 64" "length xs = (?h + 64 - ?t) mod 64"
    using assms by (simp_all add: ring_holds_def ring_ok_def ring_len_def bufsize_def)
  have "next_pos (ring_head q) = ring_tail q \<longleftrightarrow> Suc ?h mod 64 = ?t"
    using next_pos_unat [of "ring_head q"] ok(1) by (auto simp: bufsize_def word_unat_eq_iff)
  also have "\<dots> \<longleftrightarrow> length xs = 63" unfolding ok(3) using ok(1,2) by (auto simp: mod_64 split: if_splits)
  finally show "next_pos (ring_head q) = ring_tail q \<longleftrightarrow> length xs = 63" .
  have "ring_head q = ring_tail q \<longleftrightarrow> ?h = ?t" by (simp add: word_unat_eq_iff)
  also have "\<dots> \<longleftrightarrow> length xs = 0" unfolding ok(3) using ok(1,2) by (auto simp: mod_64 split: if_splits)
  finally show "ring_head q = ring_tail q \<longleftrightarrow> xs = []" by simp
  have "length xs < 64" unfolding ok(3) by simp
  then show "length xs \<le> 63" by simp
  show "unat (ring_head q) < bufsize" "unat (ring_tail q) < bufsize" using ok by (simp_all add: bufsize_def)
qed

section \<open>The operations when they need not wait\<close>

lemma ioq_putchar_room:
  assumes "ring_holds (ioqs s ioq) xs" "length xs < 63" "intr_get_status s = INTR_OFF" "consumer (ioqs s ioq) = NULL"
  shows "ioq_putchar others ioq b s = Some (upd_ioq ioq (ring_put b) s)"
  using assms ring_tests [OF assms(1)]
  by (simp add: ioq_putchar_def putchar_wait.simps ioq_full_def upd_ioq_def ring_put_def)

lemma ioq_getchar_some:
  assumes "ring_holds (ioqs s ioq) (x # xs)" "intr_get_status s = INTR_OFF" "producer (ioqs s ioq) = NULL"
  shows "ioq_getchar others ioq s = Some (x, upd_ioq ioq (\<lambda>q. snd (ring_get q)) s)"
  using assms ring_tests [OF assms(1)] ring_get_holds(1) [OF assms(1)]
  by (simp add: ioq_getchar_def getchar_wait.simps ioq_empty_def upd_ioq_def ring_get_def)

lemma wakeup_ok:
  assumes "sched_ok T rs s" "waiter w (ioqs s ioq) \<in> T" "blocked_status (status (tasks s (waiter w (ioqs s ioq))))"
  shows "wakeup ioq w s = Some (upd_ioq ioq (set_waiter w NULL) (woken (waiter w (ioqs s ioq)) s))"
    "sched_ok T (waiter w (ioqs s ioq) # rs) (upd_ioq ioq (set_waiter w NULL) (woken (waiter w (ioqs s ioq)) s))"
proof -
  have "waiter w (ioqs s ioq) \<noteq> NULL" using sched_okD(5) [OF assms(1)] assms(2) by auto
  then show "wakeup ioq w s = Some (upd_ioq ioq (set_waiter w NULL) (woken (waiter w (ioqs s ioq)) s))"
    using thread_unblock_eq [OF assms] by (simp add: wakeup_def)
  show "sched_ok T (waiter w (ioqs s ioq) # rs) (upd_ioq ioq (set_waiter w NULL) (woken (waiter w (ioqs s ioq)) s))"
    using woken_ok [OF assms] by (subst sched_ok_cong [of _ "woken (waiter w (ioqs s ioq)) s"]) (simp_all add: upd_ioq_def)
qed

lemma ioq_putchar_delivers_aux:
  assumes "ring_holds (ioqs s ioq) xs" "length xs < 63" "intr_get_status s = INTR_OFF" "sched_ok T rs s"
    and "consumer (ioqs s ioq) = NULL \<or> consumer (ioqs s ioq) \<in> T \<and> blocked_status (status (tasks s (consumer (ioqs s ioq))))"
  shows "\<exists>s'. ioq_putchar others ioq b s = Some s' \<and> ring_holds (ioqs s' ioq) (xs @ [b]) \<and> consumer (ioqs s' ioq) = NULL \<and>
    sched_ok T (if consumer (ioqs s ioq) = NULL then rs else consumer (ioqs s ioq) # rs) s'"
proof -
  let ?s = "upd_ioq ioq (ring_put b) s" and ?c = "consumer (ioqs s ioq)"
  have ok: "sched_ok T rs ?s" using assms(4) by (subst sched_ok_cong [of _ s]) (simp_all add: upd_ioq_def)
  have q: "ring_holds (ioqs ?s ioq) (xs @ [b])" using ring_put_holds [OF assms(1,2)] by (simp add: upd_ioq_def)
  have c: "consumer (ioqs ?s ioq) = ?c" by (simp add: upd_ioq_def ring_put_def)
  have put: "ioq_putchar others ioq b s = (if ?c \<noteq> NULL then wakeup ioq Consumer ?s else Some ?s)"
    using assms(1-3) ring_tests [OF assms(1)] c by (simp add: ioq_putchar_def putchar_wait.simps ioq_full_def)
  show ?thesis
  proof (cases "?c = NULL")
    case True
    then show ?thesis using put q ok c by auto
  next
    case False
    let ?s2 = "upd_ioq ioq (set_waiter Consumer NULL) (woken ?c ?s)"
    have w: "waiter Consumer (ioqs ?s ioq) = ?c" using c by (simp add: waiter_def)
    have i: "ioqs (woken ?c ?s) = ioqs ?s" by (simp add: woken_def set_status_def upd_task_def list_push_def list_insert_before_eq)
    have "wakeup ioq Consumer ?s = Some ?s2" "sched_ok T (?c # rs) ?s2"
      using wakeup_ok [OF ok, of Consumer ioq] w False assms(5) by (simp_all add: upd_ioq_def)
    moreover have "ring_holds (ioqs ?s2 ioq) (xs @ [b])"
      using q i by (simp add: upd_ioq_def set_waiter_def ring_holds_def ring_ok_def ring_len_def)
    moreover have "consumer (ioqs ?s2 ioq) = NULL" by (simp add: upd_ioq_def set_waiter_def)
    ultimately show ?thesis using put False by auto
  qed
qed

section \<open>Claims\<close>

text \<open>
  C23. The ring buffer is a first-in first-out queue. For every sequence of puts and gets that a queue of capacity 63 accepts, the
  array with its two wrapping cursors delivers the same characters in the same order and holds the same characters afterwards.
\<close>

theorem ring_queue_fifo:
  assumes "ring_holds q xs" "run_spec (\<lambda>xs e. length xs < 63) cs xs = Some (out, ys)"
  shows "fst (run_ops ring_put ring_get cs q) = out \<and> ring_holds (snd (run_ops ring_put ring_get cs q)) ys"
  using rq.run_queue [OF assms(2,1)] by blast

text \<open>An empty buffer whose cursors stand at the last place of the array.\<close>

definition empty_ring :: ioqueue where
  "empty_ring = \<lparr>producer = 0, consumer = 0, ring_buf = replicate 64 0, ring_head = 63, ring_tail = 63\<rparr>"

lemma empty_ring_holds: "ring_holds empty_ring []"
  by (simp add: ring_holds_def ring_ok_def ring_len_def empty_ring_def bufsize_def)

theorem ring_queue_fifo_witness:
  "fst (run_ops ring_put ring_get [Put 97, Put 98, Get, Put 99, Get] empty_ring) = [97, 98]"
  using ring_queue_fifo [OF empty_ring_holds, of "[Put 97, Put 98, Get, Put 99, Get]"] by simp

text \<open>
  C33. Handing a character over. With interrupts off and room in the buffer \<open>ioq_putchar\<close> returns without giving up the processor and appends the
  character; a reader that was waiting for it is made the first ready thread and is no longer recorded as waiting.
\<close>

theorem ioq_putchar_delivers:
  assumes "ring_holds (ioqs s ioq) xs" "length xs < 63" "intr_get_status s = INTR_OFF" "sched_ok T rs s"
    and "consumer (ioqs s ioq) = NULL \<or> consumer (ioqs s ioq) \<in> T \<and> blocked_status (status (tasks s (consumer (ioqs s ioq))))"
  shows "\<exists>s'. ioq_putchar others ioq b s = Some s' \<and> ring_holds (ioqs s' ioq) (xs @ [b]) \<and> consumer (ioqs s' ioq) = NULL \<and>
    sched_ok T (if consumer (ioqs s ioq) = NULL then rs else consumer (ioqs s ioq) # rs) s'"
  using assms by (rule ioq_putchar_delivers_aux)

text \<open>The two threads of \<^verbatim>\<open>Thread\<close> with a keyboard buffer at \<open>0xc0007000\<close>.\<close>

definition two_threads_io :: iosys where
  "two_threads_io = tsys.extend two_threads
     \<lparr>ioqs = (\<lambda>_. empty_ring), kbd_buf = 0xc0007000,
      kbd = \<lparr>ctrl_status = False, shift_status = False, alt_status = False, caps_lock_status = False, ext_scancode = False\<rparr>\<rparr>"

lemma two_threads_io_ok:
  "sched_ok {0xc009e000, 0xc0100000} [0xc0100000] two_threads_io" "intr_get_status two_threads_io = INTR_OFF"
  "ioqs two_threads_io = (\<lambda>_. empty_ring)"
proof -
  have d: "dirs_ok T two_threads_io \<longleftrightarrow> dirs_ok T two_threads" for T
    unfolding dirs_ok_def addr_v2p_def ld_tab_def translate_def pde_at_def pte_at_def two_threads_io_def tsys.defs by simp
  show "sched_ok {0xc009e000, 0xc0100000} [0xc0100000] two_threads_io"
    using two_threads_ok(1) d unfolding sched_ok_def running_thread_def two_threads_io_def tsys.defs by simp
  show "intr_get_status two_threads_io = INTR_OFF" using two_threads_ok(3) by (simp add: intr_get_status_def two_threads_io_def tsys.defs)
  show "ioqs two_threads_io = (\<lambda>_. empty_ring)" by (simp add: two_threads_io_def tsys.defs)
qed

theorem ioq_putchar_delivers_witness:
  "\<exists>s'. ioq_putchar (\<lambda>_ _. None) 0xc0007000 97 two_threads_io = Some s' \<and> ring_holds (ioqs s' 0xc0007000) [97]"
  using ioq_putchar_delivers [of two_threads_io "0xc0007000" "[]" "{0xc009e000, 0xc0100000}" "[0xc0100000]" "\<lambda>_ _. None" 97]
    two_threads_io_ok empty_ring_holds by (auto simp: empty_ring_def)

end
