(* ===== verification/Alloc.thy ===== *)
theory Alloc
  imports Bitmap
begin

text \<open>
  The contract shared by the allocators that keep their units in a bitmap: the physical pages of \<open>palloc\<close> and \<open>pfree\<close>
  (\<^verbatim>\<open>kernel/memory.c\<close>), and the inodes and blocks of a partition. An allocation takes the lowest free unit and marks it, a release clears
  its mark, and an allocation with nothing free never returns, because \<open>bitmap_scan\<close> fails its assertion. The client lemmas say that
  a sequence of allocations yields distinct units that were free before, and that releasing a unit undoes its allocation.
\<close>

lemma of_nat_not_minus_1:
  assumes "i < 2 ^ 31"
  shows "(of_nat i :: u32) \<noteq> - 1"
proof
  assume e: "(of_nat i :: u32) = - 1"
  have "unat (of_nat i + 1 :: u32) = Suc i" using assms by (subst unat_add_lt) (simp_all add: unat_of_nat_lt)
  then show False unfolding e by simp
qed

lemma scan_one:
  assumes "bm_ok btmp" "\<exists>i < bm_bits btmp. \<not> used btmp m i"
  shows "\<exists>i. bitmap_scan btmp 1 m = Some (of_nat i) \<and> i < bm_bits btmp \<and> \<not> used btmp m i \<and> (\<forall>j < i. used btmp m j) \<and>
    (of_nat i :: u32) \<noteq> - 1"
proof -
  obtain k where k: "k < bm_bits btmp" "\<not> used btmp m k" using assms(2) by blast
  obtain i where i: "first_fit btmp m (bm_bits btmp) 1 = Some i"
    using k by (cases "first_fit btmp m (bm_bits btmp) 1") (auto simp: first_fit_def find_upt_None free_run_def)
  then have f: "i < bm_bits btmp" "\<not> used btmp m i" "\<forall>j < i. used btmp m j"
    by (auto simp: first_fit_def find_upt_Some free_run_def)
  have "bitmap_scan btmp 1 m = Some (of_nat i)" using scan_first_fit [OF assms(1) k, of 1] i by simp
  moreover have "(of_nat i :: u32) \<noteq> - 1" using f(1) bm_bits_bound [OF assms(1)] by (intro of_nat_not_minus_1) simp
  ultimately show ?thesis using f by blast
qed

lemma scan_none:
  assumes "\<forall>i < bm_bits btmp. used btmp m i"
  shows "bitmap_scan btmp cnt m = None"
  using bitmap_scan_bytes_full [OF assms] by (simp add: bitmap_scan_def)

primrec alloc_many :: "('s \<Rightarrow> ('r \<times> 's) option) \<Rightarrow> nat \<Rightarrow> 's \<Rightarrow> ('r list \<times> 's) option" where
  "alloc_many alloc 0 s = Some ([], s)"
| "alloc_many alloc (Suc n) s = do {
     (r, s) \<leftarrow> alloc s;
     (rs, s) \<leftarrow> alloc_many alloc n s;
     Some (r # rs, s) }"

lemma alloc_many_keeps:
  assumes "\<And>s r s'. P s \<Longrightarrow> alloc s = Some (r, s') \<Longrightarrow> P s'" "P s" "alloc_many alloc n s = Some (rs, s')"
  shows "P s'"
  using assms(2,3)
proof (induction n arbitrary: s rs)
  case (Suc n)
  from Suc.prems(2) obtain r s1 rs1 where "alloc s = Some (r, s1)" "alloc_many alloc n s1 = Some (rs1, s')"
    by (auto split: Option.bind_splits)
  then show ?case using Suc.IH assms(1) Suc.prems(1) by blast
qed simp

definition vacant :: "('s \<Rightarrow> nat) \<Rightarrow> ('s \<Rightarrow> nat \<Rightarrow> bool) \<Rightarrow> 's \<Rightarrow> nat set" where
  "vacant units taken s = {i. i < units s \<and> \<not> taken s i}"

lemma finite_vacant: "finite (vacant units taken s)"
  by (simp add: vacant_def)

locale bit_allocator =
  fixes units :: "'s \<Rightarrow> nat"
    and taken :: "'s \<Rightarrow> nat \<Rightarrow> bool"
    and ok :: "'s \<Rightarrow> bool"
    and name_of :: "'s \<Rightarrow> nat \<Rightarrow> 'r"
    and alloc :: "'s \<Rightarrow> ('r \<times> 's) option"
    and release :: "'r \<Rightarrow> 's \<Rightarrow> 's option"
  assumes alloc_law: "ok s \<Longrightarrow> \<exists>i < units s. \<not> taken s i \<Longrightarrow>
      \<exists>i s'. alloc s = Some (name_of s i, s') \<and> i < units s \<and> \<not> taken s i \<and> (\<forall>j < units s. taken s' j \<longleftrightarrow> taken s j \<or> j = i) \<and>
        ok s' \<and> units s' = units s \<and> name_of s' = name_of s"
    and alloc_none: "\<forall>i < units s. taken s i \<Longrightarrow> alloc s = None"
    and release_law: "ok s \<Longrightarrow> i < units s \<Longrightarrow>
      \<exists>s'. release (name_of s i) s = Some s' \<and> (\<forall>j < units s. taken s' j \<longleftrightarrow> taken s j \<and> j \<noteq> i) \<and>
        ok s' \<and> units s' = units s \<and> name_of s' = name_of s"
    and name_inj: "ok s \<Longrightarrow> inj_on (name_of s) {..<units s}"
begin

lemma alloc_vacant:
  assumes "ok s" "vacant units taken s \<noteq> {}"
  obtains i s' where "alloc s = Some (name_of s i, s')" "i \<in> vacant units taken s" "vacant units taken s' = vacant units taken s - {i}" "ok s'"
    "units s' = units s" "name_of s' = name_of s"
proof -
  have "\<exists>i < units s. \<not> taken s i" using assms(2) by (auto simp: vacant_def)
  from alloc_law [OF assms(1) this] obtain i s' where *: "alloc s = Some (name_of s i, s')" "i < units s" "\<not> taken s i"
    "\<forall>j < units s. taken s' j \<longleftrightarrow> taken s j \<or> j = i" "ok s'" "units s' = units s" "name_of s' = name_of s" by blast
  then have "vacant units taken s' = vacant units taken s - {i}" by (auto simp: vacant_def)
  with * show ?thesis by (intro that [of i s']) (auto simp: vacant_def)
qed

lemma allocs_distinct:
  assumes "ok s" "n \<le> card (vacant units taken s)"
  shows "\<exists>is s'. alloc_many alloc n s = Some (map (name_of s) is, s') \<and> length is = n \<and> distinct (map (name_of s) is) \<and>
    set is \<subseteq> vacant units taken s \<and> vacant units taken s' = vacant units taken s - set is \<and> ok s' \<and> units s' = units s \<and> name_of s' = name_of s"
  using assms
proof (induction n arbitrary: s)
  case 0
  then show ?case by (intro exI [of _ "[]"] exI [of _ s]) simp
next
  case (Suc n)
  then have "vacant units taken s \<noteq> {}" by auto
  with Suc.prems(1) obtain i s1 where a: "alloc s = Some (name_of s i, s1)" "i \<in> vacant units taken s" "vacant units taken s1 = vacant units taken s - {i}" "ok s1"
    "units s1 = units s" "name_of s1 = name_of s" by (rule alloc_vacant)
  have "n \<le> card (vacant units taken s1)" using Suc.prems(2) a(2,3) finite_vacant by simp
  from Suc.IH [OF a(4) this] obtain "is" s' where r: "alloc_many alloc n s1 = Some (map (name_of s) is, s')" "length is = n"
    "distinct (map (name_of s) is)" "set is \<subseteq> vacant units taken s - {i}" "vacant units taken s' = vacant units taken s - {i} - set is" "ok s'" "units s' = units s"
    "name_of s' = name_of s" using a by auto
  have "name_of s i \<notin> name_of s ` set is"
    using name_inj [OF Suc.prems(1)] r(4) a(2) by (auto simp: inj_on_def vacant_def subset_iff)
  then show ?case using a r by (intro exI [of _ "i # is"] exI [of _ s']) auto
qed

lemma release_undoes:
  assumes "ok s" "alloc s = Some (r, s1)"
  shows "\<exists>s2. release r s1 = Some s2 \<and> vacant units taken s2 = vacant units taken s \<and> ok s2"
proof -
  have "vacant units taken s \<noteq> {}" using alloc_none [of s] assms(2) by (auto simp: vacant_def)
  with assms(1) obtain i s' where a: "alloc s = Some (name_of s i, s')" "i \<in> vacant units taken s" "vacant units taken s' = vacant units taken s - {i}" "ok s'"
    "units s' = units s" "name_of s' = name_of s" by (rule alloc_vacant)
  then have s1: "s1 = s'" "r = name_of s' i" using assms(2) by auto
  have "i < units s'" using a by (simp add: vacant_def)
  from release_law [OF a(4) this] obtain s2 where "release (name_of s' i) s' = Some s2" "\<forall>j < units s'. taken s2 j \<longleftrightarrow> taken s' j \<and> j \<noteq> i"
    "ok s2" "units s2 = units s'" by blast
  moreover from this have "vacant units taken s2 = insert i (vacant units taken s')" using \<open>i < units s'\<close> by (auto simp: vacant_def)
  ultimately show ?thesis using s1 a(2,3) by auto
qed

end

end
