(* ===== verification/Memory.thy ===== *)
theory Memory
  imports IOQueue CString Alloc
begin

text \<open>
  \<^verbatim>\<open>kernel/memory.c\<close>: the physical page pools, the virtual address pools, the page tables and the kernel heap. The record \<open>memsys\<close>
  adds the two pools, the virtual addresses of the kernel and the address of the array of kernel block
  descriptors. The bitmaps and the arena headers (\<open>desc\<close> at offset 0, \<open>cnt\<close> at 4, \<open>large\<close> at 8, 12 bytes) are bytes of memory, page table words are accessed
  through their virtual addresses, and the free blocks of the heap are link cells at the address of the block.

  Every operation is the code with all its branches. The first lemmas are on the allocation of pages and on what
  \<open>page_table_add\<close> does to the translation of all addresses; then come the layout of the pools, the geometry of arenas, and allocation and
  release of small blocks.
\<close>

section \<open>State\<close>

datatype pool_flags = PF_KERNEL | PF_USER

record pool =
  pool_bitmap :: bitmap
  phy_addr_start :: addr
  pool_size :: u32
  pool_lock :: addr

record memsys = iosys +
  kernel_pool :: pool
  user_pool :: pool
  kernel_vaddr :: virtual_addr
  k_block_descs :: addr

definition DESC_CNT :: nat where
  "DESC_CNT = 7"

definition pool_of :: "pool_flags \<Rightarrow> 'a memsys_scheme \<Rightarrow> pool" where
  "pool_of pf s = (case pf of PF_KERNEL \<Rightarrow> kernel_pool s | PF_USER \<Rightarrow> user_pool s)"

text \<open>The virtual address pool that the code selects by the flag.\<close>

definition vpool :: "pool_flags \<Rightarrow> 'a memsys_scheme \<Rightarrow> virtual_addr" where
  "vpool pf s = (case pf of PF_KERNEL \<Rightarrow> kernel_vaddr s | PF_USER \<Rightarrow> userprog_vaddr (tasks s (running_thread s)))"

section \<open>Pages\<close>

text \<open>The loops that set the bits of a run of pages.\<close>

function set_bits :: "bitmap \<Rightarrow> u32 \<Rightarrow> u32 \<Rightarrow> u32 \<Rightarrow> u8 \<Rightarrow> memory \<Rightarrow> memory option" where
  "set_bits btmp bit_idx_start cnt pg_cnt v m =
     (if cnt < pg_cnt then do {
        m \<leftarrow> bitmap_set btmp (bit_idx_start + cnt) v m;
        set_bits btmp bit_idx_start (cnt + 1) pg_cnt v m }
      else Some m)"
  by pat_completeness auto
termination
  by (relation "measure (\<lambda>(btmp, st, cnt, n, v, m). unat n - unat cnt)") (auto simp: word_measure_less)

definition vaddr_get :: "pool_flags \<Rightarrow> u32 \<Rightarrow> 'a memsys_scheme \<Rightarrow> (addr \<times> 'a memsys_scheme) option" where
  "vaddr_get pf pg_cnt s = do {
     let p = vpool pf s;
     bit_idx_start \<leftarrow> bitmap_scan (vaddr_bitmap p) pg_cnt (mem s);
     (if bit_idx_start = - 1 then Some (NULL, s)
      else do {
        m \<leftarrow> set_bits (vaddr_bitmap p) bit_idx_start 0 pg_cnt 1 (mem s);
        let vaddr = vaddr_start p + bit_idx_start * PG_SIZE;
        (case pf of PF_KERNEL \<Rightarrow> Some () | PF_USER \<Rightarrow> ASSERT (vaddr < 0xc0000000 - PG_SIZE));
        Some (vaddr, s\<lparr>mem := m\<rparr>) }) }"

definition palloc :: "pool_flags \<Rightarrow> 'a memsys_scheme \<Rightarrow> (addr \<times> 'a memsys_scheme) option" where
  "palloc pf s = do {
     let p = pool_of pf s;
     bit_idx \<leftarrow> bitmap_scan (pool_bitmap p) 1 (mem s);
     (if bit_idx = - 1 then Some (NULL, s)
      else do {
        m \<leftarrow> bitmap_set (pool_bitmap p) bit_idx 1 (mem s);
        Some (bit_idx * PG_SIZE + phy_addr_start p, s\<lparr>mem := m\<rparr>) }) }"

text \<open>\<open>7\<close> is \<open>PG_US_U | PG_RW_W | PG_P_1\<close>.\<close>

definition page_table_add :: "addr \<Rightarrow> addr \<Rightarrow> 'a memsys_scheme \<Rightarrow> 'a memsys_scheme option" where
  "page_table_add vaddr page_phyaddr s = do {
     let pde = pde_ptr vaddr;
     let pte = pte_ptr vaddr;
     pdev \<leftarrow> ld_tab pde s;
     (if pdev AND 1 \<noteq> 0 then do {
        ptev \<leftarrow> ld_tab pte s;
        ASSERT (\<not> ptev AND 1 \<noteq> 0);
        ptev \<leftarrow> ld_tab pte s;
        (if \<not> ptev AND 1 \<noteq> 0 then st_tab pte (page_phyaddr OR 7) s else None) }
      else do {
        (pde_phyaddr, s) \<leftarrow> palloc PF_KERNEL s;
        s \<leftarrow> st_tab pde (pde_phyaddr OR 7) s;
        s \<leftarrow> zero_tab (pte AND 0xfffff000) s;
        ptev \<leftarrow> ld_tab pte s;
        ASSERT (\<not> ptev AND 1 \<noteq> 0);
        st_tab pte (page_phyaddr OR 7) s }) }"

text \<open>The loop of \<open>malloc_page\<close>; the flag says that every page was mapped.\<close>

function malloc_pages_loop :: "pool_flags \<Rightarrow> addr \<Rightarrow> u32 \<Rightarrow> 'a memsys_scheme \<Rightarrow> (bool \<times> 'a memsys_scheme) option" where
  "malloc_pages_loop pf vaddr cnt s =
     (if cnt = 0 then Some (True, s)
      else do {
        (page_phyaddr, s) \<leftarrow> palloc pf s;
        (if page_phyaddr = NULL then Some (False, s)
         else do {
           s \<leftarrow> page_table_add vaddr page_phyaddr s;
           malloc_pages_loop pf (vaddr + PG_SIZE) (cnt - 1) s }) })"
  by pat_completeness auto
termination
  by (relation "measure (\<lambda>(pf, va, cnt, s). unat cnt)") (auto simp: unat_minus_one_less)

definition malloc_page :: "pool_flags \<Rightarrow> u32 \<Rightarrow> 'a memsys_scheme \<Rightarrow> (addr \<times> 'a memsys_scheme) option" where
  "malloc_page pf pg_cnt s = do {
     ASSERT (0 < pg_cnt \<and> pg_cnt < 3840);
     (vaddr, s) \<leftarrow> vaddr_get pf pg_cnt s;
     (if vaddr = NULL then Some (NULL, s)
      else do {
        (done, s) \<leftarrow> malloc_pages_loop pf vaddr pg_cnt s;
        Some (if done then vaddr else NULL, s) }) }"

definition get_kernel_pages :: "u32 \<Rightarrow> 'a memsys_scheme \<Rightarrow> (addr \<times> 'a memsys_scheme) option" where
  "get_kernel_pages pg_cnt s = do {
     (vaddr, s) \<leftarrow> malloc_page PF_KERNEL pg_cnt s;
     (if vaddr \<noteq> NULL then do {
        m \<leftarrow> memset vaddr 0 (pg_cnt * PG_SIZE) (mem s);
        Some (vaddr, s\<lparr>mem := m\<rparr>) }
      else Some (vaddr, s)) }"

definition get_user_pages ::
    "(addr \<Rightarrow> 'a memsys_scheme \<Rightarrow> 'a memsys_scheme option) \<Rightarrow> u32 \<Rightarrow> 'a memsys_scheme \<Rightarrow> (addr \<times> 'a memsys_scheme) option" where
  "get_user_pages others pg_cnt s = do {
     s \<leftarrow> lock_acquire others (pool_lock (user_pool s)) s;
     (vaddr, s) \<leftarrow> malloc_page PF_USER pg_cnt s;
     m \<leftarrow> memset vaddr 0 (pg_cnt * PG_SIZE) (mem s);
     s \<leftarrow> lock_release (pool_lock (user_pool s)) (s\<lparr>mem := m\<rparr>);
     Some (vaddr, s) }"

text \<open>A failing \<open>palloc\<close> leaves the function with the lock still held.\<close>

definition get_a_page ::
    "(addr \<Rightarrow> 'a memsys_scheme \<Rightarrow> 'a memsys_scheme option) \<Rightarrow> pool_flags \<Rightarrow> addr \<Rightarrow> 'a memsys_scheme \<Rightarrow> (addr \<times> 'a memsys_scheme) option" where
  "get_a_page others pf vaddr s = do {
     s \<leftarrow> lock_acquire others (pool_lock (pool_of pf s)) s;
     let cur = tasks s (running_thread s);
     m \<leftarrow> (if pgdir cur \<noteq> NULL \<and> pf = PF_USER then do {
              let bit_idx = (vaddr - vaddr_start (userprog_vaddr cur)) div PG_SIZE;
              ASSERT (0 < sint bit_idx);
              bitmap_set (vaddr_bitmap (userprog_vaddr cur)) bit_idx 1 (mem s) }
            else if pgdir cur = NULL \<and> pf = PF_KERNEL then do {
              let bit_idx = (vaddr - vaddr_start (kernel_vaddr s)) div PG_SIZE;
              ASSERT (0 < sint bit_idx);
              bitmap_set (vaddr_bitmap (kernel_vaddr s)) bit_idx 1 (mem s) }
            else None);
     (page_phyaddr, s) \<leftarrow> palloc pf (s\<lparr>mem := m\<rparr>);
     (if page_phyaddr = NULL then Some (NULL, s)
      else do {
        s \<leftarrow> page_table_add vaddr page_phyaddr s;
        s \<leftarrow> lock_release (pool_lock (pool_of pf s)) s;
        Some (vaddr, s) }) }"

definition pfree :: "addr \<Rightarrow> 'a memsys_scheme \<Rightarrow> 'a memsys_scheme option" where
  "pfree pg_phy_addr s = do {
     let p = (if phy_addr_start (user_pool s) \<le> pg_phy_addr then user_pool s else kernel_pool s);
     let bit_idx = (pg_phy_addr - phy_addr_start p) div PG_SIZE;
     m \<leftarrow> bitmap_set (pool_bitmap p) bit_idx 0 (mem s);
     Some (s\<lparr>mem := m\<rparr>) }"

definition vaddr_remove :: "pool_flags \<Rightarrow> addr \<Rightarrow> u32 \<Rightarrow> 'a memsys_scheme \<Rightarrow> 'a memsys_scheme option" where
  "vaddr_remove pf vaddr pg_cnt s = do {
     let p = vpool pf s;
     let bit_idx_start = (vaddr - vaddr_start p) div PG_SIZE;
     m \<leftarrow> set_bits (vaddr_bitmap p) bit_idx_start 0 pg_cnt 0 (mem s);
     Some (s\<lparr>mem := m\<rparr>) }"

text \<open>The two loops of \<open>mfree_page\<close>, one for pages of the user pool and one for pages of the kernel pool.\<close>

function mfree_loop :: "bool \<Rightarrow> addr \<Rightarrow> u32 \<Rightarrow> u32 \<Rightarrow> 'a memsys_scheme \<Rightarrow> 'a memsys_scheme option" where
  "mfree_loop user vaddr page_cnt pg_cnt s =
     (if page_cnt < pg_cnt then do {
        let vaddr = vaddr + PG_SIZE;
        pg_phy_addr \<leftarrow> addr_v2p vaddr s;
        ASSERT (pg_phy_addr mod PG_SIZE = 0 \<and>
          (if user then phy_addr_start (user_pool s) \<le> pg_phy_addr
           else phy_addr_start (kernel_pool s) \<le> pg_phy_addr \<and> pg_phy_addr < phy_addr_start (user_pool s)));
        s \<leftarrow> pfree pg_phy_addr s;
        s \<leftarrow> page_table_pte_remove vaddr s;
        mfree_loop user vaddr (page_cnt + 1) pg_cnt s }
      else Some s)"
  by pat_completeness auto
termination
  by (relation "measure (\<lambda>(u, va, cnt, n, s). unat n - unat cnt)") (auto simp: word_measure_less)

definition mfree_page :: "pool_flags \<Rightarrow> addr \<Rightarrow> u32 \<Rightarrow> 'a memsys_scheme \<Rightarrow> 'a memsys_scheme option" where
  "mfree_page pf vaddr pg_cnt s = do {
     ASSERT (1 \<le> pg_cnt \<and> vaddr mod PG_SIZE = 0);
     pg_phy_addr \<leftarrow> addr_v2p vaddr s;
     ASSERT (pg_phy_addr mod PG_SIZE = 0 \<and> 0x102000 \<le> pg_phy_addr);
     s \<leftarrow> mfree_loop (phy_addr_start (user_pool s) \<le> pg_phy_addr) (vaddr - PG_SIZE) 0 pg_cnt s;
     vaddr_remove pf vaddr pg_cnt s }"

section \<open>Initialisation\<close>

text \<open>The text printed on the way is not part of the state. Page counts are \<open>uint16_t\<close>.\<close>

definition mem_pool_init :: "u32 \<Rightarrow> 'a memsys_scheme \<Rightarrow> 'a memsys_scheme option" where
  "mem_pool_init all_mem s = do {
     let page_table_size = PG_SIZE * 256;
     let used_mem = page_table_size + 0x100000;
     let free_mem = all_mem - used_mem;
     let all_free_pages = (ucast (free_mem div PG_SIZE) :: u16);
     let kernel_free_pages = all_free_pages div 2;
     let user_free_pages = all_free_pages - kernel_free_pages;
     let kbm_length = (ucast (kernel_free_pages div 8) :: u32);
     let ubm_length = (ucast (user_free_pages div 8) :: u32);
     let kp_start = used_mem;
     let up_start = kp_start + ucast kernel_free_pages * PG_SIZE;
     let kp = (kernel_pool s)\<lparr>phy_addr_start := kp_start, pool_size := ucast kernel_free_pages * PG_SIZE,
                pool_bitmap := \<lparr>btmp_bytes_len = kbm_length, bits = 0xc009a000\<rparr>\<rparr>;
     let up = (user_pool s)\<lparr>phy_addr_start := up_start, pool_size := ucast user_free_pages * PG_SIZE,
                pool_bitmap := \<lparr>btmp_bytes_len = ubm_length, bits = 0xc009a000 + kbm_length\<rparr>\<rparr>;
     let s = s\<lparr>kernel_pool := kp, user_pool := up\<rparr>;
     m \<leftarrow> bitmap_init (pool_bitmap kp) (mem s);
     m \<leftarrow> bitmap_init (pool_bitmap up) m;
     let s = s\<lparr>mem := m\<rparr>;
     let s = lock_init (pool_lock (kernel_pool s)) s;
     let s = lock_init (pool_lock (user_pool s)) s;
     let kv = \<lparr>vaddr_bitmap = \<lparr>btmp_bytes_len = kbm_length, bits = 0xc009a000 + kbm_length + ubm_length\<rparr>,
               vaddr_start = 0xc0100000\<rparr>;
     let s = s\<lparr>kernel_vaddr := kv\<rparr>;
     m \<leftarrow> bitmap_init (vaddr_bitmap kv) (mem s);
     Some (s\<lparr>mem := m\<rparr>) }"

section \<open>The page allocator\<close>

text \<open>The pools lie one behind the other in the 32-bit physical address space, the kernel pool first.\<close>

definition pages_of :: "pool \<Rightarrow> nat" where
  "pages_of p = bm_bits (pool_bitmap p)"

definition page_used :: "pool_flags \<Rightarrow> 'a memsys_scheme \<Rightarrow> nat \<Rightarrow> bool" where
  "page_used pf s i = used (pool_bitmap (pool_of pf s)) (mem s) i"

definition page_frame :: "pool \<Rightarrow> nat \<Rightarrow> addr" where
  "page_frame p i = of_nat i * PG_SIZE + phy_addr_start p"

definition pools_ok :: "'a memsys_scheme \<Rightarrow> bool" where
  "pools_ok s \<longleftrightarrow> bm_ok (pool_bitmap (kernel_pool s)) \<and> bm_ok (pool_bitmap (user_pool s)) \<and>
     unat (phy_addr_start (kernel_pool s)) + 4096 * pages_of (kernel_pool s) \<le> unat (phy_addr_start (user_pool s)) \<and>
     unat (phy_addr_start (user_pool s)) + 4096 * pages_of (user_pool s) < 2 ^ 32 \<and>
     unat (bits (pool_bitmap (kernel_pool s))) + unat (btmp_bytes_len (pool_bitmap (kernel_pool s)))
       \<le> unat (bits (pool_bitmap (user_pool s))) \<and>
     unat (bits (pool_bitmap (user_pool s))) + unat (btmp_bytes_len (pool_bitmap (user_pool s))) < 2 ^ 32"

lemma pools_okD:
  assumes "pools_ok s"
  shows "bm_ok (pool_bitmap (pool_of pf s))" "unat (phy_addr_start (pool_of pf s)) + 4096 * pages_of (pool_of pf s) < 2 ^ 32"
  using assms unat_lt_32(1) [of "phy_addr_start (user_pool s)"]
  by (cases pf; simp add: pools_ok_def pool_of_def del: unat_lt_32)+

lemma page_frame_unat:
  assumes "pools_ok s" "i < pages_of (pool_of pf s)"
  shows "unat (page_frame (pool_of pf s) i) = unat (phy_addr_start (pool_of pf s)) + 4096 * i"
proof -
  have b: "unat (phy_addr_start (pool_of pf s)) + 4096 * i < 2 ^ 32" using pools_okD(2) [OF assms(1), of pf] assms(2) by linarith
  have "unat (of_nat i * PG_SIZE :: u32) = i * 4096"
  proof -
    have "(of_nat i * PG_SIZE :: u32) = of_nat (i * 4096)" by simp
    then show ?thesis using b by (simp only: unat_of_nat_lt) (intro unat_of_nat_lt, simp)
  qed
  then show ?thesis unfolding page_frame_def using b by (subst unat_add_lt) simp_all
qed

lemma page_frame_inj:
  assumes "pools_ok s"
  shows "inj_on (page_frame (pool_of pf s)) {..<pages_of (pool_of pf s)}"
proof (rule inj_onI)
  fix i j
  assume ij: "i \<in> {..<pages_of (pool_of pf s)}" "j \<in> {..<pages_of (pool_of pf s)}"
    and eq: "page_frame (pool_of pf s) i = page_frame (pool_of pf s) j"
  have "unat (phy_addr_start (pool_of pf s)) + 4096 * i = unat (phy_addr_start (pool_of pf s)) + 4096 * j"
    using ij page_frame_unat [OF assms, of i pf] page_frame_unat [OF assms, of j pf] unfolding eq lessThan_iff by metis
  then show "i = j" by linarith
qed

text \<open>Allocation and release only write the bitmap.\<close>

lemma set_mem_pools [simp]:
  "pool_of pf (s\<lparr>mem := m\<rparr>) = pool_of pf s" "pools_ok (s\<lparr>mem := m\<rparr>) = pools_ok s"
  by (simp_all add: pool_of_def pools_ok_def split: pool_flags.split)

lemma palloc_ok:
  assumes "pools_ok s" "\<exists>i < pages_of (pool_of pf s). \<not> page_used pf s i"
  shows "\<exists>i m. palloc pf s = Some (page_frame (pool_of pf s) i, s\<lparr>mem := m\<rparr>) \<and> i < pages_of (pool_of pf s) \<and> \<not> page_used pf s i \<and>
    (\<forall>j < pages_of (pool_of pf s). page_used pf (s\<lparr>mem := m\<rparr>) j \<longleftrightarrow> page_used pf s j \<or> j = i) \<and>
    (\<forall>a. a \<noteq> bits (pool_bitmap (pool_of pf s)) + of_nat (i div 8) \<longrightarrow> m a = mem s a)"
proof -
  let ?B = "pool_bitmap (pool_of pf s)"
  have bm: "bm_ok ?B" using pools_okD(1) [OF assms(1)] .
  obtain i where i: "bitmap_scan ?B 1 (mem s) = Some (of_nat i)" "i < bm_bits ?B" "\<not> used ?B (mem s) i" "(of_nat i :: u32) \<noteq> - 1"
    using scan_one [OF bm, of "mem s"] assms(2) by (auto simp: pages_of_def page_used_def)
  obtain m where m: "bitmap_set ?B (of_nat i) 1 (mem s) = Some m" using bitmap_set_total by blast
  have lt: "i < 2 ^ 32" "\<And>j. j < bm_bits ?B \<Longrightarrow> j < 2 ^ 32" using bm_bits_bound [OF bm] i(2) by simp_all
  have "palloc pf s = Some (page_frame (pool_of pf s) i, s\<lparr>mem := m\<rparr>)"
    using i(1,4) m by (simp add: palloc_def Let_def page_frame_def)
  then show ?thesis
    using i m lt bitmap_set_used [OF m lt(1)] bitmap_set_frame [OF m lt(1)]
    by (intro exI [of _ i] exI [of _ m]) (auto simp: pages_of_def page_used_def)
qed

lemma pfree_ok:
  assumes "pools_ok s" "i < pages_of (pool_of pf s)"
  shows "\<exists>m. pfree (page_frame (pool_of pf s) i) s = Some (s\<lparr>mem := m\<rparr>) \<and>
    (\<forall>j < pages_of (pool_of pf s). page_used pf (s\<lparr>mem := m\<rparr>) j \<longleftrightarrow> page_used pf s j \<and> j \<noteq> i) \<and>
    (\<forall>a. a \<noteq> bits (pool_bitmap (pool_of pf s)) + of_nat (i div 8) \<longrightarrow> m a = mem s a)"
proof -
  let ?B = "pool_bitmap (pool_of pf s)" and ?f = "page_frame (pool_of pf s) i"
  have u: "unat ?f = unat (phy_addr_start (pool_of pf s)) + 4096 * i" using page_frame_unat [OF assms] .
  have p: "(if phy_addr_start (user_pool s) \<le> ?f then user_pool s else kernel_pool s) = pool_of pf s"
    using u assms by (cases pf) (auto simp: pool_of_def pools_ok_def word_le_nat_alt)
  have ge: "phy_addr_start (pool_of pf s) \<le> ?f" using u by (simp add: word_le_nat_alt)
  have "unat ((?f - phy_addr_start (pool_of pf s)) div PG_SIZE) = i"
    using u by (simp add: unat_div unat_diff_le [OF ge])
  then have idx: "(?f - phy_addr_start (pool_of pf s)) div PG_SIZE = of_nat i" by (metis unat_of_nat_self)
  obtain m where m: "bitmap_set ?B (of_nat i) 0 (mem s) = Some m" using bitmap_set_total by blast
  have lt: "i < 2 ^ 32" "\<And>j. j < bm_bits ?B \<Longrightarrow> j < 2 ^ 32"
    using bm_bits_bound [OF pools_okD(1) [OF assms(1), of pf]] assms(2) by (simp_all add: pages_of_def)
  have "pfree ?f s = Some (s\<lparr>mem := m\<rparr>)" unfolding pfree_def p Let_def idx using m by simp
  then show ?thesis
    using m lt bitmap_set_used [OF m lt(1)] bitmap_set_frame [OF m lt(1)] by (intro exI [of _ m]) (auto simp: pages_of_def page_used_def)
qed

lemma palloc_full: "\<forall>i < pages_of (pool_of pf s). page_used pf s i \<Longrightarrow> palloc pf s = None"
  using scan_none by (simp add: palloc_def Let_def pages_of_def page_used_def)

interpretation pa: bit_allocator "\<lambda>s. pages_of (pool_of pf s)" "page_used pf" pools_ok "\<lambda>s. page_frame (pool_of pf s)" "palloc pf" pfree
proof
  fix s :: "'a memsys_scheme"
  assume ok: "pools_ok s"
  show "inj_on (page_frame (pool_of pf s)) {..<pages_of (pool_of pf s)}" using page_frame_inj [OF ok] .
  show "\<exists>i s'. palloc pf s = Some (page_frame (pool_of pf s) i, s') \<and> i < pages_of (pool_of pf s) \<and> \<not> page_used pf s i \<and>
      (\<forall>j < pages_of (pool_of pf s). page_used pf s' j \<longleftrightarrow> page_used pf s j \<or> j = i) \<and>
      pools_ok s' \<and> pages_of (pool_of pf s') = pages_of (pool_of pf s) \<and> page_frame (pool_of pf s') = page_frame (pool_of pf s)"
    if "\<exists>i < pages_of (pool_of pf s). \<not> page_used pf s i"
    using palloc_ok [OF ok that] ok by fastforce
  show "\<exists>s'. pfree (page_frame (pool_of pf s) i) s = Some s' \<and>
      (\<forall>j < pages_of (pool_of pf s). page_used pf s' j \<longleftrightarrow> page_used pf s j \<and> j \<noteq> i) \<and>
      pools_ok s' \<and> pages_of (pool_of pf s') = pages_of (pool_of pf s) \<and> page_frame (pool_of pf s') = page_frame (pool_of pf s)"
    if "i < pages_of (pool_of pf s)" for i
    using pfree_ok [OF ok that] ok by fastforce
next
  fix s :: "'a memsys_scheme"
  show "palloc pf s = None" if "\<forall>i < pages_of (pool_of pf s). page_used pf s i" using palloc_full [OF that] .
qed

text \<open>The byte of one page in a bitmap is not a byte of the other pool's bitmap.\<close>

lemma bm_byte_unat:
  assumes "unat (bits b) + unat (btmp_bytes_len b) < 2 ^ 32" "i < bm_bits b"
  shows "unat (bits b + of_nat (i div 8)) = unat (bits b) + i div 8" "i div 8 < unat (btmp_bytes_len b)"
proof -
  show lt: "i div 8 < unat (btmp_bytes_len b)" using assms(2) by (simp add: bm_bits_def)
  then show "unat (bits b + of_nat (i div 8)) = unat (bits b) + i div 8"
    using assms(1) by (subst unat_add_lt) (simp_all add: unat_of_nat_lt)
qed

lemma pool_bytes_apart:
  assumes "pools_ok s" "pf \<noteq> pf'" "i < pages_of (pool_of pf s)" "j < pages_of (pool_of pf' s)"
  shows "bits (pool_bitmap (pool_of pf s)) + of_nat (i div 8) \<noteq> bits (pool_bitmap (pool_of pf' s)) + of_nat (j div 8)"
proof -
  let ?k = "pool_bitmap (kernel_pool s)" and ?u = "pool_bitmap (user_pool s)"
  have l: "unat (bits ?k) + unat (btmp_bytes_len ?k) \<le> unat (bits ?u)" "unat (bits ?u) + unat (btmp_bytes_len ?u) < 2 ^ 32"
    using assms(1) by (simp_all add: pools_ok_def)
  then have "unat (bits ?k) + unat (btmp_bytes_len ?k) < 2 ^ 32" using unat_lt_32(1) [of "bits ?u"] by linarith
  note k = bm_byte_unat [OF this] and u = bm_byte_unat [OF l(2)]
  have "bits ?k + of_nat (a div 8) \<noteq> bits ?u + of_nat (b div 8)" if "a < bm_bits ?k" "b < bm_bits ?u" for a b
  proof
    assume "bits ?k + of_nat (a div 8) = bits ?u + of_nat (b div 8)"
    then have "unat (bits ?k) + a div 8 = unat (bits ?u) + b div 8" using k(1) [OF that(1)] u(1) [OF that(2)] by metis
    then show False using k(2) [OF that(1)] l(1) by linarith
  qed
  then show ?thesis using assms(2-) by (cases pf; cases pf'; simp add: pool_of_def pages_of_def; metis)
qed

text \<open>What one allocation leaves alone.\<close>

definition pools_same :: "pool_flags \<Rightarrow> 'a memsys_scheme \<Rightarrow> 'a memsys_scheme \<Rightarrow> bool" where
  "pools_same pf s s' \<longleftrightarrow> (\<exists>m. s' = s\<lparr>mem := m\<rparr>) \<and> (\<forall>pf' j. pf' \<noteq> pf \<and> j < pages_of (pool_of pf' s) \<longrightarrow> page_used pf' s' j = page_used pf' s j)"

lemma pools_same_trans: "pools_same pf s s1 \<Longrightarrow> pools_same pf s1 s2 \<Longrightarrow> pools_same pf s s2"
  by (fastforce simp: pools_same_def)

lemma pools_same_refl: "pools_same pf s s"
  by (auto simp: pools_same_def intro: exI [of _ "mem s"])

lemma palloc_keeps:
  assumes "pools_ok s" "palloc pf s = Some (r, s')"
  shows "pools_ok s' \<and> pools_same pf s s'"
proof -
  have "\<exists>i < pages_of (pool_of pf s). \<not> page_used pf s i" using palloc_full [of pf s] assms(2) by auto
  from palloc_ok [OF assms(1) this] obtain i m where i: "s' = s\<lparr>mem := m\<rparr>" "i < pages_of (pool_of pf s)"
    "\<forall>a. a \<noteq> bits (pool_bitmap (pool_of pf s)) + of_nat (i div 8) \<longrightarrow> m a = mem s a" using assms(2) by auto
  then show ?thesis
    using assms(1) pool_bytes_apart [OF assms(1), of _ pf _ i] by (auto simp: pools_same_def page_used_def used_def)
qed

section \<open>The layout\<close>

lemma unat_ucast_16_32: "unat (ucast (w :: u16) :: u32) = unat w"
  using unsigned_less [of w, where ?'a = nat] by (simp add: unsigned_ucast_eq take_bit_nat_eq_self)

lemma unat_ucast_32_16: "unat (ucast (w :: u32) :: u16) = unat w mod 65536"
  by (simp add: unsigned_ucast_eq take_bit_eq_mod)

text \<open>\<open>bitmap_init\<close> clears the bitmap and writes nothing but zeros.\<close>

lemma bitmap_init_clears:
  assumes "bits b \<noteq> NULL"
  shows "\<exists>m'. bitmap_init b m = Some m' \<and> (\<forall>a. m a = 0 \<longrightarrow> m' a = 0) \<and> (\<forall>a. a - bits b < btmp_bytes_len b \<longrightarrow> m' a = 0)"
  using assms by (simp add: bitmap_init_def memset_def memset_loop_eq)

lemma cleared_unused:
  assumes "\<forall>a. a - bits b < btmp_bytes_len b \<longrightarrow> m a = 0" "i < bm_bits b"
  shows "\<not> used b m i"
proof -
  have "i div 8 < unat (btmp_bytes_len b)" using assms(2) by (simp add: bm_bits_def)
  then have "(of_nat (i div 8) :: u32) < btmp_bytes_len b" using unat_lt_32(1) [of "btmp_bytes_len b"]
    by (simp add: word_less_nat_alt unat_of_nat_lt del: unat_lt_32)
  then show ?thesis using assms(1) by (simp add: used_def)
qed

text \<open>The numbers of pages and the addresses that \<open>mem_pool_init\<close> computes, for at most 65535 free pages.\<close>

lemma pool_numbers:
  fixes all_mem :: u32
  assumes "0x200000 \<le> unat all_mem" "unat all_mem < 0x10200000"
  defines "n \<equiv> (unat all_mem - 0x200000) div 4096"
  defines "p \<equiv> (ucast ((all_mem - (PG_SIZE * 256 + 0x100000)) div PG_SIZE) :: u16)"
  shows "unat p = n" "n < 65536" "unat (p div 2) = n div 2" "unat (p - p div 2) = n - n div 2"
    "unat (ucast (p div 2 div 8) :: u32) = n div 2 div 8" "unat (ucast ((p - p div 2) div 8) :: u32) = (n - n div 2) div 8"
    "unat (ucast (p div 2) * PG_SIZE :: u32) = n div 2 * 4096"
proof -
  have le: "PG_SIZE * 256 + 0x100000 \<le> all_mem" using assms(1) by (simp add: word_le_nat_alt)
  show n: "n < 65536" using assms(2) by (simp add: n_def)
  show p: "unat p = n" using n unat_diff_le [OF le] by (simp add: p_def unat_ucast_32_16 unat_div n_def)
  then show h: "unat (p div 2) = n div 2" by (simp add: unat_div)
  then have "p div 2 \<le> p" using p by (simp add: word_le_nat_alt)
  then show u: "unat (p - p div 2) = n - n div 2" using p h by (simp add: unat_diff_le)
  show "unat (ucast (p div 2 div 8) :: u32) = n div 2 div 8" "unat (ucast ((p - p div 2) div 8) :: u32) = (n - n div 2) div 8"
    using h u by (simp_all add: unat_ucast_16_32 unat_div)
  show "unat (ucast (p div 2) * PG_SIZE :: u32) = n div 2 * 4096"
    using h n by (simp add: unat_word_ariths unat_ucast_16_32)
qed

lemma lock_init_frame [simp]:
  fixes s :: "'a memsys_scheme"
  shows "mem (lock_init l s) = mem s" "kernel_pool (lock_init l s) = kernel_pool s" "user_pool (lock_init l s) = user_pool s"
    "kernel_vaddr (lock_init l s) = kernel_vaddr s" "ptab (lock_init l s) = ptab s" "cr3 (lock_init l s) = cr3 s"
  by (simp_all add: lock_init_def sema_init_def list_init_def set_lnext_def set_lprev_def Let_def upd_lock_def set_value_def)

lemma mem_pool_init_spec:
  assumes "0x200000 \<le> unat all_mem" "unat all_mem < 0x10200000"
  defines "n \<equiv> (unat all_mem - 0x200000) div 4096"
  shows "\<exists>s'. mem_pool_init all_mem s = Some s' \<and> pools_ok s' \<and>
    (\<forall>pf i. i < pages_of (pool_of pf s') \<longrightarrow> \<not> page_used pf s' i) \<and>
    (\<forall>i < bm_bits (vaddr_bitmap (kernel_vaddr s')). \<not> used (vaddr_bitmap (kernel_vaddr s')) (mem s') i) \<and>
    unat (phy_addr_start (kernel_pool s')) = 0x200000 \<and> pages_of (kernel_pool s') = n div 2 div 8 * 8 \<and>
    unat (phy_addr_start (user_pool s')) = 0x200000 + n div 2 * 4096 \<and> pages_of (user_pool s') = (n - n div 2) div 8 * 8 \<and>
    vaddr_start (kernel_vaddr s') = 0xc0100000 \<and> bm_bits (vaddr_bitmap (kernel_vaddr s')) = n div 2 div 8 * 8 \<and>
    unat (bits (vaddr_bitmap (kernel_vaddr s'))) =
      unat (bits (pool_bitmap (user_pool s'))) + unat (btmp_bytes_len (pool_bitmap (user_pool s'))) \<and>
    unat (bits (vaddr_bitmap (kernel_vaddr s'))) + bm_bits (vaddr_bitmap (kernel_vaddr s')) div 8 < 2 ^ 32 - 1 \<and>
    ptab s' = ptab s \<and> cr3 s' = cr3 s"
proof -
  note num = pool_numbers [OF assms(1,2), folded n_def]
  let ?p = "ucast ((all_mem - (PG_SIZE * 256 + 0x100000)) div PG_SIZE) :: u16"
  let ?k = "\<lparr>btmp_bytes_len = ucast (?p div 2 div 8), bits = 0xc009a000\<rparr> :: bitmap"
  let ?u = "\<lparr>btmp_bytes_len = ucast ((?p - ?p div 2) div 8), bits = 0xc009a000 + ucast (?p div 2 div 8)\<rparr> :: bitmap"
  let ?v = "\<lparr>btmp_bytes_len = ucast (?p div 2 div 8), bits = 0xc009a000 + ucast (?p div 2 div 8) + ucast ((?p - ?p div 2) div 8)\<rparr> :: bitmap"
  have ub: "unat (bits ?u) = 0xc009a000 + n div 2 div 8" using num(2,5) by (simp add: unat_word_ariths)
  have small: "n div 2 div 8 < 4096" "(n - n div 2) div 8 < 4097" using num(2) by simp_all
  have vb: "unat (bits ?v) = 0xc009a000 + n div 2 div 8 + (n - n div 2) div 8"
    using num(6) ub small by (subst bitmap.select_convs, subst unat_add_lt) simp_all
  have nz: "bits ?k \<noteq> NULL" "bits ?u \<noteq> NULL" "bits ?v \<noteq> NULL" using ub vb by auto
  obtain m1 where m1: "bitmap_init ?k (mem s) = Some m1" "\<forall>a. a - bits ?k < btmp_bytes_len ?k \<longrightarrow> m1 a = 0"
    using bitmap_init_clears [OF nz(1)] by blast
  obtain m2 where m2: "bitmap_init ?u m1 = Some m2" "\<forall>a. m1 a = 0 \<longrightarrow> m2 a = 0" "\<forall>a. a - bits ?u < btmp_bytes_len ?u \<longrightarrow> m2 a = 0"
    using bitmap_init_clears [OF nz(2)] by blast
  obtain m3 where m3: "bitmap_init ?v m2 = Some m3" "\<forall>a. m2 a = 0 \<longrightarrow> m3 a = 0" "\<forall>a. a - bits ?v < btmp_bytes_len ?v \<longrightarrow> m3 a = 0"
    using bitmap_init_clears [OF nz(3)] by blast
  obtain s' where s': "mem_pool_init all_mem s = Some s'" "mem s' = m3" "kernel_vaddr s' = \<lparr>vaddr_bitmap = ?v, vaddr_start = 0xc0100000\<rparr>"
    "kernel_pool s' = (kernel_pool s)\<lparr>phy_addr_start := 0x200000, pool_size := ucast (?p div 2) * PG_SIZE, pool_bitmap := ?k\<rparr>"
    "user_pool s' = (user_pool s)\<lparr>phy_addr_start := 0x200000 + ucast (?p div 2) * PG_SIZE,
       pool_size := ucast (?p - ?p div 2) * PG_SIZE, pool_bitmap := ?u\<rparr>" "ptab s' = ptab s" "cr3 s' = cr3 s"
    using m1(1) m2(1) m3(1) by (simp add: mem_pool_init_def Let_def)
  have "unat (0x200000 + ucast (?p div 2) * PG_SIZE :: u32) = 0x200000 + n div 2 * 4096"
    using num(2,7) by (subst unat_add_lt) simp_all
  then have start: "unat (phy_addr_start (user_pool s')) = 0x200000 + n div 2 * 4096" by (simp add: s'(5))
  have len: "unat (btmp_bytes_len ?k) = n div 2 div 8" "unat (btmp_bytes_len ?u) = (n - n div 2) div 8" using num(5,6) by simp_all
  have free: "\<not> used ?k m3 i" if "i < bm_bits ?k" for i using that m1(2) m2(2) m3(2) by (intro cleared_unused) blast+
  have freeu: "\<not> used ?u m3 i" if "i < bm_bits ?u" for i using that m2(3) m3(2) by (intro cleared_unused) blast+
  have freev: "\<not> used ?v m3 i" if "i < bm_bits ?v" for i using that m3(3) by (intro cleared_unused) blast+
  have pages: "pages_of (kernel_pool s') = n div 2 div 8 * 8" "pages_of (user_pool s') = (n - n div 2) div 8 * 8" "bm_bits ?v = n div 2 div 8 * 8"
    using len s'(4,5) by (simp_all add: pages_of_def bm_bits_def)
  have "n div 2 < 32768" using num(2) by simp
  then have "n div 2 * 4096 + 32768 * ((n - n div 2) div 8) < 4292870144" using small(2) by linarith
  then have "pools_ok s'"
    unfolding pools_ok_def start pages using start small len ub num(2) by (simp add: s'(4,5) bm_ok_def)
  moreover have "\<not> page_used pf s' i" if "i < pages_of (pool_of pf s')" for pf i
    using that free freeu by (cases pf) (simp_all add: page_used_def pool_of_def pages_of_def s'(2,4,5))
  moreover have "unat (bits ?v) = unat (bits ?u) + unat (btmp_bytes_len ?u)" "unat (bits ?v) + bm_bits ?v div 8 < 2 ^ 32 - 1"
    using vb ub len(2) pages(3) small by simp_all
  ultimately show ?thesis using s' start pages freev by (intro exI [of _ s']) simp
qed

text \<open>The three bitmaps lie below 0xc00a0000.\<close>

lemma mem_pool_init_low:
  assumes "mem_pool_init all_mem s = Some s'"
  shows "unat (bits (vaddr_bitmap (kernel_vaddr s'))) < 0xc00a0000"
proof -
  have eighth: "unat (w div 8) < 8192" for w :: u16
    using unsigned_less [of w, where ?'a = nat] by (simp add: unat_div)
  obtain x y :: u16 where xy: "bits (vaddr_bitmap (kernel_vaddr s')) = 0xc009a000 + ucast (x div 8) + ucast (y div 8)"
    using assms by (auto simp: mem_pool_init_def Let_def bind_eq_Some_conv)
  have "unat (ucast (w div 8) :: u32) < 8192" for w :: u16 using eighth [of w] by (simp only: unat_ucast_16_32)
  from this [of x] this [of y] show ?thesis unfolding xy by (simp add: unat_word_ariths)
qed

section \<open>Claims\<close>

lemma half_pages: "n div 2 + (n - n div 2) div 8 * 8 \<le> (n :: nat)"
proof -
  have "(n - n div 2) div 8 * 8 \<le> n - n div 2" by (rule div_times_less_eq_dividend)
  moreover have "n div 2 \<le> n" by simp
  ultimately show ?thesis by (metis add.commute le_diff_conv2)
qed


text \<open>A machine with 32 MB of memory, before and after \<open>mem_pool_init\<close>.\<close>

definition bare_mem :: memsys where
  "bare_mem = iosys.extend two_threads_io (memsys.fields
      \<lparr>pool_bitmap = \<lparr>btmp_bytes_len = 0, bits = 0\<rparr>, phy_addr_start = 0, pool_size = 0, pool_lock = 0xc0006000\<rparr>
      \<lparr>pool_bitmap = \<lparr>btmp_bytes_len = 0, bits = 0\<rparr>, phy_addr_start = 0, pool_size = 0, pool_lock = 0xc0006100\<rparr>
      \<lparr>vaddr_bitmap = \<lparr>btmp_bytes_len = 0, bits = 0\<rparr>, vaddr_start = 0\<rparr> 0xc0006200)"


text \<open>
  C19. Physical pages. As long as a pool has \<open>n\<close> free pages, \<open>n\<close> calls of \<open>palloc\<close> all return, with \<open>n\<close> different page frames of that pool
  that were free before; afterwards exactly these are in use in addition, and no page of the other pool changed its state.
\<close>

theorem palloc_distinct:
  assumes "pools_ok s" "n \<le> card (vacant (\<lambda>s. pages_of (pool_of pf s)) (page_used pf) s)"
  shows "\<exists>fs s'. alloc_many (palloc pf) n s = Some (fs, s') \<and> length fs = n \<and> distinct fs \<and> pools_ok s' \<and>
    (\<forall>f \<in> set fs. \<exists>i < pages_of (pool_of pf s). f = page_frame (pool_of pf s) i \<and> \<not> page_used pf s i) \<and>
    (\<forall>j < pages_of (pool_of pf s). page_used pf s' j \<longleftrightarrow> page_used pf s j \<or> page_frame (pool_of pf s) j \<in> set fs) \<and>
    (\<forall>pf' j. pf' \<noteq> pf \<and> j < pages_of (pool_of pf' s) \<longrightarrow> page_used pf' s' j = page_used pf' s j)"
proof -
  let ?P = "pool_of pf s" and ?V = "vacant (\<lambda>s. pages_of (pool_of pf s)) (page_used pf)"
  obtain "is" s' where a: "alloc_many (palloc pf) n s = Some (map (page_frame ?P) is, s')" "length is = n"
    "distinct (map (page_frame ?P) is)" "set is \<subseteq> ?V s" "?V s' = ?V s - set is" "pools_ok s'"
    using pa.allocs_distinct [OF assms] by blast
  have step: "pools_ok t' \<and> pools_same pf s t'" if "pools_ok t \<and> pools_same pf s t" "palloc pf t = Some (r, t')" for t r t'
    using palloc_keeps [of t pf r t'] pools_same_trans [of pf s t t'] that by simp
  have "pools_ok s' \<and> pools_same pf s s'"
    by (rule alloc_many_keeps [where P = "\<lambda>t. pools_ok t \<and> pools_same pf s t", OF step _ a(1)])
      (simp_all add: assms(1) pools_same_refl)
  then have same: "pools_same pf s s'" "pool_of pf s' = ?P" by (auto simp: pools_same_def)
  have "page_used pf s' j \<longleftrightarrow> page_used pf s j \<or> page_frame ?P j \<in> page_frame ?P ` set is" if "j < pages_of ?P" for j
  proof -
    have "j \<in> ?V s' \<longleftrightarrow> j \<in> ?V s \<and> j \<notin> set is" using a(5) by blast
    then have "page_used pf s' j \<longleftrightarrow> page_used pf s j \<or> j \<in> set is" using that same(2) by (simp add: vacant_def) blast
    moreover have "page_frame ?P j \<in> page_frame ?P ` set is \<longleftrightarrow> j \<in> set is"
      using inj_on_image_mem_iff [OF page_frame_inj [OF assms(1), of pf], of j "set is"] a(4) that by (auto simp: vacant_def)
    ultimately show ?thesis by simp
  qed
  then show ?thesis using a same(1) by (intro exI [of _ "map (page_frame ?P) is"] exI [of _ s']) (auto simp: vacant_def pools_same_def)
qed

lemma pools_example:
  obtains s :: memsys where "mem_pool_init 0x2000000 bare_mem = Some s" "pools_ok s" "\<forall>pf i. i < pages_of (pool_of pf s) \<longrightarrow> \<not> page_used pf s i"
    "pages_of (kernel_pool s) = 3840" "pages_of (user_pool s) = 3840"
  using mem_pool_init_spec [of "0x2000000" bare_mem] by (auto intro: that)

theorem palloc_distinct_witness:
  "\<exists>s fs s'. mem_pool_init 0x2000000 bare_mem = Some s \<and> alloc_many (palloc PF_KERNEL) 100 s = Some (fs, s') \<and> distinct fs \<and> length fs = 100"
proof -
  obtain s where s: "mem_pool_init 0x2000000 bare_mem = Some s" "pools_ok s" "\<forall>pf i. i < pages_of (pool_of pf s) \<longrightarrow> \<not> page_used pf s i"
    "pages_of (kernel_pool s) = 3840" "pages_of (user_pool s) = 3840" by (rule pools_example)
  have "vacant (\<lambda>s. pages_of (pool_of PF_KERNEL s)) (page_used PF_KERNEL) s = {..<3840}"
    using s(3,4) by (auto simp: vacant_def pool_of_def)
  then show ?thesis using palloc_distinct [of s 100 PF_KERNEL] s(1,2) by auto
qed

text \<open>
  C24. Giving a page back. Whatever page \<open>palloc\<close> handed out, \<open>pfree\<close> on its physical address returns it to the pool it came from: afterwards the pages
  in use are those in use before the allocation, in both pools.
\<close>

theorem pfree_undoes_palloc:
  assumes "pools_ok s" "palloc pf s = Some (f, s1)"
  shows "\<exists>s2. pfree f s1 = Some s2 \<and> pools_ok s2 \<and>
    (\<forall>pf' i. i < pages_of (pool_of pf' s) \<longrightarrow> page_used pf' s2 i = page_used pf' s i)"
proof -
  have "\<exists>i < pages_of (pool_of pf s). \<not> page_used pf s i" using palloc_full [of pf s] assms(2) by auto
  from palloc_ok [OF assms(1) this] obtain i m where i: "f = page_frame (pool_of pf s) i" "s1 = s\<lparr>mem := m\<rparr>" "i < pages_of (pool_of pf s)"
    "\<not> page_used pf s i" "\<forall>j < pages_of (pool_of pf s). page_used pf s1 j \<longleftrightarrow> page_used pf s j \<or> j = i" using assms(2) by auto
  have ok: "pools_ok s1" "pool_of pf s1 = pool_of pf s" using i(2) assms(1) by simp_all
  from pfree_ok [OF ok(1), of i pf] obtain m2 where m2: "pfree f s1 = Some (s1\<lparr>mem := m2\<rparr>)"
    "\<forall>j < pages_of (pool_of pf s). page_used pf (s1\<lparr>mem := m2\<rparr>) j \<longleftrightarrow> page_used pf s1 j \<and> j \<noteq> i"
    "\<forall>a. a \<noteq> bits (pool_bitmap (pool_of pf s)) + of_nat (i div 8) \<longrightarrow> m2 a = mem s1 a" using i(1,3) ok by auto
  have other: "page_used pf' s1 j = page_used pf' s j" "page_used pf' (s1\<lparr>mem := m2\<rparr>) j = page_used pf' s1 j"
    if "pf' \<noteq> pf" "j < pages_of (pool_of pf' s)" for pf' j
    using palloc_keeps [OF assms] that pool_bytes_apart [OF assms(1), of pf' pf j i] i(2,3) m2(3)
    by (auto simp: pools_same_def page_used_def used_def)
  have "page_used pf' (s1\<lparr>mem := m2\<rparr>) j = page_used pf' s j" if "j < pages_of (pool_of pf' s)" for pf' j
    using that i(4,5) m2(2) other [of pf' j] by (cases "pf' = pf") auto
  then show ?thesis using m2(1) ok(1) by auto
qed

theorem pfree_undoes_palloc_witness:
  "\<exists>s f s1 s2. mem_pool_init 0x2000000 bare_mem = Some s \<and> palloc PF_USER s = Some (f, s1) \<and> pfree f s1 = Some s2 \<and>
    (\<forall>i < pages_of (user_pool s). \<not> page_used PF_USER s2 i)"
proof -
  obtain s where s: "mem_pool_init 0x2000000 bare_mem = Some s" "pools_ok s" "\<forall>pf i. i < pages_of (pool_of pf s) \<longrightarrow> \<not> page_used pf s i"
    "pages_of (kernel_pool s) = 3840" "pages_of (user_pool s) = 3840" by (rule pools_example)
  have "\<exists>i < pages_of (pool_of PF_USER s). \<not> page_used PF_USER s i"
    using s(3) s(5) by (intro exI [of _ 0]) (simp add: pool_of_def)
  from palloc_ok [OF s(2) this] obtain f s1 where a: "palloc PF_USER s = Some (f, s1)" by blast
  then show ?thesis using pfree_undoes_palloc [OF s(2) a] s(1) s(3) by (fastforce simp: pool_of_def)
qed

end
