(* ===== verification/PageTables.thy ===== *)
theory PageTables
  imports Memory
begin

text \<open>
  What \<open>page_table_add\<close> and \<open>malloc_page\<close> of \<^verbatim>\<open>kernel/memory.c\<close> do to the translation of all addresses. The invariant \<open>paging_ok\<close>
  says that the directory in use maps itself, that no other entry points back at it, and that the page frames holding
  the directory and its tables are marked in the kernel pool, so that \<open>palloc\<close> never hands one of them out. Both
  operations keep it.
\<close>

section \<open>The invariant\<close>

definition pde :: "'a mmu_scheme \<Rightarrow> u32 \<Rightarrow> u32" where
  "pde s i = ptab s (frame (cr3 s) + i * 4)"

definition dir_ok :: "'a mmu_scheme \<Rightarrow> bool" where
  "dir_ok s \<longleftrightarrow> selfmap s \<and> (\<forall>i < 1023. present (pde s i) \<longrightarrow> frame (pde s i) \<noteq> frame (cr3 s))"

definition table_frames :: "'a mmu_scheme \<Rightarrow> addr set" where
  "table_frames s = insert (frame (cr3 s)) ((\<lambda>j. frame (pde s j)) ` {j. j < 1024 \<and> present (pde s j)})"

definition tables_taken :: "'a memsys_scheme \<Rightarrow> bool" where
  "tables_taken s \<longleftrightarrow> (\<forall>i < pages_of (kernel_pool s). \<not> page_used PF_KERNEL s i \<longrightarrow> page_frame (kernel_pool s) i \<notin> table_frames s)"

definition paging_ok :: "'a memsys_scheme \<Rightarrow> bool" where
  "paging_ok s \<longleftrightarrow> pools_ok s \<and> phy_addr_start (kernel_pool s) \<noteq> NULL \<and>
     (\<forall>pf. frame (phy_addr_start (pool_of pf s)) = phy_addr_start (pool_of pf s)) \<and> dir_ok s \<and> tables_taken s"

text \<open>The addresses whose page table entry is the same word as that of \<open>va\<close>.\<close>

definition shares :: "'a mmu_scheme \<Rightarrow> addr \<Rightarrow> addr \<Rightarrow> bool" where
  "shares s va va' \<longleftrightarrow> PTE_IDX va' = PTE_IDX va \<and>
     (PDE_IDX va' = PDE_IDX va \<or>
      present (ptab s (pde_at s va)) \<and> present (ptab s (pde_at s va')) \<and> frame (ptab s (pde_at s va')) = frame (ptab s (pde_at s va)))"

lemma pde_at_pde: "ptab s (pde_at s va) = pde s (PDE_IDX va)"
  by (simp add: pde_at_def pde_def)

lemma frame_or_7: "frame (f OR 7) = frame f" "present (f OR 7)"
proof -
  have seven: "bit (7 :: u32) n \<longleftrightarrow> n < 3" for n
  proof -
    have "(7 :: u32) = mask 3" by (simp add: mask_eq_exp_minus_1)
    then show ?thesis by (simp only: bit_mask_iff possible_bit_word) auto
  qed
  show "frame (f OR 7) = frame f" unfolding frame_def by (rule bit_word_eqI; simp only: idx_bits seven; auto)
  show "present (f OR 7)" unfolding present_bit by (simp only: bit_or_iff seven) simp
qed

text \<open>A word of a page of memory.\<close>

lemma in_frame: "frame f = f \<Longrightarrow> a - f < 4096 \<Longrightarrow> frame a = f"
  using frame_plus(1) [of "a - f" f] by simp

lemma frame_in: "frame a = f \<Longrightarrow> a - f < 4096"
  using frame_split [of a] offset_less [of a] by (metis add_diff_cancel_left')

lemma frame_index: "i < 1024 \<Longrightarrow> frame (frame a + i * 4) = frame a"
  by (simp add: frame_plus index_times_4)

section \<open>The two cases of \<open>page_table_add\<close>\<close>

lemma page_table_add_present:
  assumes "selfmap s" "present (ptab s (pde_at s va))" "\<not> present (ptab s (pte_at s va))"
  shows "page_table_add va pa s = Some (s\<lparr>ptab := (ptab s)(pte_at s va := pa OR 7)\<rparr>)"
  using assms by (simp add: page_table_add_def Let_def ld_tab_def st_tab_def translate_pde_ptr translate_pte_ptr present_def)

definition new_table :: "addr \<Rightarrow> addr \<Rightarrow> addr \<Rightarrow> 'a mmu_scheme \<Rightarrow> addr \<Rightarrow> u32" where
  "new_table f va pa s =
     (\<lambda>a. if a - f < 4096 then 0 else ((ptab s)(pde_at s va := f OR 7)) a)(f + PTE_IDX va * 4 := pa OR 7)"

lemma page_table_add_absent:
  assumes "selfmap s" "PDE_IDX va \<noteq> 1023" "\<not> present (ptab s (pde_at s va))"
    and "palloc PF_KERNEL s = Some (f, s1)" "cr3 s1 = cr3 s" "ptab s1 = ptab s" "frame f = f" "f \<noteq> frame (cr3 s)"
  shows "page_table_add va pa s = Some (s1\<lparr>ptab := new_table f va pa s\<rparr>)"
proof -
  let ?d = "pde_at s va"
  have same: "pde_at (s1\<lparr>ptab := t\<rparr>) va = ?d" "pde_at s1 va = ?d" for t using assms(5) by (simp_all add: pde_at_def)
  have last: "?d \<noteq> frame (cr3 s) + 4092"
    using frame_index_inj [of "PDE_IDX va" 1023 "cr3 s" "cr3 s"] assms(2) by (simp add: pde_at_def)
  define s2 where "s2 = s1\<lparr>ptab := (ptab s)(?d := f OR 7)\<rparr>"
  define s3 where "s3 = s2\<lparr>ptab := (\<lambda>a. if a - f < PG_SIZE then 0 else ptab s2 a)\<rparr>"
  have c: "cr3 s2 = cr3 s" "cr3 s3 = cr3 s" "pde_at s2 va = ?d" "pde_at s3 va = ?d"
    using assms(5) by (simp_all add: s2_def s3_def pde_at_def)
  have sm1: "selfmap s1" using assms(1,5,6) by (simp add: selfmap_def)
  have sm2: "selfmap s2" using last assms(1) c(1) by (simp add: selfmap_def Let_def s2_def)
  have out: "\<not> frame (cr3 s) + i * 4 - f < 4096" if "i < 1024" for i
    using in_frame [OF assms(7), of "frame (cr3 s) + i * 4"] frame_index [OF that, of "cr3 s"] assms(8) by auto
  have "\<not> frame (cr3 s) + 4092 - f < 4096" using out [of 1023] by simp
  then have sm3: "selfmap s3" using sm2 c(1,2) by (simp add: selfmap_def Let_def s3_def)
  have d2: "ptab s2 ?d = f OR 7" by (simp add: s2_def)
  then have d3: "ptab s3 ?d = f OR 7" using out [of "PDE_IDX va"] by (simp add: s3_def pde_at_def)
  have t3: "pte_at s3 va = f + PTE_IDX va * 4" using d3 frame_or_7 [of f] assms(7) c(4) by (simp add: pte_at_def)
  have st2: "st_tab (pde_ptr va) (f OR 7) s1 = Some s2"
    using translate_pde_ptr [OF sm1, of va] assms(6) by (simp add: st_tab_def same s2_def)
  have z3: "zero_tab (pte_ptr va AND 0xfffff000) s2 = Some s3"
    using translate_pte_page [OF sm2, of va] d2 c(3) frame_or_7 [of f] assms(7) by (simp add: zero_tab_def s3_def)
  have tr: "translate s3 (pte_ptr va) = Some (f + PTE_IDX va * 4)"
    using translate_pte_ptr [OF sm3, of va] d3 t3 c(4) frame_or_7 [of f] by simp
  have ld3: "ld_tab (pte_ptr va) s3 = Some 0" using tr by (simp add: ld_tab_def s3_def index_times_4)
  have st3: "st_tab (pte_ptr va) (pa OR 7) s3 = Some (s1\<lparr>ptab := new_table f va pa s\<rparr>)"
    using tr by (simp add: st_tab_def new_table_def s3_def s2_def cong: if_cong)
  have "ld_tab (pde_ptr va) s = Some (ptab s ?d)" using translate_pde_ptr [OF assms(1)] by (simp add: ld_tab_def)
  then show ?thesis using assms(3,4) st2 z3 ld3 st3 by (simp add: page_table_add_def Let_def present_def)
qed

section \<open>Frames of the pools\<close>

lemma frame_push: "frame (push_bit 12 a) = push_bit 12 a"
  unfolding frame_def by (rule bit_word_eqI; simp only: idx_bits; auto)

lemma frame_self: "frame a = a \<Longrightarrow> a = push_bit 12 (drop_bit 12 a)"
proof -
  have "frame a = push_bit 12 (drop_bit 12 a)" unfolding frame_def by (rule bit_word_eqI; simp only: idx_bits; auto dest: bit_imp_le_length)
  then show "frame a = a \<Longrightarrow> a = push_bit 12 (drop_bit 12 a)" by simp
qed

lemma frame_page_frame:
  assumes "frame (phy_addr_start p) = phy_addr_start p"
  shows "frame (page_frame p i) = page_frame p i"
proof -
  have "page_frame p i = push_bit 12 (of_nat i) + push_bit 12 (drop_bit 12 (phy_addr_start p))"
    using frame_self [OF assms] by (simp add: page_frame_def push_bit_eq_mult)
  also have "\<dots> = push_bit 12 (of_nat i + drop_bit 12 (phy_addr_start p))" by (rule push_bit_add [symmetric])
  finally show ?thesis by (simp only: frame_push)
qed

lemma paging_okD:
  assumes "paging_ok s"
  shows "pools_ok s" "selfmap s" "\<And>i. i < 1023 \<Longrightarrow> present (pde s i) \<Longrightarrow> frame (pde s i) \<noteq> frame (cr3 s)"
    "\<And>i. i < pages_of (kernel_pool s) \<Longrightarrow> \<not> page_used PF_KERNEL s i \<Longrightarrow> page_frame (kernel_pool s) i \<notin> table_frames s"
    "\<And>pf i. frame (page_frame (pool_of pf s) i) = page_frame (pool_of pf s) i"
  using assms frame_page_frame by (auto simp: paging_ok_def dir_ok_def tables_taken_def)

lemma IDX_less_1023: "PDE_IDX va \<noteq> 1023 \<Longrightarrow> PDE_IDX va < 1023"
  using IDX_less(1) [of va] by (simp add: word_less_nat_alt word_unat_eq_iff)

text \<open>Writing one entry of a table that is not the directory.\<close>

lemma pde_write_table:
  assumes "frame a \<noteq> frame (cr3 s)" "j < 1024"
  shows "pde (s\<lparr>ptab := (ptab s)(a := w)\<rparr>) j = pde s j"
  using assms frame_index [of j "cr3 s"] by (auto simp: pde_def)

lemma frame_pte_at: "frame (pte_at s va) = frame (ptab s (pde_at s va))"
  by (simp add: pte_at_def frame_index)

lemma paging_ok_cong:
  assumes "paging_ok s" "cr3 s' = cr3 s" "\<And>j. j < 1024 \<Longrightarrow> pde s' j = pde s j" "kernel_pool s' = kernel_pool s" "user_pool s' = user_pool s"
    "mem s' = mem s"
  shows "paging_ok s'"
proof -
  have e: "pde s j = ptab s (frame (cr3 s) + 4092)" "pde s' j = ptab s' (frame (cr3 s) + 4092)" if "j = 1023" for j
    using that assms(2) by (simp_all add: pde_def)
  then have "selfmap s'" using paging_okD(2) [OF assms(1)] assms(2) assms(3) [of 1023] by (simp add: selfmap_def)
  moreover have "pde s' i = pde s i" if "i < 1023" for i using assms(3) [of i] that by (simp add: word_less_nat_alt)
  moreover have "table_frames s' = table_frames s"
    unfolding table_frames_def assms(2) using assms(3) by (intro arg_cong [of _ _ "insert _"] image_cong) auto
  moreover have "pool_of pf s' = pool_of pf s" for pf using assms(4,5) by (simp add: pool_of_def split: pool_flags.split)
  moreover from this have "page_used pf s' i = page_used pf s i" for pf i using assms(6) by (simp add: page_used_def)
  ultimately show ?thesis using assms(1,2,4,5) by (auto simp: paging_ok_def dir_ok_def tables_taken_def pools_ok_def)
qed

section \<open>Translation after \<open>page_table_add\<close>\<close>

lemma translate_entry:
  assumes "present (ptab s (pde_at s va))" "ptab s (pte_at s va) = pa OR 7"
  shows "translate s va = Some (frame pa + (va AND 0xfff))"
  using assms frame_or_7 [of pa] by (simp add: translate_def)

lemma maps_present:
  fixes pa :: addr
  assumes ok: "paging_ok s" and idx: "PDE_IDX va \<noteq> 1023" and pr: "present (ptab s (pde_at s va))"
  defines "s' \<equiv> s\<lparr>ptab := (ptab s)(pte_at s va := pa OR 7)\<rparr>"
  shows "translate s' va = Some (frame pa + (va AND 0xfff))" "paging_ok s'"
    "PDE_IDX va' \<noteq> 1023 \<Longrightarrow> \<not> shares s va va' \<Longrightarrow> translate s' va' = translate s va'"
proof -
  have far: "frame (pte_at s va) \<noteq> frame (cr3 s)"
    using paging_okD(3) [OF ok IDX_less_1023 [OF idx]] pr by (simp add: frame_pte_at pde_at_pde)
  have pdes: "pde s' j = pde s j" if "j < 1024" for j using pde_write_table [OF far that] by (simp add: s'_def)
  have d: "pde_at s' v = pde_at s v" "ptab s' (pde_at s v) = ptab s (pde_at s v)" "pte_at s' v = pte_at s v" for v
    using pdes [OF IDX_less(1), of v] pde_at_pde [of s' v] pde_at_pde [of s v] by (simp_all add: s'_def pde_at_def pte_at_def)
  show "translate s' va = Some (frame pa + (va AND 0xfff))"
    by (rule translate_entry) (use pr in \<open>simp_all add: d\<close>, simp add: s'_def)
  show "paging_ok s'" by (rule paging_ok_cong [OF ok _ pdes]) (simp_all add: s'_def)
  show "translate s' va' = translate s va'" if "PDE_IDX va' \<noteq> 1023" "\<not> shares s va va'"
  proof -
    have "ptab s' (pte_at s va') = ptab s (pte_at s va')" if p: "present (ptab s (pde_at s va'))"
    proof -
      have "pte_at s va' \<noteq> pte_at s va"
        using \<open>\<not> shares s va va'\<close> p pr by (auto simp: shares_def pte_at_def frame_index_inj)
      then show ?thesis by (simp add: s'_def)
    qed
    then show ?thesis by (simp add: translate_def d)
  qed
qed

lemma maps_absent:
  assumes ok: "paging_ok s" and idx: "PDE_IDX va \<noteq> 1023" and ab: "\<not> present (ptab s (pde_at s va))"
    and f: "f \<notin> table_frames s" "frame f = f" and s': "cr3 s' = cr3 s" "ptab s' = new_table f va pa s"
  shows "translate s' va = Some (frame pa + (va AND 0xfff))" "dir_ok s'" "table_frames s' = insert f (table_frames s)"
    "PDE_IDX va' \<noteq> 1023 \<Longrightarrow> \<not> shares s va va' \<Longrightarrow> translate s' va' = translate s va'"
    "j < 1024 \<Longrightarrow> pde s' j = (if j = PDE_IDX va then f OR 7 else pde s j)"
proof -
  have fc: "f \<noteq> frame (cr3 s)" using f(1) by (auto simp: table_frames_def)
  have elsewhere: "ptab s' a = ptab s a" if "frame a \<noteq> f" "a \<noteq> pde_at s va" for a
  proof -
    have "\<not> a - f < 4096" using in_frame [OF f(2), of a] that(1) by blast
    moreover have "a \<noteq> f + PTE_IDX va * 4" using frame_index [of "PTE_IDX va" f] f(2) that(1) by auto
    ultimately show ?thesis using that(2) by (simp add: s'(2) new_table_def)
  qed
  have inside: "ptab s' (f + i * 4) = (if i = PTE_IDX va then pa OR 7 else 0)" if "i < 1024" for i
    using index_times_4 [OF that] frame_index_inj [OF that, of "PTE_IDX va" f f] f(2) by (simp add: s'(2) new_table_def)
  show pdes: "pde s' j = (if j = PDE_IDX va then f OR 7 else pde s j)" if "j < 1024" for j
  proof (cases "j = PDE_IDX va")
    case True
    have "\<not> pde_at s va - f < 4096" "pde_at s va \<noteq> f + PTE_IDX va * 4"
      using in_frame [OF f(2), of "pde_at s va"] fc frame_index [of "PDE_IDX va" "cr3 s"] frame_index [of "PTE_IDX va" f] f(2)
      by (auto simp: pde_at_def)
    then show ?thesis using True s'(1) by (simp add: pde_def s'(2) new_table_def) (simp add: pde_at_def)
  next
    case False
    then have "pde s' j = pde s j"
      unfolding pde_def s'(1) using that fc frame_index [OF that, of "cr3 s"]
      by (intro elsewhere) (simp_all add: pde_at_def index_times_4)
    then show ?thesis using False by simp
  qed
  have entry: "ptab s' (pde_at s' v) = (if PDE_IDX v = PDE_IDX va then f OR 7 else ptab s (pde_at s v))" for v
    using pdes [of "PDE_IDX v"] by (simp add: pde_at_pde)
  have pte: "pte_at s' va = f + PTE_IDX va * 4" using entry [of va] frame_or_7 [of f] f(2) by (simp add: pte_at_def)
  then show "translate s' va = Some (frame pa + (va AND 0xfff))"
    using entry [of va] frame_or_7 [of f] inside [of "PTE_IDX va"] by (intro translate_entry) simp_all
  have last: "pde s' 1023 = pde s 1023" using pdes [of 1023] idx by simp
  then have "selfmap s'" using paging_okD(2) [OF ok] s'(1) by (simp add: selfmap_def pde_def)
  moreover have "frame (pde s' i) \<noteq> frame (cr3 s')" if "i < 1023" "present (pde s' i)" for i
  proof -
    have "i < 1024" using that(1) by (simp add: word_less_nat_alt)
    then show ?thesis using that pdes [of i] paging_okD(3) [OF ok that(1)] frame_or_7 [of f] f(2) fc s'(1) by (auto split: if_splits)
  qed
  ultimately show "dir_ok s'" by (simp add: dir_ok_def)
  show "table_frames s' = insert f (table_frames s)"
  proof -
    have "{j. j < 1024 \<and> present (pde s' j)} = insert (PDE_IDX va) {j. j < 1024 \<and> present (pde s j)}"
      using pdes frame_or_7 [of f] by auto
    moreover have "(\<lambda>j. frame (pde s' j)) ` {j. j < 1024 \<and> present (pde s j)} = (\<lambda>j. frame (pde s j)) ` {j. j < 1024 \<and> present (pde s j)}"
      using pdes ab by (intro image_cong) (auto simp: pde_at_pde)
    ultimately show ?thesis using pdes [of "PDE_IDX va"] frame_or_7 [of f] f(2) s'(1) by (simp add: table_frames_def insert_commute)
  qed
  show "translate s' va' = translate s va'" if v: "PDE_IDX va' \<noteq> 1023" "\<not> shares s va va'"
  proof (cases "PDE_IDX va' = PDE_IDX va")
    case True
    then have "ptab s (pde_at s va') = ptab s (pde_at s va)" by (simp add: pde_at_def)
    then have "translate s va' = None" using ab by (simp add: translate_def)
    moreover have "PTE_IDX va' \<noteq> PTE_IDX va" using v(2) True by (simp add: shares_def)
    then have "ptab s' (pte_at s' va') = 0" using entry [of va'] True inside [of "PTE_IDX va'"] frame_or_7 [of f] f(2) by (simp add: pte_at_def)
    then have "translate s' va' = None" by (simp add: translate_def present_def)
    ultimately show ?thesis by simp
  next
    case False
    then have e: "ptab s' (pde_at s' va') = ptab s (pde_at s va')" using entry [of va'] by simp
    then have t: "pte_at s' va' = pte_at s va'" by (simp add: pte_at_def)
    have "ptab s' (pte_at s va') = ptab s (pte_at s va')" if p: "present (ptab s (pde_at s va'))"
    proof (rule elsewhere)
      show "frame (pte_at s va') \<noteq> f" using p f(1) IDX_less(1) [of va'] by (auto simp: frame_pte_at pde_at_pde table_frames_def)
      have "frame (pte_at s va') \<noteq> frame (cr3 s)" using paging_okD(3) [OF ok IDX_less_1023 [OF v(1)]] p by (simp add: frame_pte_at pde_at_pde)
      then show "pte_at s va' \<noteq> pde_at s va" using frame_index [of "PDE_IDX va" "cr3 s"] by (auto simp: pde_at_def)
    qed
    then show ?thesis by (simp add: translate_def e t)
  qed
qed

text \<open>The pages of a pool that are free.\<close>

abbreviation free_pages :: "pool_flags \<Rightarrow> 'a memsys_scheme \<Rightarrow> nat set" where
  "free_pages pf s \<equiv> vacant (\<lambda>s. pages_of (pool_of pf s)) (page_used pf) s"

text \<open>The bytes of the two bitmaps: \<open>palloc\<close> writes nothing else.\<close>

definition pool_byte :: "'a memsys_scheme \<Rightarrow> addr \<Rightarrow> bool" where
  "pool_byte s a \<longleftrightarrow> (\<exists>pf. a - bits (pool_bitmap (pool_of pf s)) < btmp_bytes_len (pool_bitmap (pool_of pf s)))"

lemma palloc_bytes:
  assumes "pools_ok s" "palloc pf s = Some (f, s')" "\<not> pool_byte s a"
  shows "mem s' a = mem s a"
proof -
  let ?b = "pool_bitmap (pool_of pf s)"
  have "\<exists>i < pages_of (pool_of pf s). \<not> page_used pf s i" using palloc_full [of pf s] assms(2) by auto
  from palloc_ok [OF assms(1) this] obtain i where i: "i < bm_bits ?b" "a \<noteq> bits ?b + of_nat (i div 8) \<longrightarrow> mem s' a = mem s a"
    using assms(2) by (auto simp: pages_of_def)
  have "i div 8 < unat (btmp_bytes_len ?b)" using i(1) by (simp add: bm_bits_def)
  then have "(of_nat (i div 8) :: u32) < btmp_bytes_len ?b" using unat_lt_32(1) [of "btmp_bytes_len ?b"]
    by (simp add: word_less_nat_alt unat_of_nat_lt del: unat_lt_32)
  then have "bits ?b + of_nat (i div 8) \<noteq> a" using assms(3) by (auto simp: pool_byte_def dest: spec [of _ pf])
  then show ?thesis using i(2) by auto
qed

lemma palloc_free:
  assumes "pools_ok s" "free_pages pf s \<noteq> {}"
  obtains i m where "palloc pf s = Some (page_frame (pool_of pf s) i, s\<lparr>mem := m\<rparr>)" "i \<in> free_pages pf s"
    "free_pages pf (s\<lparr>mem := m\<rparr>) = free_pages pf s - {i}" "\<And>pf'. pf' \<noteq> pf \<Longrightarrow> free_pages pf' (s\<lparr>mem := m\<rparr>) = free_pages pf' s"
proof -
  obtain i s' where a: "palloc pf s = Some (page_frame (pool_of pf s) i, s')" "i \<in> free_pages pf s" "free_pages pf s' = free_pages pf s - {i}"
    using pa.alloc_vacant [OF assms] by metis
  have k: "pools_same pf s s'" using palloc_keeps [OF assms(1) a(1)] by blast
  then obtain m where m: "s' = s\<lparr>mem := m\<rparr>" by (auto simp: pools_same_def)
  have "free_pages pf' s' = free_pages pf' s" if "pf' \<noteq> pf" for pf'
    using k that by (auto simp: vacant_def pools_same_def m)
  then show ?thesis using that a unfolding m by blast
qed

text \<open>Entering one page: the new state, in both cases of the code.\<close>

definition enters :: "addr \<Rightarrow> addr \<Rightarrow> 'a memsys_scheme \<Rightarrow> 'a memsys_scheme \<Rightarrow> bool" where
  "enters va pa s s' \<longleftrightarrow> paging_ok s' \<and> translate s' va = Some (frame pa + (va AND 0xfff)) \<and>
     (\<forall>va'. PDE_IDX va' \<noteq> 1023 \<and> \<not> shares s va va' \<longrightarrow> translate s' va' = translate s va') \<and>
     (\<exists>m t. s' = s\<lparr>mem := m, ptab := t\<rparr>) \<and> (\<forall>a. \<not> pool_byte s a \<longrightarrow> mem s' a = mem s a) \<and>
     (\<forall>j < 1024. j \<noteq> PDE_IDX va \<longrightarrow> pde s' j = pde s j) \<and>
     (if present (pde s (PDE_IDX va)) then pde s' (PDE_IDX va) = pde s (PDE_IDX va)
      else frame (pde s' (PDE_IDX va)) \<notin> table_frames s \<and>
        (\<exists>j \<in> free_pages PF_KERNEL s. frame (pde s' (PDE_IDX va)) = page_frame (kernel_pool s) j))"

lemma page_used_ptab [simp]: "page_used pf (s\<lparr>ptab := t\<rparr>) = page_used pf s" "pool_of pf (s\<lparr>ptab := t\<rparr>) = pool_of pf s"
  "pools_ok (s\<lparr>ptab := t\<rparr>) = pools_ok s"
  by (simp_all add: page_used_def fun_eq_iff pool_of_def pools_ok_def split: pool_flags.split)

lemma page_table_add_enters:
  assumes ok: "paging_ok s" and idx: "PDE_IDX va \<noteq> 1023" and un: "translate s va = None" and free: "free_pages PF_KERNEL s \<noteq> {}"
  shows "\<exists>s'. page_table_add va pa s = Some s' \<and> enters va pa s s' \<and> free_pages PF_USER s' = free_pages PF_USER s \<and>
    (\<exists>i. free_pages PF_KERNEL s' = free_pages PF_KERNEL s - {i})"
proof (cases "present (ptab s (pde_at s va))")
  case True
  let ?s = "s\<lparr>ptab := (ptab s)(pte_at s va := pa OR 7)\<rparr>"
  have "\<not> present (ptab s (pte_at s va))" using un True by (simp add: translate_def split: if_splits)
  from page_table_add_present [OF paging_okD(2) [OF ok] True this] have e: "page_table_add va pa s = Some ?s" .
  have "frame (pte_at s va) \<noteq> frame (cr3 s)"
    using paging_okD(3) [OF ok IDX_less_1023 [OF idx]] True by (simp add: frame_pte_at pde_at_pde)
  note pdes = pde_write_table [OF this]
  have same: "free_pages pf ?s = free_pages pf s" for pf by (simp add: vacant_def)
  have one: "\<exists>i. free_pages PF_KERNEL s = free_pages PF_KERNEL s - {i}"
    by (rule exI [of _ "pages_of (pool_of PF_KERNEL s)"]) (auto simp: vacant_def)
  have "\<exists>m t. ?s = s\<lparr>mem := m, ptab := t\<rparr>" by (intro exI [of _ "mem s"] exI [of _ "ptab ?s"]) simp
  then have "enters va pa s ?s"
    using maps_present(1,2) [OF ok idx True, of pa] maps_present(3) [OF ok idx True, where pa = pa] pdes True
    by (simp add: enters_def pde_at_pde)
  then show ?thesis using e same one by auto
next
  case False
  note sm = paging_okD(2) [OF ok]
  obtain i m where a: "palloc PF_KERNEL s = Some (page_frame (pool_of PF_KERNEL s) i, s\<lparr>mem := m\<rparr>)" "i \<in> free_pages PF_KERNEL s"
    "free_pages PF_KERNEL (s\<lparr>mem := m\<rparr>) = free_pages PF_KERNEL s - {i}" "\<And>pf'. pf' \<noteq> PF_KERNEL \<Longrightarrow> free_pages pf' (s\<lparr>mem := m\<rparr>) = free_pages pf' s"
    using palloc_free [OF paging_okD(1) [OF ok] free] by metis
  let ?f = "page_frame (kernel_pool s) i" and ?s1 = "s\<lparr>mem := m\<rparr>"
  have p: "pool_of PF_KERNEL s = kernel_pool s" by (simp add: pool_of_def)
  have f: "?f \<notin> table_frames s" "frame ?f = ?f"
    using paging_okD(4) [OF ok, of i] paging_okD(5) [OF ok, of PF_KERNEL i] a(2) by (simp_all add: vacant_def p)
  then have fc: "?f \<noteq> frame (cr3 s)" by (auto simp: table_frames_def)
  let ?s' = "?s1\<lparr>ptab := new_table ?f va pa s\<rparr>"
  have e: "page_table_add va pa s = Some ?s'"
    by (rule page_table_add_absent [OF sm idx False a(1) [unfolded p]]) (use f(2) fc in simp_all)
  have c: "cr3 ?s' = cr3 s" "ptab ?s' = new_table ?f va pa s" by simp_all
  note maps = maps_absent [OF ok idx False f c]
  have fp: "free_pages pf ?s' = free_pages pf ?s1" for pf by (simp add: vacant_def)
  have "paging_ok ?s'"
    unfolding paging_ok_def
  proof (intro conjI)
    show "tables_taken ?s'"
      unfolding tables_taken_def
    proof (intro allI impI)
      fix k assume k: "k < pages_of (kernel_pool ?s')" "\<not> page_used PF_KERNEL ?s' k"
      then have "k \<in> free_pages PF_KERNEL s - {i}" using a(3) by (simp add: vacant_def p set_eq_iff) blast
      then have "page_frame (kernel_pool s) k \<notin> table_frames s" "page_frame (kernel_pool s) k \<noteq> ?f"
        using paging_okD(4) [OF ok, of k] page_frame_inj [OF paging_okD(1) [OF ok], of PF_KERNEL] a(2)
        by (auto simp: vacant_def p inj_on_def)
      then show "page_frame (kernel_pool ?s') k \<notin> table_frames ?s'" using maps(3) by simp
    qed
  qed (use ok maps(2) in \<open>simp_all add: paging_ok_def\<close>)
  moreover have "\<exists>m t. ?s' = s\<lparr>mem := m, ptab := t\<rparr>" by blast
  ultimately have "enters va pa s ?s'"
    using maps(1,4,5) False f frame_or_7 [of ?f] palloc_bytes [OF paging_okD(1) [OF ok] a(1)] a(2) unfolding enters_def by (auto simp: pde_at_pde)
  then show ?thesis using e fp a(3) a(4) [of PF_USER] by auto
qed

section \<open>Runs of pages\<close>

definition page_at :: "addr \<Rightarrow> nat \<Rightarrow> addr" where
  "page_at va k = va + of_nat k * PG_SIZE"

text \<open>The addresses of \<open>n\<close> pages that are not mapped, outside the window of the tables, no two with the same entry.\<close>

definition unmapped :: "addr \<Rightarrow> nat \<Rightarrow> 'a mmu_scheme \<Rightarrow> bool" where
  "unmapped va n s \<longleftrightarrow> (\<forall>k < n. PDE_IDX (page_at va k) \<noteq> 1023 \<and> translate s (page_at va k) = None) \<and>
     (\<forall>k < n. \<forall>l < n. k \<noteq> l \<longrightarrow> \<not> shares s (page_at va k) (page_at va l))"

lemma page_at_0 [simp]: "page_at va 0 = va"
  by (simp add: page_at_def)

lemma page_at_Suc: "page_at (va + PG_SIZE) k = page_at va (Suc k)"
  by (simp add: page_at_def algebra_simps)

lemma shares_pde:
  "shares s a b \<longleftrightarrow> PTE_IDX b = PTE_IDX a \<and> (PDE_IDX b = PDE_IDX a \<or>
     present (pde s (PDE_IDX a)) \<and> present (pde s (PDE_IDX b)) \<and> frame (pde s (PDE_IDX b)) = frame (pde s (PDE_IDX a)))"
  by (simp add: shares_def pde_at_pde)

lemma shares_sym: "shares s a b = shares s b a"
  by (auto simp: shares_pde)

lemma enters_shares:
  assumes "enters va pa s s'" "shares s' a b"
  shows "shares s a b"
proof -
  have old: "pde s' (PDE_IDX v) = pde s (PDE_IDX v)" if "PDE_IDX v \<noteq> PDE_IDX va \<or> present (pde s (PDE_IDX va))" for v
    using assms(1) that IDX_less(1) [of v] unfolding enters_def by (cases "PDE_IDX v = PDE_IDX va") (simp_all split: if_splits)
  have new: "frame (pde s' (PDE_IDX va)) \<noteq> frame (pde s (PDE_IDX v))" if "\<not> present (pde s (PDE_IDX va))" "present (pde s (PDE_IDX v))" for v
    using assms(1) that IDX_less(1) [of v] by (auto simp: enters_def table_frames_def)
  show ?thesis
    using assms(2) old [of a] old [of b] new [of a] new [of b] unfolding shares_pde by metis
qed

lemma translate_mem [simp]: "translate (s\<lparr>mem := m\<rparr>) va = translate s va" "pde (s\<lparr>mem := m\<rparr>) j = pde s j" "shares (s\<lparr>mem := m\<rparr>) a b = shares s a b"
  "table_frames (s\<lparr>mem := m\<rparr>) = table_frames s" "dir_ok (s\<lparr>mem := m\<rparr>) = dir_ok s"
  by (simp_all add: translate_def pde_at_def pte_at_def pde_def shares_def table_frames_def dir_ok_def selfmap_def)

lemma paging_ok_mem:
  assumes "paging_ok s" "free_pages PF_KERNEL (s\<lparr>mem := m\<rparr>) \<subseteq> free_pages PF_KERNEL s"
  shows "paging_ok (s\<lparr>mem := m\<rparr>)"
proof -
  have "page_used PF_KERNEL s i \<Longrightarrow> i < pages_of (kernel_pool s) \<Longrightarrow> page_used PF_KERNEL (s\<lparr>mem := m\<rparr>) i" for i
    using assms(2) by (auto simp: vacant_def pool_of_def)
  then have "tables_taken (s\<lparr>mem := m\<rparr>)" using assms(1) by (auto simp: tables_taken_def paging_ok_def)
  then show ?thesis using assms(1) by (simp add: paging_ok_def)
qed

lemma page_frame_not_null:
  assumes "paging_ok s" "i < pages_of (pool_of pf s)"
  shows "page_frame (pool_of pf s) i \<noteq> NULL"
proof -
  have "0 < unat (phy_addr_start (kernel_pool s))" "unat (phy_addr_start (kernel_pool s)) \<le> unat (phy_addr_start (pool_of pf s))"
    using assms(1) by (cases pf; simp add: paging_ok_def pools_ok_def pool_of_def unat_gt_0)+
  then show ?thesis using page_frame_unat [OF paging_okD(1) [OF assms(1)] assms(2)] by auto
qed

lemma card_le_Suc_Diff: "finite A \<Longrightarrow> card A \<le> Suc (card (A - {x}))"
  by (cases "x \<in> A") (simp_all add: card_Suc_Diff1)

text \<open>A frame that is neither a table nor free does not become a table.\<close>

lemma frame_not_table:
  assumes "enters va pa s s'" "f \<notin> table_frames s" "\<And>j. j \<in> free_pages PF_KERNEL s \<Longrightarrow> f \<noteq> page_frame (kernel_pool s) j"
  shows "f \<notin> table_frames s'"
proof
  assume "f \<in> table_frames s'"
  moreover have c: "cr3 s' = cr3 s" using assms(1) by (auto simp: enters_def)
  ultimately obtain j where j: "j < 1024" "present (pde s' j)" "f = frame (pde s' j)" using assms(2) by (auto simp: table_frames_def)
  show False
  proof (cases "pde s' j = pde s j")
    case True
    then show False using j assms(2) by (auto simp: table_frames_def)
  next
    case False
    then have "j = PDE_IDX va" "\<not> present (pde s (PDE_IDX va))" using assms(1) j(1) by (auto simp: enters_def split: if_splits)
    then show False using assms(1,3) j(3) by (auto simp: enters_def)
  qed
qed

text \<open>One iteration of \<open>malloc_page\<close>.\<close>

lemma malloc_step:
  assumes ok: "paging_ok s" and un: "unmapped va (Suc n) s" and enough: "Suc n \<le> card (free_pages pf s)" "2 * Suc n \<le> card (free_pages PF_KERNEL s)"
  obtains i s1 s2 where "palloc pf s = Some (page_frame (pool_of pf s) i, s1)" "page_frame (pool_of pf s) i \<noteq> NULL"
    "page_table_add va (page_frame (pool_of pf s) i) s1 = Some s2" "paging_ok s2" "unmapped (va + PG_SIZE) n s2"
    "i \<in> free_pages pf s" "free_pages pf s2 \<subseteq> free_pages pf s - {i}" "n \<le> card (free_pages pf s2)" "2 * n \<le> card (free_pages PF_KERNEL s2)"
    "enters va (page_frame (pool_of pf s) i) s s2" "pf = PF_KERNEL \<longrightarrow> page_frame (pool_of pf s) i \<notin> table_frames s2"
proof -
  have "free_pages pf s \<noteq> {}" using enough(1) by auto
  from palloc_free [OF paging_okD(1) [OF ok] this] obtain i m where
    a: "palloc pf s = Some (page_frame (pool_of pf s) i, s\<lparr>mem := m\<rparr>)" "i \<in> free_pages pf s" "free_pages pf (s\<lparr>mem := m\<rparr>) = free_pages pf s - {i}"
      "\<And>pf'. pf' \<noteq> pf \<Longrightarrow> free_pages pf' (s\<lparr>mem := m\<rparr>) = free_pages pf' s" by metis
  let ?s1 = "s\<lparr>mem := m\<rparr>" and ?f = "page_frame (pool_of pf s) i"
  have k1: "free_pages PF_KERNEL s - {i} \<subseteq> free_pages PF_KERNEL ?s1" "free_pages PF_KERNEL ?s1 \<subseteq> free_pages PF_KERNEL s"
    using a(3) a(4) [of PF_KERNEL] by (cases pf; auto)+
  have ok1: "paging_ok ?s1" using paging_ok_mem [OF ok k1(2)] .
  have v: "PDE_IDX va \<noteq> 1023" "translate s va = None" using un by (auto simp: unmapped_def dest: spec [of _ 0])
  have c1: "card (free_pages PF_KERNEL s) \<le> Suc (card (free_pages PF_KERNEL ?s1))"
    using card_mono [OF finite_vacant k1(1)] card_le_Suc_Diff [OF finite_vacant, of _ _ s i] by (meson Suc_le_mono le_trans)
  then have "free_pages PF_KERNEL ?s1 \<noteq> {}" using enough(2) by auto
  then obtain s2 where s2: "page_table_add va ?f ?s1 = Some s2" "enters va ?f ?s1 s2" "free_pages PF_USER s2 = free_pages PF_USER ?s1"
    "\<exists>j. free_pages PF_KERNEL s2 = free_pages PF_KERNEL ?s1 - {j}"
    using page_table_add_enters [OF ok1 v(1), of ?f] v(2) by auto
  then obtain j where j: "free_pages PF_KERNEL s2 = free_pages PF_KERNEL ?s1 - {j}" "free_pages PF_USER s2 = free_pages PF_USER ?s1" by blast
  have c2: "card (free_pages PF_KERNEL ?s1) \<le> Suc (card (free_pages PF_KERNEL s2))"
    using card_le_Suc_Diff [OF finite_vacant, of _ _ ?s1 j] j(1) by simp
  have "mem s2 a = mem s a" if "\<not> pool_byte s a" for a
    using that s2(2) palloc_bytes [OF paging_okD(1) [OF ok] a(1) that] by (simp add: enters_def pool_byte_def)
  then have e: "enters va ?f s s2" using s2(2) by (auto simp: enters_def) (use k1(2) in blast)
  have new: "?f \<notin> table_frames s2" if "pf = PF_KERNEL"
  proof (rule frame_not_table [OF s2(2)])
    show "?f \<notin> table_frames ?s1" using paging_okD(4) [OF ok, of i] a(2) that by (simp add: vacant_def pool_of_def)
    show "?f \<noteq> page_frame (kernel_pool ?s1) j" if "j \<in> free_pages PF_KERNEL ?s1" for j
      using page_frame_inj [OF paging_okD(1) [OF ok], of PF_KERNEL] a(2,3) that k1(2) \<open>pf = PF_KERNEL\<close>
      by (auto simp: vacant_def pool_of_def inj_on_def)
  qed
  have un2: "unmapped (va + PG_SIZE) n s2"
    unfolding unmapped_def page_at_Suc
  proof (intro conjI allI impI)
    fix k l assume kl: "k < n" "l < n"
    have *: "\<not> shares s va (page_at va (Suc k))" "PDE_IDX (page_at va (Suc k)) \<noteq> 1023" "translate s (page_at va (Suc k)) = None"
      "k \<noteq> l \<Longrightarrow> \<not> shares s (page_at va (Suc k)) (page_at va (Suc l))"
      using un kl unfolding unmapped_def by (metis Suc_mono page_at_0 zero_less_Suc nat.distinct(1) nat.inject)+
    show "PDE_IDX (page_at va (Suc k)) \<noteq> 1023" using *(2) .
    show "translate s2 (page_at va (Suc k)) = None" using e * by (simp add: enters_def)
    show "\<not> shares s2 (page_at va (Suc k)) (page_at va (Suc l))" if "k \<noteq> l" using *(4) [OF that] enters_shares [OF e] by blast
  qed
  have sub: "free_pages pf s2 \<subseteq> free_pages pf s - {i}" using j a(3) by (cases pf) auto
  have "n \<le> card (free_pages pf s2)"
  proof (cases pf)
    case PF_KERNEL
    then show ?thesis using c1 c2 enough(2) by simp
  next
    case PF_USER
    then have "free_pages pf s2 = free_pages pf s - {i}" using j(2) a(3) by simp
    then show ?thesis using enough(1) card_le_Suc_Diff [OF finite_vacant, of _ _ s i] by (metis Suc_le_mono le_trans)
  qed
  moreover have "?f \<noteq> NULL" using page_frame_not_null [OF ok] a(2) by (simp add: vacant_def)
  moreover have "2 * n \<le> card (free_pages PF_KERNEL s2)" "paging_ok s2" using c1 c2 enough(2) e by (simp_all add: enters_def)
  ultimately show ?thesis using that [OF a(1) _ s2(1)] a(2) sub un2 e new by blast
qed

text \<open>Consecutive pages from \<open>va\<close> are mapped to the page frames with the given indices, and nothing else changed.\<close>

definition mapped_run :: "pool \<Rightarrow> addr \<Rightarrow> nat list \<Rightarrow> 'a memsys_scheme \<Rightarrow> 'a memsys_scheme \<Rightarrow> bool" where
  "mapped_run P va is s s' \<longleftrightarrow>
     (\<forall>k < length is. translate s' (page_at va k) = Some (page_frame P (is ! k) + (page_at va k AND 0xfff))) \<and>
     (\<forall>va'. PDE_IDX va' \<noteq> 1023 \<and> (\<forall>k < length is. \<not> shares s (page_at va k) va') \<longrightarrow> translate s' va' = translate s va')"

lemma mapped_run_Cons:
  assumes e: "enters va (page_frame P i) s s2" "frame (page_frame P i) = page_frame P i" "PDE_IDX va \<noteq> 1023"
    and r: "mapped_run P (va + PG_SIZE) is s2 s'" and d: "\<And>k. k < length is \<Longrightarrow> \<not> shares s va (page_at va (Suc k))"
  shows "mapped_run P va (i # is) s s'"
  unfolding mapped_run_def
proof (intro conjI allI impI)
  have first: "translate s' va = translate s2 va"
    using r e(3) d enters_shares [OF e(1)] unfolding mapped_run_def page_at_Suc by (metis shares_sym)
  fix k assume k: "k < length (i # is)"
  show "translate s' (page_at va k) = Some (page_frame P ((i # is) ! k) + (page_at va k AND 0xfff))"
  proof (cases k)
    case 0
    then show ?thesis using first e(1,2) by (simp add: enters_def)
  next
    case (Suc l)
    then show ?thesis using r k unfolding mapped_run_def page_at_Suc by simp
  qed
next
  fix va' assume a: "PDE_IDX va' \<noteq> 1023 \<and> (\<forall>k < length (i # is). \<not> shares s (page_at va k) va')"
  then have n: "\<not> shares s va va'" "\<And>k. k < length is \<Longrightarrow> \<not> shares s (page_at va (Suc k)) va'" by force+
  have "translate s' va' = translate s2 va'"
    using r n(2) a enters_shares [OF e(1)] unfolding mapped_run_def page_at_Suc by blast
  then show "translate s' va' = translate s va'" using e(1) a n(1) by (simp add: enters_def)
qed

lemma malloc_pages_loop_maps:
  assumes "paging_ok s" "unmapped va n s" "n \<le> card (free_pages pf s)" "2 * n \<le> card (free_pages PF_KERNEL s)" "n < 2 ^ 32"
  shows "\<exists>is s'. malloc_pages_loop pf va (of_nat n) s = Some (True, s') \<and> paging_ok s' \<and> length is = n \<and> distinct is \<and>
    set is \<subseteq> free_pages pf s \<and> set is \<inter> free_pages pf s' = {} \<and> free_pages pf s' \<subseteq> free_pages pf s \<and> mapped_run (pool_of pf s) va is s s' \<and>
    (\<exists>m t. s' = s\<lparr>mem := m, ptab := t\<rparr>) \<and> (\<forall>a. \<not> pool_byte s a \<longrightarrow> mem s' a = mem s a)"
  using assms
proof (induction n arbitrary: va s)
  case 0
  then show ?case by (intro exI [of _ "[]"] exI [of _ s]) (auto simp: malloc_pages_loop.simps mapped_run_def intro!: exI [of _ "mem s"] exI [of _ "ptab s"])
next
  case (Suc n)
  obtain i s1 s2 where st: "palloc pf s = Some (page_frame (pool_of pf s) i, s1)" "page_frame (pool_of pf s) i \<noteq> NULL"
    "page_table_add va (page_frame (pool_of pf s) i) s1 = Some s2" "paging_ok s2" "unmapped (va + PG_SIZE) n s2"
    "i \<in> free_pages pf s" "free_pages pf s2 \<subseteq> free_pages pf s - {i}" "n \<le> card (free_pages pf s2)" "2 * n \<le> card (free_pages PF_KERNEL s2)"
    "enters va (page_frame (pool_of pf s) i) s s2"
    by (rule malloc_step [OF Suc.prems(1-4)])
  obtain m t where mt: "s2 = s\<lparr>mem := m, ptab := t\<rparr>" using st(10) by (auto simp: enters_def)
  then have pool: "pool_of pf s2 = pool_of pf s" by simp
  obtain "is" s' where r: "malloc_pages_loop pf (va + PG_SIZE) (of_nat n) s2 = Some (True, s')" "paging_ok s'" "length is = n" "distinct is"
    "set is \<subseteq> free_pages pf s2" "set is \<inter> free_pages pf s' = {}" "free_pages pf s' \<subseteq> free_pages pf s2"
    "mapped_run (pool_of pf s) (va + PG_SIZE) is s2 s'" "\<exists>m t. s' = s2\<lparr>mem := m, ptab := t\<rparr>"
    "\<forall>a. \<not> pool_byte s2 a \<longrightarrow> mem s' a = mem s2 a"
    using Suc.IH [OF st(4,5,8,9)] Suc.prems(5) unfolding pool by auto
  have nz: "(of_nat (Suc n) :: u32) \<noteq> 0" "(of_nat (Suc n) :: u32) - 1 = of_nat n"
    using of_nat_inj_lt [of "Suc n" 0, where ?'a = 32] Suc.prems(5) by simp_all
  have "malloc_pages_loop pf va (of_nat (Suc n)) s = Some (True, s')"
    using nz st(1-3) r(1) by (subst malloc_pages_loop.simps) simp
  moreover have "mapped_run (pool_of pf s) va (i # is) s s'"
  proof (rule mapped_run_Cons [OF st(10) paging_okD(5) [OF Suc.prems(1)] _ r(8)])
    show "PDE_IDX va \<noteq> 1023" using Suc.prems(2) by (auto simp: unmapped_def dest: spec [of _ 0])
    show "\<not> shares s va (page_at va (Suc k))" if "k < length is" for k
      using Suc.prems(2) that r(3) unfolding unmapped_def by (metis Suc_mono page_at_0 zero_less_Suc nat.distinct(1))
  qed
  moreover have "\<exists>m t. s' = s\<lparr>mem := m, ptab := t\<rparr>" using r(9) mt by auto
  moreover have "\<forall>a. \<not> pool_byte s a \<longrightarrow> mem s' a = mem s a"
    using r(10) st(10) mt by (simp add: enters_def pool_byte_def)
  moreover have "distinct (i # is)" "set (i # is) \<subseteq> free_pages pf s" "set (i # is) \<inter> free_pages pf s' = {}" "free_pages pf s' \<subseteq> free_pages pf s"
    using r(4-7) st(6,7) by auto
  ultimately show ?case using r(2,3) by (intro exI [of _ "i # is"] exI [of _ s']) simp
qed

section \<open>Runs of addresses\<close>

lemma set_bits_spec:
  assumes "k \<le> n" "i + n < 2 ^ 32" "v = 0 \<or> v = 1"
  shows "\<exists>m'. set_bits b (of_nat i) (of_nat k) (of_nat n) v m = Some m' \<and>
    (\<forall>j < 2 ^ 32. used b m' j \<longleftrightarrow> (if i + k \<le> j \<and> j < i + n then v = 1 else used b m j)) \<and>
    (\<forall>a. (\<forall>j. i + k \<le> j \<and> j < i + n \<longrightarrow> a \<noteq> bits b + of_nat (j div 8)) \<longrightarrow> m' a = m a)"
  using assms(1)
proof (induction "n - k" arbitrary: k m)
  case 0
  then have "k = n" by simp
  then show ?case by (auto simp: set_bits.simps)
next
  case (Suc d)
  then have kn: "k < n" "Suc k \<le> n" "d = n - Suc k" by simp_all
  obtain m1 where m1: "bitmap_set b (of_nat (i + k)) v m = Some m1" using bitmap_set_total [OF assms(3)] by blast
  have lt: "i + k < 2 ^ 32" using kn(1) assms(2) by simp
  obtain m' where m': "set_bits b (of_nat i) (of_nat (Suc k)) (of_nat n) v m1 = Some m'"
    "\<forall>j < 2 ^ 32. used b m' j \<longleftrightarrow> (if i + Suc k \<le> j \<and> j < i + n then v = 1 else used b m1 j)"
    "\<forall>a. (\<forall>j. i + Suc k \<le> j \<and> j < i + n \<longrightarrow> a \<noteq> bits b + of_nat (j div 8)) \<longrightarrow> m' a = m1 a"
    using Suc.hyps(1) [OF kn(3,2)] by blast
  have "(of_nat k :: u32) < of_nat n" using kn(1) assms(2) by (simp add: word_less_nat_alt unat_of_nat_lt)
  then have "set_bits b (of_nat i) (of_nat k) (of_nat n) v m = Some m'"
    using m1 m'(1) by (subst set_bits.simps) (simp add: add.commute)
  moreover have "used b m' j \<longleftrightarrow> (if i + k \<le> j \<and> j < i + n then v = 1 else used b m j)" if "j < 2 ^ 32" for j
    using m'(2) that bitmap_set_used [OF m1 lt that] kn(1) by (auto split: if_splits)
  moreover have "m' a = m a" if "\<forall>j. i + k \<le> j \<and> j < i + n \<longrightarrow> a \<noteq> bits b + of_nat (j div 8)" for a
    using m'(3) that bitmap_set_frame [OF m1 lt, of a] kn(1) by auto
  ultimately show ?case by blast
qed

text \<open>The byte of each address bit, and of the one bit behind the last that \<open>bitmap_scan\<close> may return, lies outside the bitmaps of the pools.\<close>

definition vbits_apart :: "bitmap \<Rightarrow> 'a memsys_scheme \<Rightarrow> bool" where
  "vbits_apart b s \<longleftrightarrow> (\<forall>j \<le> bm_bits b. \<not> pool_byte s (bits b + of_nat (j div 8)))"

text \<open>The first \<open>n\<close> consecutive free bits that the scan finds.\<close>

definition vrun :: "bitmap \<Rightarrow> memory \<Rightarrow> nat \<Rightarrow> nat option" where
  "vrun b m n = first_fit b m (if n = 1 then bm_bits b else Suc (bm_bits b)) n"

lemma vrunD:
  assumes "vrun b m n = Some i" "0 < n"
  shows "i + n \<le> Suc (bm_bits b)" "\<forall>k < n. \<not> used b m (i + k)" "i < bm_bits b" "\<not> used b m i"
proof -
  have f: "i < Suc (if n = 1 then bm_bits b else Suc (bm_bits b)) - n" "free_run b m n i"
    using assms(1) by (auto simp: vrun_def first_fit_def find_upt_Some)
  show "i + n \<le> Suc (bm_bits b)" "i < bm_bits b" using f(1) assms(2) by (auto split: if_splits)
  show r: "\<forall>k < n. \<not> used b m (i + k)" using f(2) by (simp add: free_run_def)
  then show "\<not> used b m i" using assms(2) by force
qed

lemma vaddr_get_spec:
  assumes bm: "bm_ok (vaddr_bitmap (vpool pf s))" and run: "vrun (vaddr_bitmap (vpool pf s)) (mem s) n = Some i" and n: "0 < n" "n < 2 ^ 31"
  defines "va \<equiv> vaddr_start (vpool pf s) + of_nat i * PG_SIZE"
  assumes user: "pf = PF_USER \<longrightarrow> va < 0xc0000000 - PG_SIZE"
  shows "\<exists>m. vaddr_get pf (of_nat n) s = Some (va, s\<lparr>mem := m\<rparr>) \<and>
    (\<forall>j < 2 ^ 32. used (vaddr_bitmap (vpool pf s)) m j \<longleftrightarrow> used (vaddr_bitmap (vpool pf s)) (mem s) j \<or> i \<le> j \<and> j < i + n) \<and>
    (\<forall>a. (\<forall>j \<le> bm_bits (vaddr_bitmap (vpool pf s)). a \<noteq> bits (vaddr_bitmap (vpool pf s)) + of_nat (j div 8)) \<longrightarrow> m a = mem s a)"
proof -
  let ?b = "vaddr_bitmap (vpool pf s)"
  note r = vrunD [OF run n(1)]
  have lt: "i + n < 2 ^ 32" "i < 2 ^ 31" using r(1,3) bm_bits_bound [OF bm] by simp_all
  have c: "unat (of_nat n :: u32) = n" "(of_nat n :: u32) = 1 \<longleftrightarrow> n = 1" "(0 :: u32) < of_nat n"
    using n of_nat_inj_lt [of n 1, where ?'a = 32] by (simp_all add: unat_of_nat_lt word_less_nat_alt)
  have "bitmap_scan ?b (of_nat n) (mem s) = Some (of_nat i)"
    using scan_first_fit [OF bm r(3,4) c(3)] run c(1,2) by (simp add: vrun_def)
  moreover have "(of_nat i :: u32) \<noteq> - 1" using lt(2) by (rule of_nat_not_minus_1)
  moreover obtain m where m: "set_bits ?b (of_nat i) 0 (of_nat n) 1 (mem s) = Some m"
    "\<forall>j < 2 ^ 32. used ?b m j \<longleftrightarrow> (if i \<le> j \<and> j < i + n then True else used ?b (mem s) j)"
    "\<forall>a. (\<forall>j. i \<le> j \<and> j < i + n \<longrightarrow> a \<noteq> bits ?b + of_nat (j div 8)) \<longrightarrow> m a = mem s a"
    using set_bits_spec [of 0 n i 1 ?b "mem s"] lt(1) by auto
  ultimately have "vaddr_get pf (of_nat n) s = Some (va, s\<lparr>mem := m\<rparr>)"
    using user by (cases pf) (simp_all add: vaddr_get_def Let_def va_def)
  then show ?thesis using m(2,3) r(1) by (intro exI [of _ m]) auto
qed

lemma same_pool_bytes:
  assumes "\<And>a. pool_byte s a \<Longrightarrow> m a = mem s a" "pools_ok s"
  shows "free_pages pf (s\<lparr>mem := m\<rparr>) = free_pages pf s"
proof -
  let ?b = "pool_bitmap (pool_of pf s)"
  have "used ?b m i = used ?b (mem s) i" if "i < bm_bits ?b" for i
  proof -
    have "i div 8 < unat (btmp_bytes_len ?b)" using that by (simp add: bm_bits_def)
    then have "(of_nat (i div 8) :: u32) < btmp_bytes_len ?b" using unat_lt_32(1) [of "btmp_bytes_len ?b"]
      by (simp add: word_less_nat_alt unat_of_nat_lt del: unat_lt_32)
    then have "pool_byte s (bits ?b + of_nat (i div 8))" unfolding pool_byte_def by (intro exI [of _ pf]) simp
    then show ?thesis using assms(1) by (simp add: used_def)
  qed
  then show ?thesis by (auto simp: vacant_def page_used_def pages_of_def)
qed

text \<open>One cleared page of the kernel, as \<open>get_kernel_pages\<close> hands it out.\<close>

definition page_cleared :: "addr \<Rightarrow> memory \<Rightarrow> bool" where
  "page_cleared va m \<longleftrightarrow> (\<forall>a. a - va < PG_SIZE \<longrightarrow> m a = 0)"

lemma kernel_page_fresh:
  assumes ok: "paging_ok s" and bm: "bm_ok (vaddr_bitmap (kernel_vaddr s))" and apart: "vbits_apart (vaddr_bitmap (kernel_vaddr s)) s"
    and run: "vrun (vaddr_bitmap (kernel_vaddr s)) (mem s) 1 = Some i"
    and va: "va = vaddr_start (kernel_vaddr s) + of_nat i * PG_SIZE" "va \<noteq> NULL" "frame va = va"
    and un: "unmapped va 1 s" and enough: "2 \<le> card (free_pages PF_KERNEL s)" and out: "\<And>a. a - va < PG_SIZE \<Longrightarrow> \<not> pool_byte s a"
  obtains k m t where "get_kernel_pages 1 s = Some (va, s\<lparr>mem := m, ptab := t\<rparr>)" "k \<in> free_pages PF_KERNEL s" "paging_ok (s\<lparr>mem := m, ptab := t\<rparr>)"
    "translate (s\<lparr>mem := m, ptab := t\<rparr>) va = Some (page_frame (kernel_pool s) k)"
    "page_frame (kernel_pool s) k \<notin> table_frames (s\<lparr>mem := m, ptab := t\<rparr>)" "page_cleared va m"
proof -
  have vp: "vpool PF_KERNEL s = kernel_vaddr s" "pool_of PF_KERNEL s = kernel_pool s" by (simp_all add: vpool_def pool_of_def)
  let ?b = "vaddr_bitmap (kernel_vaddr s)"
  obtain m where m: "vaddr_get PF_KERNEL (of_nat 1) s = Some (va, s\<lparr>mem := m\<rparr>)"
    "\<forall>a. (\<forall>j \<le> bm_bits ?b. a \<noteq> bits ?b + of_nat (j div 8)) \<longrightarrow> m a = mem s a"
    using vaddr_get_spec [of PF_KERNEL s 1 i] bm run va(1) by (auto simp: vp)
  let ?s1 = "s\<lparr>mem := m\<rparr>"
  have fp: "free_pages pf' ?s1 = free_pages pf' s" for pf'
  proof (rule same_pool_bytes [OF _ paging_okD(1) [OF ok]])
    show "m a = mem s a" if "pool_byte s a" for a using m(2) apart that unfolding vbits_apart_def by metis
  qed
  have un1: "unmapped va (Suc 0) ?s1" using un by (simp add: unmapped_def)
  have ok1: "paging_ok ?s1" using paging_ok_mem [OF ok, of m] fp by simp
  obtain k s1 s2 where st: "palloc PF_KERNEL ?s1 = Some (page_frame (pool_of PF_KERNEL ?s1) k, s1)" "page_frame (pool_of PF_KERNEL ?s1) k \<noteq> NULL"
    "page_table_add va (page_frame (pool_of PF_KERNEL ?s1) k) s1 = Some s2" "paging_ok s2" "k \<in> free_pages PF_KERNEL ?s1"
    "enters va (page_frame (pool_of PF_KERNEL ?s1) k) ?s1 s2" "PF_KERNEL = PF_KERNEL \<longrightarrow> page_frame (pool_of PF_KERNEL ?s1) k \<notin> table_frames s2"
    by (rule malloc_step [OF ok1 un1, of PF_KERNEL]) (use enough fp in auto)
  obtain m2 t where s2: "s2 = s\<lparr>mem := m2, ptab := t\<rparr>" using st(6) by (auto simp: enters_def)
  define m3 where "m3 = memset_loop va 0 4096 m2"
  have m3: "m3 a = (if a - va < 4096 then 0 else m2 a)" for a by (simp add: m3_def memset_loop_eq)
  let ?s3 = "s\<lparr>mem := m3, ptab := t\<rparr>"
  have "malloc_pages_loop PF_KERNEL va 1 ?s1 = Some (True, s2)"
    using st(1-3) by (subst malloc_pages_loop.simps) (simp add: malloc_pages_loop.simps [of _ _ 0])
  then have g: "get_kernel_pages 1 s = Some (va, ?s3)"
    using m(1) va(2) by (simp add: get_kernel_pages_def malloc_page_def s2 memset_def m3_def del: malloc_pages_loop.simps)
  have "free_pages PF_KERNEL (s2\<lparr>mem := m3\<rparr>) = free_pages PF_KERNEL s2"
  proof (rule same_pool_bytes [OF _ paging_okD(1) [OF st(4)]])
    show "m3 a = mem s2 a" if "pool_byte s2 a" for a using out [of a] that by (auto simp: m3 s2 pool_byte_def)
  qed
  moreover have eq: "s2\<lparr>mem := m3\<rparr> = ?s3" unfolding s2 by (rule memsys.equality) simp_all
  ultimately have ok3: "paging_ok ?s3" using paging_ok_mem [OF st(4), of m3] by (simp only: eq subset_refl)
  have p: "pool_of PF_KERNEL ?s1 = kernel_pool s" by (simp add: pool_of_def)
  have zero: "va AND 0xfff = 0" using frame_plus(2) [of 0 va] va(3) by simp
  have tr: "translate ?s3 va = Some (page_frame (kernel_pool s) k)"
    using st(6) translate_mem(1) [of m3 s2 va, unfolded eq] zero paging_okD(5) [OF ok, of PF_KERNEL k] by (simp add: enters_def p vp)
  have "page_frame (kernel_pool s) k \<notin> table_frames ?s3" using st(7) translate_mem(4) [of m3 s2, unfolded eq] by (simp add: vp)
  then show ?thesis using that [OF g _ ok3 tr] st(5) fp m3 by (simp add: page_cleared_def)
qed

section \<open>Claims\<close>

text \<open>
  C17. Entering a page. In a state where the directory maps itself and the frames of the tables are marked as used, \<open>page_table_add\<close> on an unmapped
  address returns: the address is then translated to the given page, every other address (outside the window in which the
  tables themselves appear) that does not use the same table entry is translated as before, also when a new page table had to be
  allocated and cleared, and the state is again of that form.
\<close>

theorem page_table_add_maps:
  assumes "paging_ok s" "PDE_IDX va \<noteq> 1023" "translate s va = None" "free_pages PF_KERNEL s \<noteq> {}" "frame pa = pa"
  shows "\<exists>s'. page_table_add va pa s = Some s' \<and> paging_ok s' \<and> translate s' va = Some (pa + (va AND 0xfff)) \<and>
    (\<forall>va'. PDE_IDX va' \<noteq> 1023 \<and> \<not> shares s va va' \<longrightarrow> translate s' va' = translate s va')"
  using page_table_add_enters [OF assms(1-4), of pa] assms(5) by (auto simp: enters_def)

text \<open>The machine with 32 MB after \<open>mem_pool_init\<close>, with the first table of the kernel half in place.\<close>

definition bare_paged :: memsys where
  "bare_paged = bare_mem\<lparr>cr3 := 0x100000, ptab := ptab boot_mmu\<rparr>"

lemma vbits_apart_behind:
  assumes "pools_ok s" "unat (bits b) = unat (bits (pool_bitmap (user_pool s))) + unat (btmp_bytes_len (pool_bitmap (user_pool s)))"
    "unat (bits b) + bm_bits b div 8 < 2 ^ 32 - 1"
  shows "vbits_apart b s"
  unfolding vbits_apart_def
proof (intro allI impI)
  fix j assume j: "j \<le> bm_bits b"
  let ?a = "bits b + of_nat (j div 8)"
  have d: "j div 8 \<le> bm_bits b div 8" using j by (rule div_le_mono)
  then have a: "unat ?a = unat (bits b) + j div 8" using assms(3) by (subst unat_add_lt) (simp_all add: unat_of_nat_lt)
  have l: "unat (bits (pool_bitmap (pool_of pf s))) + unat (btmp_bytes_len (pool_bitmap (pool_of pf s))) \<le> unat (bits b)" for pf
    using assms(1,2) by (cases pf) (simp_all add: pools_ok_def pool_of_def)
  have "\<not> ?a - bits p < btmp_bytes_len p" if "unat (bits p) + unat (btmp_bytes_len p) \<le> unat (bits b)" for p :: bitmap
  proof -
    have "bits p \<le> ?a" using a that by (simp add: word_le_nat_alt)
    then have "unat (?a - bits p) = unat ?a - unat (bits p)" by (rule unat_diff_le)
    then show ?thesis using a that by (simp add: word_less_nat_alt)
  qed
  then show "\<not> pool_byte s ?a" using l by (simp add: pool_byte_def)
qed

lemma pool_byte_below:
  assumes "pools_ok s" "pool_byte s a"
  shows "unat a < unat (bits (pool_bitmap (user_pool s))) + unat (btmp_bytes_len (pool_bitmap (user_pool s)))"
proof -
  obtain pf where pf: "a - bits (pool_bitmap (pool_of pf s)) < btmp_bytes_len (pool_bitmap (pool_of pf s))" using assms(2) by (auto simp: pool_byte_def)
  have "unat a < unat b + unat l" if "a - b < l" "unat b + unat l < 2 ^ 32" for b l :: u32
  proof -
    have "unat b + unat (a - b) < 2 ^ LENGTH(32)" using that by (simp add: word_less_nat_alt)
    from unat_add_lt [OF this] have "unat a = unat b + unat (a - b)" by simp
    then show ?thesis using that(1) by (simp add: word_less_nat_alt)
  qed
  from this [OF pf] show ?thesis using assms(1) by (cases pf) (auto simp: pools_ok_def pool_of_def)
qed

lemma boot_dir:
  fixes s :: "'a mmu_scheme"
  assumes "cr3 s = 0x100000" "ptab s = ptab boot_mmu"
  shows "dir_ok s" "table_frames s \<subseteq> {0x100000, 0x101000}"
proof -
  have f: "frame 0x100000 = 0x100000" "frame 0x100007 = 0x100000" "frame 0x101007 = 0x101000" "\<not> present 0" "present 0x100007" by code_simp+
  have idx: "(i :: u32) * 4 = 0xffc \<longleftrightarrow> i = 1023" "i * 4 = 0xc00 \<longleftrightarrow> i = 768" "i * 4 \<noteq> 0x1008" if "i < 1024" for i
    using index_times_4(2) [OF that, of 1023] index_times_4(2) [OF that, of 768] index_times_4(1) [OF that] by auto
  have pde: "pde s i = (if i = 1023 then 0x100007 else if i = 768 then 0x101007 else 0)" if "i < 1024" for i
  proof -
    have move: "0x100000 + i * 4 = c \<longleftrightarrow> i * 4 = c - 0x100000" for c by (auto simp: algebra_simps)
    have eq: "0x100000 + i * 4 = (0x100ffc :: u32) \<longleftrightarrow> i * 4 = 0xffc" "0x100000 + i * 4 = (0x100c00 :: u32) \<longleftrightarrow> i * 4 = 0xc00"
      "0x100000 + i * 4 = (0x101008 :: u32) \<longleftrightarrow> i * 4 = 0x1008" by (simp_all add: move)
    show ?thesis unfolding pde_def assms f(1) boot_mmu_def using idx [OF that] eq by simp
  qed
  have "selfmap s" unfolding selfmap_def assms f(1) boot_mmu_def by (simp add: f Let_def)
  moreover have "frame (pde s i) \<noteq> frame (cr3 s)" if "i < 1023" "present (pde s i)" for i
  proof -
    have "i < 1024" "i \<noteq> 1023" using that(1) by (auto simp: word_less_nat_alt)
    then show ?thesis using pde [of i] that(2) f assms(1) by (auto split: if_splits)
  qed
  ultimately show "dir_ok s" by (simp add: dir_ok_def)
  show "table_frames s \<subseteq> {0x100000, 0x101000}" using pde f assms(1) by (auto simp: table_frames_def split: if_splits)
qed

lemma paged_example:
  obtains s :: memsys where "mem_pool_init 0x2000000 bare_paged = Some s" "paging_ok s" "\<forall>pf. free_pages pf s = {..<3840}"
    "vbits_apart (vaddr_bitmap (kernel_vaddr s)) s" "bm_bits (vaddr_bitmap (kernel_vaddr s)) = 3840" "vaddr_start (kernel_vaddr s) = 0xc0100000"
    "\<forall>i < 3840. \<not> used (vaddr_bitmap (kernel_vaddr s)) (mem s) i" "cr3 s = 0x100000" "ptab s = ptab boot_mmu"
    "\<forall>a. pool_byte s a \<longrightarrow> a < 0xc00a0000"
proof -
  obtain s :: memsys where s: "mem_pool_init 0x2000000 bare_paged = Some s" "pools_ok s" "\<forall>pf i. i < pages_of (pool_of pf s) \<longrightarrow> \<not> page_used pf s i"
    "\<forall>i < bm_bits (vaddr_bitmap (kernel_vaddr s)). \<not> used (vaddr_bitmap (kernel_vaddr s)) (mem s) i"
    "unat (phy_addr_start (kernel_pool s)) = 0x200000" "pages_of (kernel_pool s) = 3840"
    "unat (phy_addr_start (user_pool s)) = 0x1100000" "pages_of (user_pool s) = 3840"
    "vaddr_start (kernel_vaddr s) = 0xc0100000" "bm_bits (vaddr_bitmap (kernel_vaddr s)) = 3840"
    "unat (bits (vaddr_bitmap (kernel_vaddr s))) = unat (bits (pool_bitmap (user_pool s))) + unat (btmp_bytes_len (pool_bitmap (user_pool s)))"
    "unat (bits (vaddr_bitmap (kernel_vaddr s))) + bm_bits (vaddr_bitmap (kernel_vaddr s)) div 8 < 2 ^ 32 - 1"
    "ptab s = ptab bare_paged" "cr3 s = cr3 bare_paged"
    using mem_pool_init_spec [of "0x2000000" bare_paged] by auto
  have c: "cr3 s = 0x100000" "ptab s = ptab boot_mmu" using s(13,14) by (simp_all add: bare_paged_def)
  have starts: "phy_addr_start (kernel_pool s) = 0x200000" "phy_addr_start (user_pool s) = 0x1100000"
    using s(5,7) by (simp_all add: word_unat_eq_iff)
  have al: "frame 0x200000 = 0x200000" "frame 0x1100000 = 0x1100000" by code_simp+
  have n: "pages_of (pool_of pf s) = 3840" for pf using s(6,8) by (cases pf) (simp_all add: pool_of_def)
  have "page_frame (kernel_pool s) i \<notin> table_frames s" if "i < 3840" for i
  proof -
    have "unat (page_frame (kernel_pool s) i) = 0x200000 + 4096 * i"
      using page_frame_unat [OF s(2), of i PF_KERNEL] s(5) n [of PF_KERNEL] that by (simp add: pool_of_def)
    then have "page_frame (kernel_pool s) i \<noteq> 0x100000" "page_frame (kernel_pool s) i \<noteq> 0x101000" by auto
    then show ?thesis using boot_dir(2) [OF c] by blast
  qed
  moreover have "frame (phy_addr_start (pool_of pf s)) = phy_addr_start (pool_of pf s)" for pf
    using starts al by (cases pf) (simp_all add: pool_of_def)
  ultimately have "paging_ok s" using s(2,6) starts boot_dir(1) [OF c] by (simp add: paging_ok_def tables_taken_def)
  moreover have "\<forall>pf. free_pages pf s = {..<3840}" using s(3) n by (auto simp: vacant_def)
  moreover have "vbits_apart (vaddr_bitmap (kernel_vaddr s)) s" using vbits_apart_behind [OF s(2) s(11,12)] .
  moreover have "a < 0xc00a0000" if "pool_byte s a" for a using pool_byte_below [OF s(2) that] s(11) mem_pool_init_low [OF s(1)] by (simp add: word_less_nat_alt)
  ultimately show ?thesis using that [OF s(1)] s(4,9,10) c by simp
qed

theorem page_table_add_maps_witness:
  "\<exists>s s'. mem_pool_init 0x2000000 bare_paged = Some s \<and> page_table_add 0xc0400000 0x200000 s = Some s' \<and>
    translate s' 0xc0400000 = Some 0x200000 \<and> translate s' 0xc0002000 = Some 0x2000"
proof -
  obtain s :: memsys where s: "mem_pool_init 0x2000000 bare_paged = Some s" "paging_ok s" "\<forall>pf. free_pages pf s = {..<3840}"
    "vbits_apart (vaddr_bitmap (kernel_vaddr s)) s" "bm_bits (vaddr_bitmap (kernel_vaddr s)) = 3840" "vaddr_start (kernel_vaddr s) = 0xc0100000"
    "\<forall>i < 3840. \<not> used (vaddr_bitmap (kernel_vaddr s)) (mem s) i" "cr3 s = 0x100000" "ptab s = ptab boot_mmu"
    "\<forall>a. pool_byte s a \<longrightarrow> a < 0xc00a0000" by (rule paged_example)
  have c: "PDE_IDX 0xc0400000 = 769" "PTE_IDX 0xc0400000 = 0" "PTE_IDX 0xc0002000 = 2" "PDE_IDX 0xc0002000 = 768" "frame 0x200000 = 0x200000"
    "(0xc0400000 :: u32) AND 0xfff = 0" "translate boot_mmu 0xc0400000 = None" "translate boot_mmu 0xc0002000 = Some 0x2000" by code_simp+
  have t: "translate s va = translate boot_mmu va" for va using s(8,9) by (simp add: translate_def pde_at_def pte_at_def boot_mmu_def)
  have ne: "free_pages PF_KERNEL s \<noteq> {}" using s(3) lessThan_empty_iff [of "3840 :: nat"] by simp
  obtain s' where "page_table_add 0xc0400000 0x200000 s = Some s'" "translate s' 0xc0400000 = Some 0x200000"
    "\<forall>va'. PDE_IDX va' \<noteq> 1023 \<and> \<not> shares s 0xc0400000 va' \<longrightarrow> translate s' va' = translate s va'"
    using page_table_add_maps [OF s(2), of "0xc0400000" "0x200000"] ne c t by auto
  moreover have "\<not> shares s 0xc0400000 0xc0002000" using c by (simp add: shares_def)
  ultimately show ?thesis using s(1) c t by (intro exI [of _ s] exI [of _ s']) auto
qed

text \<open>
  C2. Allocating pages. If the scan finds \<open>n\<close> free page addresses from \<open>va\<close> on, these are not mapped, and the pools have enough free pages (two of the kernel
  pool per page: the page itself and perhaps a table), then \<open>malloc_page\<close> returns \<open>va\<close>; the \<open>n\<close> pages from \<open>va\<close> on are mapped to \<open>n\<close> different page
  frames of the requested pool that were free before and are in use now, exactly these \<open>n\<close> page addresses become reserved, every address with
  another table entry is translated as before, and the invariant of the paging structures holds again.
\<close>

theorem malloc_page_maps:
  assumes ok: "paging_ok s" and bm: "bm_ok (vaddr_bitmap (vpool pf s))" and apart: "vbits_apart (vaddr_bitmap (vpool pf s)) s"
    and run: "vrun (vaddr_bitmap (vpool pf s)) (mem s) n = Some i" and n: "0 < n" "n < 3840"
    and va: "va = vaddr_start (vpool pf s) + of_nat i * PG_SIZE" "va \<noteq> NULL" "pf = PF_USER \<longrightarrow> va < 0xc0000000 - PG_SIZE"
    and un: "unmapped va n s" and enough: "n \<le> card (free_pages pf s)" "2 * n \<le> card (free_pages PF_KERNEL s)"
  shows "\<exists>is s'. malloc_page pf (of_nat n) s = Some (va, s') \<and> paging_ok s' \<and> length is = n \<and> distinct is \<and>
    set is \<subseteq> free_pages pf s \<and> set is \<inter> free_pages pf s' = {} \<and> mapped_run (pool_of pf s) va is s s' \<and>
    (\<forall>j \<le> bm_bits (vaddr_bitmap (vpool pf s)).
       used (vaddr_bitmap (vpool pf s)) (mem s') j \<longleftrightarrow> used (vaddr_bitmap (vpool pf s)) (mem s) j \<or> i \<le> j \<and> j < i + n)"
proof -
  let ?b = "vaddr_bitmap (vpool pf s)"
  obtain m where m: "vaddr_get pf (of_nat n) s = Some (va, s\<lparr>mem := m\<rparr>)"
    "\<forall>j < 2 ^ 32. used ?b m j \<longleftrightarrow> used ?b (mem s) j \<or> i \<le> j \<and> j < i + n"
    "\<forall>a. (\<forall>j \<le> bm_bits ?b. a \<noteq> bits ?b + of_nat (j div 8)) \<longrightarrow> m a = mem s a"
    using vaddr_get_spec [OF bm run n(1)] n(2) va(1,3) by auto
  let ?s1 = "s\<lparr>mem := m\<rparr>"
  have fp: "free_pages pf' ?s1 = free_pages pf' s" for pf'
  proof (rule same_pool_bytes [OF _ paging_okD(1) [OF ok]])
    show "m a = mem s a" if "pool_byte s a" for a using m(3) apart that unfolding vbits_apart_def by metis
  qed
  have "unmapped va n ?s1" using un by (simp add: unmapped_def)
  then obtain "is" s' where r: "malloc_pages_loop pf va (of_nat n) ?s1 = Some (True, s')" "paging_ok s'" "length is = n" "distinct is"
    "set is \<subseteq> free_pages pf s" "set is \<inter> free_pages pf s' = {}" "mapped_run (pool_of pf s) va is ?s1 s'"
    "\<forall>a. \<not> pool_byte ?s1 a \<longrightarrow> mem s' a = m a"
    using malloc_pages_loop_maps [of ?s1 va n pf] paging_ok_mem [OF ok, of m] enough n(2) fp by auto
  have "used ?b (mem s') j = used ?b m j" if "j \<le> bm_bits ?b" for j
    using r(8) apart that by (simp add: used_def vbits_apart_def pool_byte_def)
  moreover have "j < 2 ^ 32" if "j \<le> bm_bits ?b" for j using that bm_bits_bound [OF bm] by simp
  ultimately have u: "\<forall>j \<le> bm_bits ?b. used ?b (mem s') j \<longleftrightarrow> used ?b (mem s) j \<or> i \<le> j \<and> j < i + n" using m(2) by simp
  have "(0 :: u32) < of_nat n" "(of_nat n :: u32) < 3840" using n by (simp_all add: word_less_nat_alt unat_of_nat_lt)
  then have "malloc_page pf (of_nat n) s = Some (va, s')" using m(1) va(2) r(1) by (simp add: malloc_page_def)
  moreover have "mapped_run (pool_of pf s) va is s s'" using r(7) by (simp add: mapped_run_def)
  ultimately show ?thesis using r u by blast
qed

theorem malloc_page_maps_witness:
  "\<exists>s s'. mem_pool_init 0x2000000 bare_paged = Some s \<and> malloc_page PF_KERNEL 2 s = Some (0xc0100000, s') \<and>
    translate s' 0xc0100000 \<noteq> None \<and> translate s' 0xc0101000 \<noteq> None \<and> translate s' 0xc0100000 \<noteq> translate s' 0xc0101000"
proof -
  obtain s :: memsys where s: "mem_pool_init 0x2000000 bare_paged = Some s" "paging_ok s" "\<forall>pf. free_pages pf s = {..<3840}"
    "vbits_apart (vaddr_bitmap (kernel_vaddr s)) s" "bm_bits (vaddr_bitmap (kernel_vaddr s)) = 3840" "vaddr_start (kernel_vaddr s) = 0xc0100000"
    "\<forall>i < 3840. \<not> used (vaddr_bitmap (kernel_vaddr s)) (mem s) i" "cr3 s = 0x100000" "ptab s = ptab boot_mmu"
    "\<forall>a. pool_byte s a \<longrightarrow> a < 0xc00a0000" by (rule paged_example)
  have v: "vpool PF_KERNEL s = kernel_vaddr s" by (simp add: vpool_def)
  have run: "vrun (vaddr_bitmap (kernel_vaddr s)) (mem s) 2 = Some 0"
    unfolding vrun_def first_fit_def find_upt_Some using s(5,7) by (simp add: free_run_def)
  have c: "PDE_IDX 0xc0100000 = 768" "PTE_IDX 0xc0100000 = 256" "PDE_IDX 0xc0101000 = 768" "PTE_IDX 0xc0101000 = 257"
    "translate boot_mmu 0xc0100000 = None" "translate boot_mmu 0xc0101000 = None" by code_simp+
  have t: "translate s va = translate boot_mmu va" for va using s(8,9) by (simp add: translate_def pde_at_def pte_at_def boot_mmu_def)
  have two: "k < 2 \<longleftrightarrow> k = 0 \<or> k = 1" for k :: nat by auto
  have pg: "page_at 0xc0100000 1 = 0xc0101000" by (simp add: page_at_def)
  have un: "unmapped 0xc0100000 2 s" using c t by (auto simp: unmapped_def two pg shares_def simp del: One_nat_def)
  have bm: "bm_ok (vaddr_bitmap (kernel_vaddr s))" using s(5) by (simp add: bm_ok_def bm_bits_def)
  have fp: "free_pages PF_KERNEL s = {..<3840}" using s(3) by blast
  have pool: "pool_of PF_KERNEL s = kernel_pool s" by (simp add: pool_of_def)
  obtain "is" s' where r: "malloc_page PF_KERNEL 2 s = Some (0xc0100000, s')" "length is = 2" "distinct is"
    "set is \<subseteq> {..<3840}" "mapped_run (kernel_pool s) 0xc0100000 is s s'"
    using malloc_page_maps [OF s(2), of PF_KERNEL 2 0 "0xc0100000", unfolded v fp pool, OF bm s(4) run _ _ _ _ _ un] s(6) by auto
  have ne: "is ! 0 \<noteq> is ! 1" using r(2,3) by (simp add: nth_eq_iff_index_eq)
  have "is ! 0 \<in> set is" "is ! 1 \<in> set is" using r(2) by simp_all
  then have "is ! 0 \<in> free_pages PF_KERNEL s" "is ! 1 \<in> free_pages PF_KERNEL s" using r(4) unfolding fp by blast+
  then have lt: "is ! 0 < pages_of (kernel_pool s)" "is ! 1 < pages_of (kernel_pool s)" by (simp_all only: vacant_def pool mem_Collect_eq)
  have "page_frame (kernel_pool s) (is ! 0) \<noteq> page_frame (kernel_pool s) (is ! 1)"
    using inj_on_eq_iff [OF page_frame_inj [OF paging_okD(1) [OF s(2)], of PF_KERNEL], unfolded pool, of "is ! 0" "is ! 1"] ne lt by simp
  moreover have "translate s' 0xc0100000 = Some (page_frame (kernel_pool s) (is ! 0))" "translate s' 0xc0101000 = Some (page_frame (kernel_pool s) (is ! 1))"
    using r(2,5) pg unfolding mapped_run_def by (auto dest: spec [of _ 0] spec [of _ 1])
  ultimately show ?thesis using s(1) r(1) by auto
qed

end
