(* ===== verification/Heap.thy ===== *)
theory Heap
  imports PageTables
begin

text \<open>
  The heap of \<^verbatim>\<open>kernel/memory.c\<close>: block descriptors, arenas, \<open>sys_malloc\<close> and \<open>sys_free\<close>.
\<close>

section \<open>The heap\<close>

definition desc_at :: "addr \<Rightarrow> nat \<Rightarrow> addr" where
  "desc_at desc_array i = desc_array + of_nat (24 * i)"

definition free_list :: "addr \<Rightarrow> addr" where
  "free_list desc = desc + 8"

definition upd_desc :: "addr \<Rightarrow> (mem_block_desc \<Rightarrow> mem_block_desc) \<Rightarrow> 'a tsys_scheme \<Rightarrow> 'a tsys_scheme" where
  "upd_desc d f s = s\<lparr>descs := (descs s)(d := f (descs s d))\<rparr>"

text \<open>The loop runs over the indices \<open>0, ..., DESC_CNT - 1\<close>; \<open>block_size\<close> is a \<open>uint16_t\<close>.\<close>

primrec block_desc_loop :: "addr \<Rightarrow> nat list \<Rightarrow> u16 \<Rightarrow> 'a tsys_scheme \<Rightarrow> 'a tsys_scheme" where
  "block_desc_loop desc_array [] bsize s = s"
| "block_desc_loop desc_array (i # is) bsize s =
     (let d = desc_at desc_array i;
          s = upd_desc d (\<lambda>e. e\<lparr>block_size := ucast bsize\<rparr>) s;
          s = upd_desc d (\<lambda>e. e\<lparr>blocks_per_arena := (PG_SIZE - 12) div ucast bsize\<rparr>) s;
          s = list_init (free_list d) s
      in block_desc_loop desc_array is (bsize * 2) s)"

definition block_desc_init :: "addr \<Rightarrow> 'a tsys_scheme \<Rightarrow> 'a tsys_scheme" where
  "block_desc_init desc_array s = block_desc_loop desc_array [0..<DESC_CNT] 16 s"

definition arena_desc :: "addr \<Rightarrow> 'a machine_scheme \<Rightarrow> addr" where
  "arena_desc a s = ld32 (mem s) a"

definition arena_cnt :: "addr \<Rightarrow> 'a machine_scheme \<Rightarrow> u32" where
  "arena_cnt a s = ld32 (mem s) (a + 4)"

definition arena_large :: "addr \<Rightarrow> 'a machine_scheme \<Rightarrow> u32" where
  "arena_large a s = ld32 (mem s) (a + 8)"

definition set_word :: "addr \<Rightarrow> u32 \<Rightarrow> 'a machine_scheme \<Rightarrow> 'a machine_scheme" where
  "set_word a w s = s\<lparr>mem := st32 a w (mem s)\<rparr>"

definition arena2block :: "addr \<Rightarrow> u32 \<Rightarrow> 'a tsys_scheme \<Rightarrow> addr" where
  "arena2block a idx s = a + 12 + idx * block_size (descs s (arena_desc a s))"

definition block2arena :: "addr \<Rightarrow> addr" where
  "block2arena b = b AND 0xfffff000"

text \<open>The first descriptor whose blocks are large enough, or \<open>DESC_CNT\<close>.\<close>

definition find_desc :: "addr \<Rightarrow> u32 \<Rightarrow> 'a tsys_scheme \<Rightarrow> nat" where
  "find_desc ds sz s =
     (case find (\<lambda>i. sz \<le> block_size (descs s (desc_at ds i))) [0..<DESC_CNT] of None \<Rightarrow> DESC_CNT | Some i \<Rightarrow> i)"

text \<open>Splitting a new arena into blocks.\<close>

partial_function (option) arena_split :: "addr \<Rightarrow> addr \<Rightarrow> u32 \<Rightarrow> 'a tsys_scheme \<Rightarrow> 'a tsys_scheme option" where
  "arena_split d a block_idx s =
     (if block_idx < blocks_per_arena (descs s d) then do {
        let b = arena2block a block_idx s;
        found \<leftarrow> elem_find (free_list (arena_desc a s)) b s;
        ASSERT (\<not> found);
        arena_split d a (block_idx + 1) (list_append (free_list (arena_desc a s)) b s) }
      else Some s)"

text \<open>A new arena for an empty free list; the flag says that there was a page for it.\<close>

definition arena_new :: "pool_flags \<Rightarrow> addr \<Rightarrow> 'a memsys_scheme \<Rightarrow> (bool \<times> 'a memsys_scheme) option" where
  "arena_new pf d s = do {
     (a, s) \<leftarrow> malloc_page pf 1 s;
     (if a = NULL then do {
        s \<leftarrow> lock_release (pool_lock (pool_of pf s)) s;
        Some (False, s) }
      else do {
        m \<leftarrow> memset a 0 PG_SIZE (mem s);
        let s = s\<lparr>mem := m\<rparr>;
        let s = set_word a d s;
        let s = set_word (a + 8) 0 s;
        let s = set_word (a + 4) (blocks_per_arena (descs s d)) s;
        let (old_status, s) = intr_disable s;
        s \<leftarrow> arena_split d a 0 s;
        Some (True, snd (intr_set_status old_status s)) }) }"

text \<open>Taking the first block off the free list.\<close>

definition block_take :: "pool_flags \<Rightarrow> addr \<Rightarrow> 'a memsys_scheme \<Rightarrow> (addr \<times> 'a memsys_scheme) option" where
  "block_take pf d s = do {
     let (b, s) = list_pop (free_list d) s;
     m \<leftarrow> memset b 0 (block_size (descs s d)) (mem s);
     let s = s\<lparr>mem := m\<rparr>;
     let a = block2arena b;
     let s = set_word (a + 4) (arena_cnt a s - 1) s;
     s \<leftarrow> lock_release (pool_lock (pool_of pf s)) s;
     Some (b, s) }"

text \<open>An index \<open>DESC_CNT\<close> would name a descriptor behind the array.\<close>

definition sys_malloc ::
    "(addr \<Rightarrow> 'a memsys_scheme \<Rightarrow> 'a memsys_scheme option) \<Rightarrow> u32 \<Rightarrow> 'a memsys_scheme \<Rightarrow> (addr \<times> 'a memsys_scheme) option" where
  "sys_malloc others sz s = do {
     let cur_thread = running_thread s;
     let pf = (if pgdir (tasks s cur_thread) = NULL then PF_KERNEL else PF_USER);
     let psize = pool_size (pool_of pf s);
     let ds = (if pgdir (tasks s cur_thread) = NULL then k_block_descs s else cur_thread + 68);
     (if \<not> (0 < sz \<and> sz < psize) then Some (NULL, s)
      else do {
        s \<leftarrow> lock_acquire others (pool_lock (pool_of pf s)) s;
        (if 1024 < sz then do {
           let page_cnt = DIV_ROUND_UP (sz + 12) PG_SIZE;
           (a, s) \<leftarrow> malloc_page pf page_cnt s;
           (if a \<noteq> NULL then do {
              m \<leftarrow> memset a 0 (page_cnt * PG_SIZE) (mem s);
              let s = s\<lparr>mem := m\<rparr>;
              let s = set_word a NULL s;
              let s = set_word (a + 4) page_cnt s;
              let s = set_word (a + 8) 1 s;
              s \<leftarrow> lock_release (pool_lock (pool_of pf s)) s;
              Some (a + 12, s) }
            else do {
              s \<leftarrow> lock_release (pool_lock (pool_of pf s)) s;
              Some (NULL, s) }) }
         else do {
           let desc_idx = find_desc ds sz s;
           ASSERT (desc_idx < DESC_CNT);
           let d = desc_at ds desc_idx;
           (ok, s) \<leftarrow> (if list_empty (free_list d) s then arena_new pf d s else Some (True, s));
           (if \<not> ok then Some (NULL, s) else block_take pf d s) }) }) }"

text \<open>Taking all blocks of a free arena off the free list.\<close>

partial_function (option) arena_unlink :: "addr \<Rightarrow> u32 \<Rightarrow> 'a tsys_scheme \<Rightarrow> 'a tsys_scheme option" where
  "arena_unlink a block_idx s =
     (if block_idx < blocks_per_arena (descs s (arena_desc a s)) then do {
        let b = arena2block a block_idx s;
        found \<leftarrow> elem_find (free_list (arena_desc a s)) b s;
        ASSERT found;
        arena_unlink a (block_idx + 1) (list_remove b s) }
      else Some s)"

definition sys_free ::
    "(addr \<Rightarrow> 'a memsys_scheme \<Rightarrow> 'a memsys_scheme option) \<Rightarrow> addr \<Rightarrow> 'a memsys_scheme \<Rightarrow> 'a memsys_scheme option" where
  "sys_free others ptr s = do {
     ASSERT (ptr \<noteq> NULL);
     pf \<leftarrow> (if pgdir (tasks s (running_thread s)) = NULL then do {
              ASSERT (0xc0100000 \<le> ptr);
              Some PF_KERNEL }
            else Some PF_USER);
     s \<leftarrow> lock_acquire others (pool_lock (pool_of pf s)) s;
     let b = ptr;
     let a = block2arena b;
     ASSERT (arena_large a s = 0 \<or> arena_large a s = 1);
     s \<leftarrow> (if arena_desc a s = NULL \<and> arena_large a s = 1 then mfree_page pf a (arena_cnt a s) s
           else do {
             let s = list_append (free_list (arena_desc a s)) b s;
             let s = set_word (a + 4) (arena_cnt a s + 1) s;
             (if arena_cnt a s = blocks_per_arena (descs s (arena_desc a s)) then do {
                s \<leftarrow> arena_unlink a 0 s;
                mfree_page pf a 1 s }
              else Some s) });
     lock_release (pool_lock (pool_of pf s)) s }"

definition mem_init :: "'a memsys_scheme \<Rightarrow> 'a memsys_scheme option" where
  "mem_init s = do {
     let mem_bytes_total = ld32 (mem s) 0xb00;
     s \<leftarrow> mem_pool_init mem_bytes_total s;
     Some (block_desc_init (k_block_descs s) s) }"

section \<open>Size classes\<close>

declare block_desc_loop.simps [simp del]

lemma desc_at_inj: "i < 7 \<Longrightarrow> j < 7 \<Longrightarrow> desc_at ds i = desc_at ds j \<longleftrightarrow> i = j"
  using of_nat_inj_lt [of "24 * i" "24 * j", where ?'a = 32] by (simp add: desc_at_def del: of_nat_mult)

text \<open>The cells of the free list of a descriptor.\<close>

lemma desc_cells_apart:
  assumes "i < 7" "j < 7" "i \<noteq> j"
  shows "free_list (desc_at ds i) \<noteq> free_list (desc_at ds j)" "free_list (desc_at ds i) \<noteq> tail_of (free_list (desc_at ds j))"
    "tail_of (free_list (desc_at ds i)) \<noteq> tail_of (free_list (desc_at ds j))"
proof -
  show "free_list (desc_at ds i) \<noteq> free_list (desc_at ds j)" "tail_of (free_list (desc_at ds i)) \<noteq> tail_of (free_list (desc_at ds j))"
    using desc_at_inj [OF assms(1,2)] assms(3) by (simp_all add: free_list_def tail_of_def)
  have "(of_nat (24 * i) :: u32) \<noteq> of_nat (24 * j + 8)"
    using of_nat_inj_lt [of "24 * i" "24 * j + 8", where ?'a = 32] assms(1,2) by (simp del: of_nat_mult of_nat_add) presburger
  then show "free_list (desc_at ds i) \<noteq> tail_of (free_list (desc_at ds j))" by (simp add: free_list_def tail_of_def desc_at_def add.commute)
qed

lemma list_init_sel [simp]:
  fixes s :: "'a tsys_scheme"
  shows "descs (list_init l s) = descs s" "mem (list_init l s) = mem s" "tasks (list_init l s) = tasks s" "esp (list_init l s) = esp s"
  by (simp_all add: list_init_def Let_def set_lnext_def set_lprev_def)

text \<open>The state after the first \<open>n\<close> iterations.\<close>

definition class_size :: "nat \<Rightarrow> u32" where
  "class_size i = 16 * 2 ^ i"

definition descs_ready :: "addr \<Rightarrow> nat set \<Rightarrow> 'a tsys_scheme \<Rightarrow> bool" where
  "descs_ready ds I s \<longleftrightarrow> (\<forall>i \<in> I. block_size (descs s (desc_at ds i)) = class_size i \<and>
     blocks_per_arena (descs s (desc_at ds i)) = (PG_SIZE - 12) div class_size i \<and> dlist (elems s) (free_list (desc_at ds i)) [])"

lemma descs_ready_step:
  assumes "descs_ready ds {..<n} s" "n < 7" "ucast b = class_size n"
  defines "d \<equiv> desc_at ds n"
  shows "descs_ready ds {..<Suc n} (list_init (free_list d) (upd_desc d (\<lambda>e. e\<lparr>blocks_per_arena := (PG_SIZE - 12) div ucast b\<rparr>)
    (upd_desc d (\<lambda>e. e\<lparr>block_size := ucast b\<rparr>) s)))"
proof -
  let ?s = "upd_desc d (\<lambda>e. e\<lparr>blocks_per_arena := (PG_SIZE - 12) div ucast b\<rparr>) (upd_desc d (\<lambda>e. e\<lparr>block_size := ucast b\<rparr>) s)"
  have new: "dlist (elems (list_init (free_list d) ?s)) (free_list d) []" by (rule list_init_dlist)
  have "dlist (elems (list_init (free_list d) ?s)) (free_list (desc_at ds i)) []" "desc_at ds i \<noteq> d" if "i < n" for i
  proof -
    show "desc_at ds i \<noteq> d" using desc_at_inj [of i n ds] that assms(2) by (simp add: d_def)
    have "dlist (elems s) (free_list (desc_at ds i)) []" using assms(1) that by (simp add: descs_ready_def)
    then show "dlist (elems (list_init (free_list d) ?s)) (free_list (desc_at ds i)) []"
      using desc_cells_apart [of i n ds] desc_cells_apart(2) [of n i ds] that assms(2)
      by (subst dlist_cong [where h = "elems s"]) (auto simp: cells_def list_init_other upd_desc_def d_def)
  qed
  then show ?thesis
    unfolding descs_ready_def lessThan_Suc using assms(1,3) new by (auto simp: descs_ready_def upd_desc_def d_def)
qed

lemma class_size_16: "i < 7 \<Longrightarrow> ucast (16 * 2 ^ i :: u16) = class_size i"
proof -
  have "\<forall>i \<in> set [0..<7]. ucast (16 * 2 ^ i :: u16) = class_size i" by code_simp
  then show "i < 7 \<Longrightarrow> ucast (16 * 2 ^ i :: u16) = class_size i" by simp
qed

lemma block_desc_loop_ready:
  assumes "descs_ready ds {..<k} s" "k \<le> 7"
  shows "descs_ready ds {..<7} (block_desc_loop ds [k..<7] (16 * 2 ^ k) s)"
  using assms
proof (induction "7 - k" arbitrary: k s)
  case 0
  then show ?case by (simp add: block_desc_loop.simps)
next
  case (Suc n)
  then have k: "k < 7" "[k..<7] = k # [Suc k..<7]" "n = 7 - Suc k" by (simp_all add: upt_conv_Cons)
  show ?case
    using Suc.hyps(1) [OF k(3) descs_ready_step [OF Suc.prems(1) k(1) class_size_16 [OF k(1)]]] k(1)
    unfolding k(2) by (simp add: block_desc_loop.simps Let_def mult.assoc)
qed

lemma block_desc_init_ready: "descs_ready ds {..<7} (block_desc_init ds s)"
  using block_desc_loop_ready [of ds 0 s] by (simp add: block_desc_init_def DESC_CNT_def descs_ready_def)

lemma class_size_unat:
  assumes "i < 7"
  shows "unat (class_size i) = 16 * 2 ^ i" "unat ((PG_SIZE - 12) div class_size i) = 4084 div (16 * 2 ^ i)"
proof -
  have "i \<in> {0, 1, 2, 3, 4, 5, 6}" using assms by auto
  then show u: "unat (class_size i) = 16 * 2 ^ i" by (auto simp: class_size_def)
  show "unat ((PG_SIZE - 12) div class_size i) = 4084 div (16 * 2 ^ i)" by (simp add: unat_div u)
qed

lemma find_desc_spec:
  assumes c: "\<And>i. i < 7 \<Longrightarrow> block_size (descs s (desc_at ds i)) = class_size i" and "sz \<le> 1024"
  shows "find_desc ds sz s < 7" "sz \<le> class_size (find_desc ds sz s)" "\<And>j. j < find_desc ds sz s \<Longrightarrow> class_size j < sz"
proof -
  let ?P = "\<lambda>i. sz \<le> block_size (descs s (desc_at ds i))"
  have "class_size 6 = 1024" by (simp add: class_size_def)
  then have "?P 6" using assms(2) c [of 6] by simp
  then obtain i where i: "find ?P [0..<7] = Some i" by (cases "find ?P [0..<7]") (auto simp: find_upt_None)
  then have f: "find_desc ds sz s = i" by (simp add: find_desc_def DESC_CNT_def)
  show "find_desc ds sz s < 7" "sz \<le> class_size (find_desc ds sz s)" using i c unfolding f find_upt_Some by auto
  show "class_size j < sz" if "j < find_desc ds sz s" for j
    using i c [of j] that unfolding f find_upt_Some by (metis less_trans not_le)
qed

section \<open>Arenas\<close>

text \<open>The blocks of an arena at \<open>a\<close> with blocks of the size of class \<open>i\<close>.\<close>

definition class_blocks :: "nat \<Rightarrow> nat" where
  "class_blocks i = 4084 div (16 * 2 ^ i)"

lemma class_blocks_pos:
  assumes "i < 7"
  shows "0 < class_blocks i"
proof -
  have "i \<in> {0, 1, 2, 3, 4, 5, 6}" using assms by auto
  then show ?thesis by (auto simp: class_blocks_def)
qed

definition block_at :: "addr \<Rightarrow> nat \<Rightarrow> nat \<Rightarrow> addr" where
  "block_at a i k = a + 12 + of_nat k * class_size i"

lemma block_offset:
  assumes "i < 7" "k < class_blocks i"
  shows "unat (block_at a i k - a) = 12 + k * (16 * 2 ^ i)" "12 + k * (16 * 2 ^ i) + 16 * 2 ^ i \<le> 4096"
proof -
  have "Suc k * (16 * 2 ^ i) \<le> class_blocks i * (16 * 2 ^ i)" using assms(2) by (intro mult_le_mono1) simp
  also have "\<dots> \<le> 4084" unfolding class_blocks_def by (rule div_times_less_eq_dividend)
  finally show le: "12 + k * (16 * 2 ^ i) + 16 * 2 ^ i \<le> 4096" by simp
  have "block_at a i k - a = of_nat (12 + k * (16 * 2 ^ i))"
    by (simp add: block_at_def class_size_def)
  moreover have "12 + k * (16 * 2 ^ i) < 2 ^ LENGTH(32)" using le by simp
  ultimately show "unat (block_at a i k - a) = 12 + k * (16 * 2 ^ i)" by (simp only: unat_of_nat_lt)
qed

lemma block_byte:
  assumes "i < 7" "k < class_blocks i" "x < class_size i"
  shows "unat (block_at a i k + x - a) = 12 + k * (16 * 2 ^ i) + unat x" "block_at a i k + x - a < 4096"
proof -
  have x: "unat x < 16 * 2 ^ i" using assms(3) class_size_unat(1) [OF assms(1)] by (simp add: word_less_nat_alt)
  have e: "block_at a i k + x - a = (block_at a i k - a) + x" by simp
  show u: "unat (block_at a i k + x - a) = 12 + k * (16 * 2 ^ i) + unat x"
    unfolding e using x block_offset(1) [OF assms(1,2), of a] block_offset(2) [OF assms(1,2)] by (subst unat_add_lt) simp_all
  show "block_at a i k + x - a < 4096" using u x block_offset(2) [OF assms(1,2)] by (simp add: word_less_nat_alt)
qed

lemma block_arena: "i < 7 \<Longrightarrow> k < class_blocks i \<Longrightarrow> x < class_size i \<Longrightarrow> frame a = a \<Longrightarrow> block2arena (block_at a i k + x) = a"
  using block_byte(2) [of i k x a] in_frame [of a "block_at a i k + x"] by (simp add: block2arena_def frame_def)

lemma blocks_disjoint:
  assumes "i < 7" "k < class_blocks i" "l < class_blocks i" "x < class_size i" "y < class_size i" "block_at a i k + x = block_at a i l + y"
  shows "k = l"
proof -
  have xy: "unat x < 16 * 2 ^ i" "unat y < 16 * 2 ^ i" using assms(4,5) class_size_unat(1) [OF assms(1)] by (simp_all add: word_less_nat_alt)
  have "k * (16 * 2 ^ i) + unat x = l * (16 * 2 ^ i) + unat y"
    using block_byte(1) [OF assms(1,2,4), of a] block_byte(1) [OF assms(1,3,5), of a] assms(6) by simp
  then have "(k * (16 * 2 ^ i) + unat x) div (16 * 2 ^ i) = (l * (16 * 2 ^ i) + unat y) div (16 * 2 ^ i)" by (rule arg_cong)
  moreover have "(k * n + u) div n = k" if "u < n" for k n u :: nat using that by simp
  ultimately show ?thesis using xy by metis
qed

lemma class_size_pos: "i < 7 \<Longrightarrow> 0 < class_size i"
  using class_size_unat(1) [of i] by (simp add: word_less_nat_alt)

lemma block_at_inj: "i < 7 \<Longrightarrow> inj_on (block_at a i) {..<class_blocks i}"
  using blocks_disjoint [of i _ _ 0 0 a] class_size_pos [of i] by (auto simp: inj_on_def)

text \<open>The descriptor at \<open>d\<close> is the one of class \<open>i\<close>.\<close>

definition desc_class :: "addr \<Rightarrow> nat \<Rightarrow> 'a tsys_scheme \<Rightarrow> bool" where
  "desc_class d i s \<longleftrightarrow> i < 7 \<and> block_size (descs s d) = class_size i \<and> blocks_per_arena (descs s d) = (PG_SIZE - 12) div class_size i"

abbreviation blocks_from :: "addr \<Rightarrow> nat \<Rightarrow> nat \<Rightarrow> addr list" where
  "blocks_from a i k \<equiv> map (block_at a i) [k..<class_blocks i]"

lemma desc_class_less:
  assumes "desc_class d i s" "k \<le> class_blocks i"
  shows "(of_nat k :: u32) < blocks_per_arena (descs s d) \<longleftrightarrow> k < class_blocks i"
proof -
  have n: "unat (blocks_per_arena (descs s d)) = class_blocks i"
    using assms(1) class_size_unat(2) [of i] by (simp add: desc_class_def class_blocks_def)
  have "class_blocks i \<le> 4084" unfolding class_blocks_def by (rule div_le_dividend)
  then have "unat (of_nat k :: u32) = k" using assms(2) by (intro unat_of_nat_lt) simp
  then show ?thesis by (simp add: word_less_nat_alt n)
qed

lemma arena2block_eq: "desc_class d i s \<Longrightarrow> arena_desc a s = d \<Longrightarrow> arena2block a (of_nat k) s = block_at a i k"
  by (simp add: arena2block_def desc_class_def block_at_def)

lemma elems_update_sel [simp]:
  fixes s :: "'a tsys_scheme"
  shows "arena_desc a (s\<lparr>elems := h\<rparr>) = arena_desc a s" "desc_class d i (s\<lparr>elems := h\<rparr>) = desc_class d i s"
  by (simp_all add: arena_desc_def desc_class_def)

lemma set_word_descs [simp]: "descs (set_word a w s) = descs (s :: 'a tsys_scheme)"
  by (simp add: set_word_def)

lemma pool_of_elems [simp]: "pool_of pf (s\<lparr>elems := h\<rparr>) = pool_of pf s"
  by (simp add: pool_of_def split: pool_flags.split)

lemma list_append_eq: "list_append l e s = s\<lparr>elems := insert_cells (tail_of l) e (elems s)\<rparr>"
  by (simp add: list_append_def list_insert_before_eq)

lemma insert_tail_other:
  assumes "dlist h l xs" "c \<notin> set (cells l xs)" "c \<noteq> e"
  shows "insert_cells (tail_of l) e h c = h c"
  using insert_cells_other [of h l xs "[]" "tail_of l" c e] assms by simp

lemma arena_split_spec:
  assumes "desc_class d i s" "arena_desc a s = d" "dlist (elems s) (free_list d) xs"
    "set (blocks_from a i k) \<inter> set (cells (free_list d) xs) = {}" "k \<le> class_blocks i"
  shows "\<exists>h. arena_split d a (of_nat k) s = Some (s\<lparr>elems := h\<rparr>) \<and> dlist h (free_list d) (xs @ blocks_from a i k) \<and>
    (\<forall>c. c \<notin> set (cells (free_list d) (xs @ blocks_from a i k)) \<longrightarrow> h c = elems s c)"
  using assms
proof (induction "class_blocks i - k" arbitrary: k s xs)
  case 0
  then have "k = class_blocks i" by simp
  then show ?case using 0 desc_class_less [OF 0(2), of k] by (auto simp: arena_split.simps intro!: exI [of _ "elems s"])
next
  case (Suc n)
  let ?l = "free_list d" and ?b = "block_at a i k"
  have k: "k < class_blocks i" "n = class_blocks i - Suc k" using Suc.hyps(2) by simp_all
  have up: "[k..<class_blocks i] = k # [Suc k..<class_blocks i]" using k(1) by (rule upt_conv_Cons)
  have nb: "?b \<notin> set (cells ?l xs)" using Suc.prems(4) up by auto
  let ?h1 = "insert_cells (tail_of ?l) ?b (elems s)"
  let ?s1 = "s\<lparr>elems := ?h1\<rparr>"
  have d1: "dlist (elems ?s1) ?l (xs @ [?b])" using list_append_dlist [OF Suc.prems(3) nb] by (simp add: list_append_eq)
  have "block_at a i j \<noteq> ?b" if "j \<in> set [Suc k..<class_blocks i]" for j
    using inj_on_eq_iff [OF block_at_inj [of i a], of j k] that k(1) Suc.prems(1) by (simp add: desc_class_def)
  then have "?b \<notin> set (blocks_from a i (Suc k))" by force
  then have "set (blocks_from a i (Suc k)) \<inter> set (cells ?l (xs @ [?b])) = {}" using Suc.prems(4) up by (auto simp: cells_def)
  then obtain h where h: "arena_split d a (of_nat (Suc k)) ?s1 = Some (?s1\<lparr>elems := h\<rparr>)" "dlist h ?l ((xs @ [?b]) @ blocks_from a i (Suc k))"
    "\<forall>c. c \<notin> set (cells ?l ((xs @ [?b]) @ blocks_from a i (Suc k))) \<longrightarrow> h c = elems ?s1 c"
    using Suc.hyps(1) [OF k(2), of ?s1 "xs @ [?b]"] Suc.prems(1,2) d1 k(1) by auto
  have "arena_split d a (of_nat k) s = Some (s\<lparr>elems := h\<rparr>)"
    using desc_class_less [OF Suc.prems(1), of k] k(1) arena2block_eq [OF Suc.prems(1,2), of k] elem_find_dlist [OF Suc.prems(3), of ?b] nb h(1) Suc.prems(2)
    by (subst arena_split.simps) (simp add: cells_def list_append_eq add.commute)
  moreover have "h c = elems s c" if "c \<notin> set (cells ?l (xs @ blocks_from a i k))" for c
    using h(3) that insert_tail_other [OF Suc.prems(3), of c ?b] up by (simp add: cells_def)
  ultimately show ?case using h(2) up by auto
qed

section \<open>Allocation under the lock of the pool\<close>

lemma locked_sel [simp]:
  fixes s :: "'a memsys_scheme"
  shows "mem (locked l s) = mem s" "elems (locked l s) = elems s" "tasks (locked l s) = tasks s" "descs (locked l s) = descs s"
    "esp (locked l s) = esp s" "ptab (locked l s) = ptab s" "cr3 (locked l s) = cr3 s" "kernel_pool (locked l s) = kernel_pool s"
    "user_pool (locked l s) = user_pool s" "kernel_vaddr (locked l s) = kernel_vaddr s" "eflags (locked l s) = eflags s"
    "pool_of pf (locked l s) = pool_of pf s" "desc_class d i (locked l s) = desc_class d i s"
  by (simp_all add: locked_def upd_lock_def set_value_def pool_of_def desc_class_def split: pool_flags.split)

text \<open>The pool and the descriptors of the running thread.\<close>

definition heap_flag :: "'a memsys_scheme \<Rightarrow> pool_flags" where
  "heap_flag s = (if pgdir (tasks s (running_thread s)) = NULL then PF_KERNEL else PF_USER)"

definition heap_descs :: "'a memsys_scheme \<Rightarrow> addr" where
  "heap_descs s = (if pgdir (tasks s (running_thread s)) = NULL then k_block_descs s else running_thread s + 68)"

definition heap_lock :: "'a memsys_scheme \<Rightarrow> addr" where
  "heap_lock s = pool_lock (pool_of (heap_flag s) s)"

text \<open>Handing out the block \<open>b\<close> of an arena: its bytes are cleared and the count of free blocks goes down by one.\<close>

definition handed_out :: "addr \<Rightarrow> u32 \<Rightarrow> memory \<Rightarrow> memory" where
  "handed_out b sz m = (let m = memset_loop b 0 sz m; a = block2arena b in st32 (a + 4) (ld32 m (a + 4) - 1) m)"

lemma list_pop_eq: "list_pop l s = (lnext (elems s l), s\<lparr>elems := remove_cells (lnext (elems s l)) (elems s)\<rparr>)"
  by (simp add: list_pop_def list_remove_eq Let_def)

lemma sys_malloc_listed:
  assumes size: "0 < sz" "sz < pool_size (pool_of (heap_flag s) s)" "sz \<le> 1024"
    and lk: "lock_free (heap_lock s) s" and ds: "\<And>i. i < 7 \<Longrightarrow> desc_class (desc_at (heap_descs s) i) i s"
    and d: "d = desc_at (heap_descs s) (find_desc (heap_descs s) sz s)"
    and fl: "dlist (elems s) (free_list d) (b # bs)" and b: "b \<noteq> NULL"
    and w: "waiters (lock_sema (heap_lock s)) \<notin> set (cells (free_list d) (b # bs))"
  shows "sys_malloc others sz s = Some (b, s\<lparr>elems := remove_cells b (elems s), mem := handed_out b (block_size (descs s d)) (mem s)\<rparr>)"
proof -
  let ?l = "heap_lock s" and ?i = "find_desc (heap_descs s) sz s"
  let ?s1 = "locked ?l s"
  have i: "?i < 7" using find_desc_spec(1) [of s "heap_descs s" sz] ds size(3) by (simp add: desc_class_def)
  have hd: "lnext (elems s (free_list d)) = b" "\<not> list_empty (free_list d) ?s1"
    using dlist_head [OF fl] fl by (auto simp: list_empty_def dlist_def cells_def)
  have fd: "find_desc (heap_descs s) sz ?s1 = ?i" by (simp add: find_desc_def)
  let ?s2 = "?s1\<lparr>elems := remove_cells b (elems s), mem := handed_out b (block_size (descs s d)) (mem s)\<rparr>"
  have "elems ?s2 (waiters (lock_sema ?l)) = elems s (waiters (lock_sema ?l))"
    using remove_cells_other [of "elems s" "free_list d" "[]" b bs] fl w by simp
  then have "list_empty (waiters (lock_sema ?l)) ?s2" using lk by (simp add: lock_free_def list_empty_def)
  then have rel: "lock_release ?l ?s2 = Some (?s2\<lparr>semas := semas s, locks := locks s\<rparr>)" by (intro lk.release_law [OF lk]) (simp add: lock_kept_def)
  have "?s2\<lparr>semas := semas s, locks := locks s\<rparr>
      = s\<lparr>elems := remove_cells b (elems s), mem := handed_out b (block_size (descs s d)) (mem s)\<rparr>"
    by (simp add: locked_def upd_lock_def set_value_def)
  with rel have rel2: "lock_release ?l ?s2 = Some (s\<lparr>elems := remove_cells b (elems s), mem := handed_out b (block_size (descs s d)) (mem s)\<rparr>)" by simp
  have big: "\<not> 1024 < sz" using size(3) by simp
  have fold1: "(if pgdir (tasks s (running_thread s)) = NULL then PF_KERNEL else PF_USER) = heap_flag s"
    "(if pgdir (tasks s (running_thread s)) = NULL then k_block_descs s else running_thread s + 68) = heap_descs s"
    by (simp_all add: heap_flag_def heap_descs_def)
  show ?thesis
    unfolding sys_malloc_def Let_def fold1
    using size(1,2) i hd b rel2 lk.acquire_law [OF lk, of others] fd d big
    by (simp add: DESC_CNT_def block_take_def memset_def list_pop_eq handed_out_def set_word_def arena_cnt_def Let_def heap_lock_def [symmetric])
qed

text \<open>The header of the arena is not part of any block.\<close>

lemma header_kept:
  assumes "i < 7" "k < class_blocks i" "unat j < 12"
  shows "\<not> a + j - block_at a i k < class_size i"
proof
  let ?x = "a + j - block_at a i k"
  assume "?x < class_size i"
  from block_byte(1) [OF assms(1,2) this, of a] show False using assms(3) by simp
qed

lemma arena_words:
  fixes m :: memory
  assumes "i < 7" "k < class_blocks i" "frame a = a"
  defines "m' \<equiv> handed_out (block_at a i k) (class_size i) m"
  shows "ld32 m' a = ld32 m a" "ld32 m' (a + 4) = ld32 m (a + 4) - 1" "ld32 m' (a + 8) = ld32 m (a + 8)"
    "x - block_at a i k < class_size i \<Longrightarrow> m' x = 0"
proof -
  let ?b = "block_at a i k" and ?n = "class_size i"
  have ba: "block2arena ?b = a" using block_arena [OF assms(1,2) class_size_pos [OF assms(1)] assms(3)] by simp
  have hd: "memset_loop ?b 0 ?n m (a + j) = m (a + j)" if "unat j < 12" for j
    using header_kept [OF assms(1,2) that, of a] by (simp add: memset_loop_eq)
  have ld: "ld32 (memset_loop ?b 0 ?n m) a = ld32 m a" "ld32 (memset_loop ?b 0 ?n m) (a + 4) = ld32 m (a + 4)"
    "ld32 (memset_loop ?b 0 ?n m) (a + 8) = ld32 m (a + 8)"
    by (rule ld32_cong; use hd [of 0] hd [of 1] hd [of 2] hd [of 3] hd [of 4] hd [of 5] hd [of 6] hd [of 7] hd [of 8] hd [of 9] hd [of 10] hd [of 11]
      in \<open>simp add: add.assoc\<close>)+
  have m': "m' = st32 (a + 4) (ld32 m (a + 4) - 1) (memset_loop ?b 0 ?n m)"
    using ld(2) by (simp add: m'_def handed_out_def Let_def ba)
  show "ld32 m' (a + 4) = ld32 m (a + 4) - 1" by (simp add: m')
  show "ld32 m' a = ld32 m a" "ld32 m' (a + 8) = ld32 m (a + 8)"
    using ld(1,3) by (simp_all add: m' ld32_st32_other)
  show "m' x = 0" if x: "x - ?b < ?n"
  proof -
    have u: "12 \<le> unat (x - a)" using block_byte(1) [OF assms(1,2) x, of a] by simp
    then have "4 \<le> x - a" by (simp add: word_le_nat_alt)
    then have "unat (x - a - 4) = unat (x - a) - 4" by (subst unat_diff_le) simp_all
    then have "3 < x - (a + 4)" using u by (simp add: word_less_nat_alt diff_diff_eq)
    then show ?thesis using x by (simp add: m' st32_other memset_loop_eq)
  qed
qed

lemma sys_free_listed:
  assumes lk: "lock_free (heap_lock s) s" and kern: "pgdir (tasks s (running_thread s)) = NULL \<longrightarrow> 0xc0100000 \<le> b"
    and b: "b \<noteq> NULL" "b = block_at a i k" "k < class_blocks i" "frame a = a"
    and d: "arena_desc a s = d" "desc_class d i s" "arena_large a s = 0"
    and fl: "dlist (elems s) (free_list d) bs" "waiters (lock_sema (heap_lock s)) \<notin> insert b (set (cells (free_list d) bs))"
    and cnt: "arena_cnt a s + 1 \<noteq> blocks_per_arena (descs s d)"
  shows "sys_free others b s =
    Some (s\<lparr>elems := insert_cells (tail_of (free_list d)) b (elems s), mem := st32 (a + 4) (arena_cnt a s + 1) (mem s)\<rparr>)"
proof -
  let ?l = "heap_lock s" and ?h = "insert_cells (tail_of (free_list d)) b (elems s)"
  let ?s1 = "locked ?l s"
  let ?s2 = "?s1\<lparr>elems := ?h, mem := st32 (a + 4) (arena_cnt a s + 1) (mem s)\<rparr>"
  have i: "i < 7" using d(2) by (simp add: desc_class_def)
  have ba: "block2arena b = a" using block_arena [OF i b(3) class_size_pos [OF i] b(4)] b(2) by simp
  have "elems ?s2 (waiters (lock_sema ?l)) = elems s (waiters (lock_sema ?l))"
    using insert_tail_other [OF fl(1), of "waiters (lock_sema ?l)" b] fl(2) by simp
  then have "list_empty (waiters (lock_sema ?l)) ?s2" using lk by (simp add: lock_free_def list_empty_def)
  then have "lock_release ?l ?s2 = Some (?s2\<lparr>semas := semas s, locks := locks s\<rparr>)" by (intro lk.release_law [OF lk]) (simp add: lock_kept_def)
  moreover have "?s2\<lparr>semas := semas s, locks := locks s\<rparr> = s\<lparr>elems := ?h, mem := st32 (a + 4) (arena_cnt a s + 1) (mem s)\<rparr>"
    by (simp add: locked_def upd_lock_def set_value_def)
  ultimately have rel: "lock_release ?l ?s2 = Some (s\<lparr>elems := ?h, mem := st32 (a + 4) (arena_cnt a s + 1) (mem s)\<rparr>)" by simp
  have pf: "(if pgdir (tasks s (running_thread s)) = NULL then do {
      ASSERT (0xc0100000 \<le> b); Some PF_KERNEL } else Some PF_USER) = Some (heap_flag s)"
    using kern by (simp add: heap_flag_def)
  have w: "ld32 (st32 (a + 4) v (mem s)) a = d" for v using d(1) by (simp add: ld32_st32_other arena_desc_def)
  have large: "arena_large a ?s1 = 0" "arena_desc a ?s1 = d" using d(1,3) by (simp_all add: arena_large_def arena_desc_def)
  show ?thesis
    unfolding sys_free_def pf using b(1) rel lk.acquire_law [OF lk, of others] large cnt
    by (simp add: Let_def ba list_append_eq set_word_def arena_cnt_def arena_desc_def w heap_lock_def [symmetric])
qed

text \<open>The header and the cleared bytes of a new arena.\<close>

definition fresh_arena :: "addr \<Rightarrow> addr \<Rightarrow> u32 \<Rightarrow> memory \<Rightarrow> memory" where
  "fresh_arena a d n m = st32 (a + 4) n (st32 (a + 8) 0 (st32 a d (memset_loop a 0 PG_SIZE m)))"

lemma fresh_arena_words: "ld32 (fresh_arena a d n m) a = d" "ld32 (fresh_arena a d n m) (a + 4) = n" "ld32 (fresh_arena a d n m) (a + 8) = 0"
  by (simp_all add: fresh_arena_def ld32_st32_other)

lemma split_bracket:
  assumes "desc_class d i s" "arena_desc a s = d" "dlist (elems s) (free_list d) []" "frame a = a"
    "frame (free_list d) \<noteq> a" "frame (tail_of (free_list d)) \<noteq> a"
  obtains old s1 h where "intr_disable s = (old, s1)" "arena_split d a 0 s1 = Some (s1\<lparr>elems := h\<rparr>)"
    "snd (intr_set_status old (s1\<lparr>elems := h\<rparr>)) = s\<lparr>elems := h\<rparr>" "dlist h (free_list d) (blocks_from a i 0)"
    "\<forall>c. frame c \<noteq> a \<and> c \<noteq> free_list d \<and> c \<noteq> tail_of (free_list d) \<longrightarrow> h c = elems s c"
proof -
  obtain old e where e: "intr_disable s = (old, s\<lparr>eflags := e\<rparr>)" using intr_disable_eq by blast
  let ?s1 = "s\<lparr>eflags := e\<rparr>"
  have i: "i < 7" using assms(1) by (simp add: desc_class_def)
  have fr: "frame (block_at a i k) = a" if "k < class_blocks i" for k
    using block_arena [OF i that class_size_pos [OF i] assms(4)] by (simp add: block2arena_def frame_def)
  then have "set (blocks_from a i 0) \<inter> set (cells (free_list d) []) = {}" using assms(5,6) by (auto simp: cells_def)
  then obtain h where h: "arena_split d a (of_nat 0) ?s1 = Some (?s1\<lparr>elems := h\<rparr>)" "dlist h (free_list d) ([] @ blocks_from a i 0)"
    "\<forall>c. c \<notin> set (cells (free_list d) ([] @ blocks_from a i 0)) \<longrightarrow> h c = elems ?s1 c"
    using arena_split_spec [of d i ?s1 a "[]" 0] assms(1-3) by (auto simp: desc_class_def arena_desc_def)
  have "snd (intr_set_status old (?s1\<lparr>elems := h\<rparr>)) = s\<lparr>elems := elems (?s1\<lparr>elems := h\<rparr>)\<rparr>" by (rule bracket_elems [OF e]) simp_all
  moreover have "\<forall>c. frame c \<noteq> a \<and> c \<noteq> free_list d \<and> c \<noteq> tail_of (free_list d) \<longrightarrow> h c = elems s c"
    using h(3) fr by (auto simp: cells_def)
  ultimately show ?thesis using that [OF e] h(1,2) by simp
qed

lemma sys_malloc_fresh:
  assumes size: "0 < sz" "sz < pool_size (pool_of (heap_flag s) s)" "sz \<le> 1024"
    and lk: "lock_free (heap_lock s) s" and ds: "\<And>i. i < 7 \<Longrightarrow> desc_class (desc_at (heap_descs s) i) i s"
    and i: "i = find_desc (heap_descs s) sz s" and d: "d = desc_at (heap_descs s) i"
    and fl: "dlist (elems s) (free_list d) []"
    and pg: "malloc_page (heap_flag s) 1 (locked (heap_lock s) s) = Some (a, (locked (heap_lock s) s)\<lparr>mem := m, ptab := t\<rparr>)" "a \<noteq> NULL" "frame a = a"
    and apart: "frame (free_list d) \<noteq> a" "frame (tail_of (free_list d)) \<noteq> a" "frame (waiters (lock_sema (heap_lock s))) \<noteq> a"
      "waiters (lock_sema (heap_lock s)) \<notin> {free_list d, tail_of (free_list d)}"
  shows "\<exists>h. sys_malloc others sz s = Some (block_at a i 0, s\<lparr>ptab := t, elems := h, mem := handed_out (block_at a i 0) (class_size i)
      (fresh_arena a d (blocks_per_arena (descs s d)) m)\<rparr>) \<and> dlist h (free_list d) (blocks_from a i 1)"
proof -
  let ?l = "heap_lock s" and ?n = "blocks_per_arena (descs s d)" and ?b = "block_at a i 0"
  let ?s1 = "locked ?l s" and ?F = "fresh_arena a d (blocks_per_arena (descs s d)) m"
  have i7: "i < 7" using find_desc_spec(1) [of s "heap_descs s" sz] ds size(3) unfolding i by (simp add: desc_class_def)
  have dc: "desc_class d i s" using ds [OF i7] d by simp
  let ?s3 = "?s1\<lparr>ptab := t, mem := ?F\<rparr>"
  have "desc_class d i ?s3" "arena_desc a ?s3 = d" "dlist (elems ?s3) (free_list d) []"
    using dc fl fresh_arena_words(1) by (simp_all add: desc_class_def arena_desc_def)
  then obtain old s4 h where h: "intr_disable ?s3 = (old, s4)" "arena_split d a 0 s4 = Some (s4\<lparr>elems := h\<rparr>)"
    "snd (intr_set_status old (s4\<lparr>elems := h\<rparr>)) = ?s3\<lparr>elems := h\<rparr>" "dlist h (free_list d) (blocks_from a i 0)"
    "\<forall>c. frame c \<noteq> a \<and> c \<noteq> free_list d \<and> c \<noteq> tail_of (free_list d) \<longrightarrow> h c = elems ?s3 c"
    using split_bracket [OF _ _ _ pg(3) apart(1,2), of i ?s3] by metis
  have "class_blocks i \<noteq> 0" using class_blocks_pos [OF i7] by simp
  then have bs: "blocks_from a i 0 = ?b # blocks_from a i 1" by (simp add: upt_conv_Cons)
  have "block2arena ?b = a"
    using block_arena [OF i7 class_blocks_pos [OF i7] class_size_pos [OF i7] pg(3)] by simp
  then have nz: "?b \<noteq> NULL" using pg(2) by (auto simp: block2arena_def)
  have hd: "lnext (h (free_list d)) = ?b" using dlist_head [OF h(4)] bs by simp
  let ?h = "remove_cells ?b h"
  have fin: "dlist ?h (free_list d) (blocks_from a i 1)" using dlist_remove [of h "free_list d" "[]" ?b "blocks_from a i 1"] h(4) bs by simp
  let ?M = "handed_out ?b (class_size i) ?F"
  let ?s5 = "?s1\<lparr>ptab := t, elems := ?h, mem := ?M\<rparr>"
  have out: "waiters (lock_sema ?l) \<notin> set (cells (free_list d) (blocks_from a i 0))"
  proof -
    have "frame (block_at a i k) = a" if "k < class_blocks i" for k
      using block_arena [OF i7 that class_size_pos [OF i7] pg(3)] by (simp add: block2arena_def frame_def)
    then show ?thesis using apart(3,4) by (auto simp: cells_def)
  qed
  have "?h (waiters (lock_sema ?l)) = h (waiters (lock_sema ?l))"
    using remove_cells_other [of h "free_list d" "[]" ?b "blocks_from a i 1"] h(4) out bs by simp
  also have "\<dots> = elems s (waiters (lock_sema ?l))" using h(5) apart(3,4) by simp
  finally have "?h (waiters (lock_sema ?l)) = elems s (waiters (lock_sema ?l))" .
  then have "list_empty (waiters (lock_sema ?l)) ?s5" using lk by (simp add: lock_free_def list_empty_def)
  then have "lock_release ?l ?s5 = Some (?s5\<lparr>semas := semas s, locks := locks s\<rparr>)" by (intro lk.release_law [OF lk]) (simp add: lock_kept_def)
  then have rel: "lock_release ?l ?s5 = Some (s\<lparr>ptab := t, elems := ?h, mem := ?M\<rparr>)" by (simp add: locked_def upd_lock_def set_value_def)
  have big: "\<not> 1024 < sz" using size(3) by simp
  have fold1: "(if pgdir (tasks s (running_thread s)) = NULL then PF_KERNEL else PF_USER) = heap_flag s"
    "(if pgdir (tasks s (running_thread s)) = NULL then k_block_descs s else running_thread s + 68) = heap_descs s"
    by (simp_all add: heap_flag_def heap_descs_def)
  have fd: "find_desc (heap_descs s) sz ?s1 = i" unfolding i by (simp add: find_desc_def)
  have em: "list_empty (free_list d) ?s1" using list_empty_dlist [of ?s1 "free_list d" "[]"] fl by simp
  have set3: "set_word (a + 4) ?n (set_word (a + 8) 0 (set_word a d (?s1\<lparr>ptab := t, mem := memset_loop a 0 PG_SIZE m\<rparr>))) = ?s3"
    by (simp add: set_word_def fresh_arena_def)
  have new: "arena_new (heap_flag s) d ?s1 = Some (True, ?s3\<lparr>elems := h\<rparr>)"
    using pg h(1-3) set3 by (simp add: arena_new_def memset_def Let_def)
  have take: "block_take (heap_flag s) d (?s3\<lparr>elems := h\<rparr>) = Some (?b, s\<lparr>ptab := t, elems := ?h, mem := ?M\<rparr>)"
    using rel hd nz dc by (simp add: block_take_def memset_def list_pop_eq handed_out_def set_word_def arena_cnt_def Let_def heap_lock_def desc_class_def)
  have "sys_malloc others sz s = Some (?b, s\<lparr>ptab := t, elems := ?h, mem := ?M\<rparr>)"
    unfolding sys_malloc_def Let_def fold1
    using size(1,2) i7 lk.acquire_law [OF lk, of others] fd big em d new take
    by (simp add: DESC_CNT_def heap_lock_def [symmetric])
  then show ?thesis using fin by blast
qed

section \<open>Claims\<close>



text \<open>
  C21. Allocating and freeing a small block. With a free block in the list of the class, \<open>sys_malloc\<close> returns the first one with all its bytes zero and counts it in its arena; giving
  it back with \<open>sys_free\<close>, while another block of the arena is still in use, appends it to the free list and restores the count, and in
  between and afterwards the lock of the pool is free again.
\<close>

theorem heap_malloc_free:
  assumes size: "0 < sz" "sz < pool_size (pool_of (heap_flag s) s)" "sz \<le> 1024"
    and lk: "lock_free (heap_lock s) s" and ds: "\<And>i. i < 7 \<Longrightarrow> desc_class (desc_at (heap_descs s) i) i s"
    and i: "i = find_desc (heap_descs s) sz s" and d: "d = desc_at (heap_descs s) i"
    and fl: "dlist (elems s) (free_list d) (b # bs)" "waiters (lock_sema (heap_lock s)) \<notin> set (cells (free_list d) (b # bs))"
    and b: "b = block_at a i k" "k < class_blocks i" "frame a = a" "b \<noteq> NULL" "heap_flag s = PF_KERNEL \<longrightarrow> 0xc0100000 \<le> b"
    and arena: "arena_desc a s = d" "arena_large a s = 0" "arena_cnt a s \<noteq> blocks_per_arena (descs s d)"
  shows "\<exists>s1 s2. sys_malloc others sz s = Some (b, s1) \<and> (\<forall>x < block_size (descs s d). mem s1 (b + x) = 0) \<and>
    arena_cnt a s1 = arena_cnt a s - 1 \<and> dlist (elems s1) (free_list d) bs \<and> lock_free (heap_lock s) s1 \<and>
    sys_free others b s1 = Some s2 \<and> dlist (elems s2) (free_list d) (bs @ [b]) \<and> arena_cnt a s2 = arena_cnt a s \<and> lock_free (heap_lock s) s2"
proof -
  have i7: "i < 7" using find_desc_spec(1) [of s "heap_descs s" sz] ds size(3) unfolding i by (simp add: desc_class_def)
  have dc: "desc_class d i s" using ds [OF i7] d by simp
  then have bsz: "block_size (descs s d) = class_size i" by (simp add: desc_class_def)
  let ?l = "heap_lock s" and ?h1 = "remove_cells b (elems s)" and ?m1 = "handed_out b (class_size i) (mem s)"
  let ?s1 = "s\<lparr>elems := ?h1, mem := ?m1\<rparr>"
  have a1: "sys_malloc others sz s = Some (b, ?s1)"
    using sys_malloc_listed [OF size lk ds d [unfolded i] fl(1) b(4) fl(2), of others] unfolding bsz .
  have d1: "dlist ?h1 (free_list d) bs" using dlist_remove [of "elems s" "free_list d" "[]" b bs] fl(1) by simp
  have nb: "b \<notin> set (cells (free_list d) bs)" using fl(1) by (auto simp: dlist_def cells_def)
  have w: "?h1 (waiters (lock_sema ?l)) = elems s (waiters (lock_sema ?l))"
    using remove_cells_other [of "elems s" "free_list d" "[]" b bs] fl by simp
  have same: "heap_lock ?s1 = ?l" "running_thread ?s1 = running_thread s" "desc_class d i ?s1" "descs ?s1 = descs s" "tasks ?s1 = tasks s"
    using dc by (simp_all add: heap_lock_def heap_flag_def running_thread_def desc_class_def pool_of_def split: pool_flags.split)
  have lk1: "lock_free ?l ?s1" using lk w by (simp add: lock_free_def list_empty_def running_thread_def)
  note words = arena_words [OF i7 b(2,3), where m = "mem s", folded b(1)]
  have ar1: "arena_desc a ?s1 = d" "arena_large a ?s1 = 0" "arena_cnt a ?s1 = arena_cnt a s - 1"
    using words(1-3) arena(1,2) by (simp_all add: arena_desc_def arena_large_def arena_cnt_def)
  let ?s2 = "?s1\<lparr>elems := insert_cells (tail_of (free_list d)) b ?h1, mem := st32 (a + 4) (arena_cnt a s) ?m1\<rparr>"
  have a2: "sys_free others b ?s1 = Some ?s2"
    using sys_free_listed [of ?s1 b a i k d bs others] lk1 same ar1 b d1 nb fl(2) arena(3) d1
    by (simp add: heap_flag_def cells_def split: if_splits)
  have d2: "dlist (elems ?s2) (free_list d) (bs @ [b])" using list_append_dlist [of ?s1 "free_list d" bs b] d1 nb by (simp add: list_append_eq)
  have "elems ?s2 (waiters (lock_sema ?l)) = elems s (waiters (lock_sema ?l))"
    using insert_tail_other [OF d1, of "waiters (lock_sema ?l)" b] w fl(2) by (simp add: cells_def)
  then have lk2: "lock_free ?l ?s2" using lk by (simp add: lock_free_def list_empty_def running_thread_def)
  show ?thesis
    using a1 a2 d1 d2 lk1 lk2 ar1(3) words(4) bsz by (intro exI [of _ ?s1] exI [of _ ?s2]) (simp add: arena_cnt_def)
qed

text \<open>A kernel heap whose class of 32 bytes has two free blocks in an arena at \<open>0xc0200000\<close>.\<close>

definition heap_ready :: memsys where
  "heap_ready = lock_init 0xc0006000 (block_desc_init 0xc0006200 (bare_mem\<lparr>kernel_pool := (kernel_pool bare_mem)\<lparr>pool_size := 0x1000000\<rparr>\<rparr>))"

definition heap_two :: memsys where
  "heap_two = list_append 0xc0006220 0xc020002c (list_append 0xc0006220 0xc020000c
     (set_word 0xc0200008 0 (set_word 0xc0200004 2 (set_word 0xc0200000 0xc0006218 heap_ready))))"

lemma block_desc_init_frame [simp]:
  fixes s :: "'a memsys_scheme"
  shows "tasks (block_desc_init ds s) = tasks s" "esp (block_desc_init ds s) = esp s" "kernel_pool (block_desc_init ds s) = kernel_pool s"
    "k_block_descs (block_desc_init ds s) = k_block_descs s"
proof -
  have "tasks (block_desc_loop ds is b s) = tasks s \<and> esp (block_desc_loop ds is b s) = esp s \<and> kernel_pool (block_desc_loop ds is b s) = kernel_pool s \<and>
      k_block_descs (block_desc_loop ds is b s) = k_block_descs s" for "is" b
    by (induction "is" arbitrary: b s) (simp_all add: block_desc_loop.simps Let_def upd_desc_def list_init_def set_lnext_def set_lprev_def)
  then show "tasks (block_desc_init ds s) = tasks s" "esp (block_desc_init ds s) = esp s" "kernel_pool (block_desc_init ds s) = kernel_pool s"
    "k_block_descs (block_desc_init ds s) = k_block_descs s" by (simp_all add: block_desc_init_def)
qed

lemma lock_init_more [simp]:
  fixes s :: "'a memsys_scheme"
  shows "tasks (lock_init l s) = tasks s" "esp (lock_init l s) = esp s" "k_block_descs (lock_init l s) = k_block_descs s" "descs (lock_init l s) = descs s"
  by (simp_all add: lock_init_def sema_init_def list_init_def set_lnext_def set_lprev_def Let_def upd_lock_def set_value_def)

lemma lock_init_free:
  assumes "running_thread s \<noteq> NULL"
  shows "lock_free l (lock_init l s)"
proof -
  have "list_empty (waiters (lock_sema l)) (lock_init l s)"
    using list_empty_dlist [OF list_init_dlist] by (simp add: lock_init_def sema_init_def Let_def)
  then show ?thesis
    using assms by (simp add: lock_free_def) (simp add: lock_init_def sema_init_def list_init_def set_lnext_def set_lprev_def Let_def upd_lock_def set_value_def running_thread_def)
qed

lemma heap_ready_facts:
  "heap_descs heap_ready = 0xc0006200" "heap_flag heap_ready = PF_KERNEL" "heap_lock heap_ready = 0xc0006000"
  "lock_free 0xc0006000 heap_ready" "pool_size (pool_of PF_KERNEL heap_ready) = 0x1000000" "dlist (elems heap_ready) 0xc0006220 []"
  "i < 7 \<Longrightarrow> desc_class (desc_at 0xc0006200 i) i heap_ready"
proof -
  have r: "running_thread bare_mem = 0xc009e000" "pgdir (tasks bare_mem 0xc009e000) = NULL" "k_block_descs bare_mem = 0xc0006200"
    "pool_lock (kernel_pool bare_mem) = 0xc0006000" by code_simp+
  have t: "running_thread heap_ready = 0xc009e000" "tasks heap_ready = tasks bare_mem" "k_block_descs heap_ready = 0xc0006200"
    "kernel_pool heap_ready = (kernel_pool bare_mem)\<lparr>pool_size := 0x1000000\<rparr>" using r by (simp_all add: heap_ready_def running_thread_def)
  show "heap_descs heap_ready = 0xc0006200" "heap_flag heap_ready = PF_KERNEL" "pool_size (pool_of PF_KERNEL heap_ready) = 0x1000000"
    using t r by (simp_all add: heap_descs_def heap_flag_def pool_of_def)
  then show "heap_lock heap_ready = 0xc0006000" using t r by (simp add: heap_lock_def pool_of_def)
  show "lock_free 0xc0006000 heap_ready" unfolding heap_ready_def using r by (intro lock_init_free) (simp add: running_thread_def)
  have d: "descs_ready 0xc0006200 {..<7} (block_desc_init 0xc0006200 (bare_mem\<lparr>kernel_pool := (kernel_pool bare_mem)\<lparr>pool_size := 0x1000000\<rparr>\<rparr>))"
    by (rule block_desc_init_ready)
  then show "i < 7 \<Longrightarrow> desc_class (desc_at 0xc0006200 i) i heap_ready" by (simp add: heap_ready_def descs_ready_def desc_class_def)
  have c: "free_list (desc_at 0xc0006200 1) = 0xc0006220" "tail_of 0xc0006220 = 0xc0006228"
    "waiters (lock_sema 0xc0006000) = 0xc0006008" "tail_of 0xc0006008 = 0xc0006010" by code_simp+
  then have l: "dlist (elems (block_desc_init 0xc0006200 (bare_mem\<lparr>kernel_pool := (kernel_pool bare_mem)\<lparr>pool_size := 0x1000000\<rparr>\<rparr>))) 0xc0006220 []"
    using bspec [OF d [unfolded descs_ready_def], of 1] by simp
  show "dlist (elems heap_ready) 0xc0006220 []"
    by (subst dlist_cong [OF _, THEN iffD2, OF _ l])
      (simp_all add: heap_ready_def lock_init_def sema_init_def Let_def cells_def c list_init_other upd_lock_def set_value_def)
qed

theorem heap_malloc_free_witness:
  "\<exists>s1 s2. sys_malloc (\<lambda>_ _. None) 20 heap_two = Some (0xc020000c, s1) \<and> arena_cnt 0xc0200000 s1 = 1 \<and>
    sys_free (\<lambda>_ _. None) 0xc020000c s1 = Some s2 \<and> dlist (elems s2) 0xc0006220 [0xc020002c, 0xc020000c]"
proof -
  let ?s0 = "set_word 0xc0200008 0 (set_word 0xc0200004 2 (set_word 0xc0200000 0xc0006218 heap_ready))"
  have c: "free_list (desc_at 0xc0006200 1) = 0xc0006220" "desc_at 0xc0006200 1 = 0xc0006218" "tail_of 0xc0006220 = 0xc0006228" "block_at 0xc0200000 1 0 = 0xc020000c"
    "waiters (lock_sema 0xc0006000) = 0xc0006008" "frame 0xc0200000 = 0xc0200000" "class_blocks 1 = 127" "class_size 0 = 16" "class_size 1 = 32" by code_simp+
  have e: "elems ?s0 = elems heap_ready" by (simp add: set_word_def)
  have l0: "dlist (elems ?s0) 0xc0006220 []" using heap_ready_facts(6) e by simp
  have l1: "dlist (elems (list_append 0xc0006220 0xc020000c ?s0)) 0xc0006220 [0xc020000c]"
    using list_append_dlist [OF l0, of "0xc020000c"] c by (simp add: cells_def)
  have l2: "dlist (elems heap_two) 0xc0006220 [0xc020000c, 0xc020002c]"
    using list_append_dlist [OF l1, of "0xc020002c"] c by (simp add: cells_def heap_two_def)
  have eq: "heap_two = ?s0\<lparr>elems := elems heap_two\<rparr>" by (simp add: heap_two_def list_append_eq)
  have sel: "descs heap_two = descs heap_ready" "locks heap_two = locks heap_ready" "semas heap_two = semas heap_ready" "tasks heap_two = tasks heap_ready"
    "esp heap_two = esp heap_ready" "kernel_pool heap_two = kernel_pool heap_ready" "k_block_descs heap_two = k_block_descs heap_ready" "mem heap_two = mem ?s0"
    by (subst eq, simp add: set_word_def)+
  have hs: "heap_descs heap_two = 0xc0006200" "heap_flag heap_two = PF_KERNEL" "heap_lock heap_two = 0xc0006000" "pool_size (pool_of PF_KERNEL heap_two) = 0x1000000"
    using heap_ready_facts(1,2,3,5) sel running_thread_cong [OF sel(5)] by (simp_all add: heap_descs_def heap_flag_def heap_lock_def pool_of_def split: if_splits)
  have ds: "desc_class (desc_at 0xc0006200 i) i heap_two" if "i < 7" for i using heap_ready_facts(7) [OF that] sel(1) by (simp add: desc_class_def)
  have "elems (list_append 0xc0006220 0xc020000c ?s0) 0xc0006008 = elems heap_ready 0xc0006008"
    using insert_tail_other [OF l0, of "0xc0006008" "0xc020000c"] c by (simp add: list_append_eq cells_def e)
  then have "elems heap_two 0xc0006008 = elems heap_ready 0xc0006008"
    using insert_tail_other [OF l1, of "0xc0006008" "0xc020002c"] c by (simp add: heap_two_def list_append_eq cells_def)
  then have lk: "lock_free (heap_lock heap_two) heap_two"
    using heap_ready_facts(4) sel hs(3) c(5) by (simp add: lock_free_def list_empty_def running_thread_def)
  have f: "find_desc 0xc0006200 20 heap_two < 7" "20 \<le> class_size (find_desc 0xc0006200 20 heap_two)"
    "\<And>j. j < find_desc 0xc0006200 20 heap_two \<Longrightarrow> class_size j < 20"
    using find_desc_spec [of heap_two "0xc0006200" 20] ds by (auto simp: desc_class_def)
  have fd: "find_desc 0xc0006200 20 heap_two = 1"
  proof -
    have "\<not> (20 :: u32) \<le> 16" by simp
    then have "find_desc 0xc0006200 20 heap_two \<noteq> 0" using f(2) c(8) by metis
    moreover have "\<not> 1 < find_desc 0xc0006200 20 heap_two" using f(3) [of 1] c(9) by auto
    ultimately show ?thesis by linarith
  qed
  have ar: "arena_desc 0xc0200000 heap_two = 0xc0006218" "arena_large 0xc0200000 heap_two = 0" "arena_cnt 0xc0200000 heap_two = 2"
    using sel(8) by (simp_all add: arena_desc_def arena_large_def arena_cnt_def set_word_def ld32_st32_other)
  have bpa: "blocks_per_arena (descs heap_two 0xc0006218) = 127" using ds [of 1] c by (simp add: desc_class_def)
  obtain s1 s2 where r: "sys_malloc (\<lambda>_ _. None) 20 heap_two = Some (0xc020000c, s1)" "arena_cnt 0xc0200000 s1 = arena_cnt 0xc0200000 heap_two - 1"
    "sys_free (\<lambda>_ _. None) 0xc020000c s1 = Some s2" "dlist (elems s2) (free_list 0xc0006218) ([0xc020002c] @ [0xc020000c])"
    using heap_malloc_free [of 20 heap_two 1 "0xc0006218" "0xc020000c" "[0xc020002c]" "0xc0200000" 0 "\<lambda>_ _. None"] hs lk ds fd c l2 ar bpa
    by (auto simp: cells_def)
  then show ?thesis using ar(3) c by (intro exI [of _ s1] exI [of _ s2]) simp
qed

end
