(* ===== verification/Gates.thy ===== *)
theory Gates
  imports Heap
begin

text \<open>
  The tables of the processor: interrupt gates, the handler table and the interrupt controller of \<^verbatim>\<open>kernel/interrupt.c\<close>, segment descriptors and the task
  state segment of \<^verbatim>\<open>userprog/tss.c\<close>, with the selectors and attributes of \<^verbatim>\<open>kernel/global.h\<close>. The record \<open>tables\<close> adds
  to the state the descriptor table of interrupts, the table of handlers (by the address of the function), the operands of \<open>lidt\<close>, \<open>lgdt\<close> and \<open>ltr\<close>, the
  task state segment (whose field \<open>esp0\<close> is in \<^verbatim>\<open>Thread\<close>) and the sequence of bytes written to I/O ports, the last one first. Messages printed on the way
  are not part of the state.

  The lemmas decode the entries the way the processor does: a descriptor yields the base, limit and attributes it was made of, and a gate the
  address of its handler.
\<close>

section \<open>Constants\<close>

definition IDT_DESC_ATTR_DPL0 :: u8 where
  "IDT_DESC_ATTR_DPL0 = push_bit 7 1 + push_bit 5 0 + 0xe"

definition IDT_DESC_ATTR_DPL3 :: u8 where
  "IDT_DESC_ATTR_DPL3 = push_bit 7 1 + push_bit 5 3 + 0xe"

definition SELECTOR_K_CODE :: u16 where
  "SELECTOR_K_CODE = push_bit 3 1 + push_bit 2 0 + 0"

definition SELECTOR_K_DATA :: u16 where
  "SELECTOR_K_DATA = push_bit 3 2 + push_bit 2 0 + 0"

definition SELECTOR_K_STACK :: u16 where
  "SELECTOR_K_STACK = SELECTOR_K_DATA"

definition SELECTOR_TSS :: u16 where
  "SELECTOR_TSS = push_bit 3 4 + push_bit 2 0 + 0"

definition SELECTOR_U_CODE :: u16 where
  "SELECTOR_U_CODE = push_bit 3 5 + push_bit 2 0 + 3"

definition SELECTOR_U_DATA :: u16 where
  "SELECTOR_U_DATA = push_bit 3 6 + push_bit 2 0 + 3"

definition GDT_ATTR_HIGH :: u8 where
  "GDT_ATTR_HIGH = push_bit 7 1 + push_bit 6 1 + push_bit 5 0 + push_bit 4 0"

definition GDT_CODE_ATTR_LOW_DPL3 :: u8 where
  "GDT_CODE_ATTR_LOW_DPL3 = push_bit 7 1 + push_bit 5 3 + push_bit 4 1 + 8"

definition GDT_DATA_ATTR_LOW_DPL3 :: u8 where
  "GDT_DATA_ATTR_LOW_DPL3 = push_bit 7 1 + push_bit 5 3 + push_bit 4 1 + 2"

definition TSS_ATTR_HIGH :: u8 where
  "TSS_ATTR_HIGH = push_bit 7 1 + push_bit 6 0 + push_bit 5 0 + push_bit 4 0 + 0"

definition TSS_ATTR_LOW :: u8 where
  "TSS_ATTR_LOW = push_bit 7 1 + push_bit 5 0 + push_bit 4 0 + 9"

definition EFLAGS_MBS :: u32 where
  "EFLAGS_MBS = push_bit 1 1"

definition EFLAGS_IF_1 :: u32 where
  "EFLAGS_IF_1 = push_bit 9 1"

definition EFLAGS_IOPL_0 :: u32 where
  "EFLAGS_IOPL_0 = push_bit 12 0"

definition IDT_DESC_CNT :: nat where
  "IDT_DESC_CNT = 0x81"

section \<open>State\<close>

record gate_desc =
  func_offset_low_word :: u16
  selector :: u16
  dcount :: u8
  attribute :: u8
  func_offset_high_word :: u16

record gdt_desc =
  limit_low_word :: u16
  base_low_word :: u16
  base_mid_byte :: u8
  attr_low_byte :: u8
  limit_high_attr_high :: u8
  base_high_byte :: u8

record tss =
  backlink :: u32
  ss0 :: u32
  esp1 :: addr
  ss1 :: u32
  esp2 :: addr
  ss2 :: u32
  tss_cr3 :: u32
  tss_eip :: u32
  tss_eflags :: u32
  tss_eax :: u32
  tss_ecx :: u32
  tss_edx :: u32
  tss_ebx :: u32
  tss_esp :: u32
  tss_ebp :: u32
  tss_esi :: u32
  tss_edi :: u32
  tss_es :: u32
  tss_cs :: u32
  tss_ss :: u32
  tss_ds :: u32
  tss_fs :: u32
  tss_gs :: u32
  ldt :: u32
  trace :: u32
  io_base :: u32

record tables = memsys +
  idt :: "gate_desc list"
  idt_table :: "addr list"
  intr_name :: "string list"
  idtr :: "64 word"
  gdtr :: "64 word"
  tr :: u16
  tss_seg :: tss
  ports :: "(u16 \<times> u8) list"

definition outb :: "u16 \<Rightarrow> u8 \<Rightarrow> 'a tables_scheme \<Rightarrow> 'a tables_scheme" where
  "outb port data s = s\<lparr>ports := (port, data) # ports s\<rparr>"

section \<open>Interrupts\<close>

definition make_idt_desc :: "u8 \<Rightarrow> addr \<Rightarrow> gate_desc" where
  "make_idt_desc attr function =
     \<lparr>func_offset_low_word = ucast (function AND 0x0000ffff), selector = SELECTOR_K_CODE, dcount = 0, attribute = attr,
      func_offset_high_word = ucast (drop_bit 16 (function AND 0xffff0000))\<rparr>"

text \<open>\<open>intr_entry_table\<close> and \<open>syscall_handler\<close> are entry points of \<^verbatim>\<open>kernel/kernel.asm\<close>.\<close>

definition idt_desc_init :: "(nat \<Rightarrow> addr) \<Rightarrow> addr \<Rightarrow> 'a tables_scheme \<Rightarrow> 'a tables_scheme" where
  "idt_desc_init intr_entry_table syscall_handler s =
     (let lastindex = IDT_DESC_CNT - 1;
          t = fold (\<lambda>i t. t[i := make_idt_desc IDT_DESC_ATTR_DPL0 (intr_entry_table i)]) [0..<IDT_DESC_CNT] (idt s)
      in s\<lparr>idt := t[lastindex := make_idt_desc IDT_DESC_ATTR_DPL3 syscall_handler]\<rparr>)"

text \<open>Vectors 0x27 and 0x2f are spurious; for every other one the handler prints a message and stays in an endless loop.\<close>

definition general_intr_handler :: "u8 \<Rightarrow> 'a tables_scheme \<Rightarrow> 'a tables_scheme option" where
  "general_intr_handler vec_nr s = (if vec_nr = 0x27 \<or> vec_nr = 0x2f then Some s else None)"

definition exception_names :: "(nat \<times> string) list" where
  "exception_names =
     [(0, ''#DE Divide Error''), (1, ''#DB Debug Exception''), (2, ''NMI Interrupt''), (3, ''#BP Breakpoint Exception''),
      (4, ''#OF Overflow Exception''), (5, ''#BR BOUND Range Exceeded Exception''), (6, ''#UD Invalid Opcode Exception''),
      (7, ''#NM Device No'' @ [CHR 0xe4, CHR 0xb8, CHR 0x83] @ '' Available Exception''), (8, ''JIDF Double Fault Exception''),
      (9, ''Coprocessor Segment Overrun''), (10, ''#TS Invalid TSS Exception''), (11, ''#NP Segment Not Present''),
      (12, ''#SS Stack Fault Exception''), (13, ''#GP General Protection Exception''), (14, ''#PF Page-Fault Exception''),
      (16, ''#MF x87 FPU F'' @ [CHR 0x27] @ ''loating-Point Error''), (17, ''#AC Alignment Check Exception''),
      (18, ''#MC Machine-Check Exception''), (19, ''#XF SIMD Floating-Point Exception'')]"

definition exception_init :: "addr \<Rightarrow> 'a tables_scheme \<Rightarrow> 'a tables_scheme" where
  "exception_init general_handler s =
     (let s = fold (\<lambda>i s. s\<lparr>idt_table := (idt_table s)[i := general_handler], intr_name := (intr_name s)[i := ''unknown'']\<rparr>) [0..<IDT_DESC_CNT] s
      in fold (\<lambda>(i, n) s. s\<lparr>intr_name := (intr_name s)[i := n]\<rparr>) exception_names s)"

text \<open>The array has 0x81 entries; a store behind it has no meaning.\<close>

definition register_handler :: "u8 \<Rightarrow> addr \<Rightarrow> 'a tables_scheme \<Rightarrow> 'a tables_scheme option" where
  "register_handler vector_no function s = do {
     ASSERT (unat vector_no < IDT_DESC_CNT);
     Some (s\<lparr>idt_table := (idt_table s)[unat vector_no := function]\<rparr>) }"

definition pic_init :: "'a tables_scheme \<Rightarrow> 'a tables_scheme" where
  "pic_init s =
     (let s = outb 0x20 0x11 s;
          s = outb 0x21 0x20 s;
          s = outb 0x21 0x04 s;
          s = outb 0x21 0x01 s;
          s = outb 0xa0 0x11 s;
          s = outb 0xa1 0x28 s;
          s = outb 0xa1 0x02 s;
          s = outb 0xa1 0x01 s;
          s = outb 0x21 0xf8 s
      in outb 0xa1 0xbf s)"

text \<open>\<open>idt_addr\<close> is the address of the array \<open>idt\<close>; a gate has 8 bytes.\<close>

definition idt_init :: "(nat \<Rightarrow> addr) \<Rightarrow> addr \<Rightarrow> addr \<Rightarrow> addr \<Rightarrow> 'a tables_scheme \<Rightarrow> 'a tables_scheme" where
  "idt_init intr_entry_table syscall_handler general_handler idt_addr s =
     (let s = idt_desc_init intr_entry_table syscall_handler s;
          s = exception_init general_handler s;
          s = pic_init s
      in s\<lparr>idtr := of_nat (8 * IDT_DESC_CNT - 1) OR push_bit 16 (ucast idt_addr)\<rparr>)"

section \<open>Segments\<close>

definition make_gdt_desc :: "addr \<Rightarrow> u32 \<Rightarrow> u8 \<Rightarrow> u8 \<Rightarrow> gdt_desc" where
  "make_gdt_desc desc_addr limit attr_low attr_high =
     (let desc_base = desc_addr
      in \<lparr>limit_low_word = ucast (limit AND 0x0000ffff), base_low_word = ucast (desc_base AND 0x0000ffff),
          base_mid_byte = ucast (drop_bit 16 (desc_base AND 0x00ff0000)), attr_low_byte = attr_low,
          limit_high_attr_high = ucast (drop_bit 16 (limit AND 0x000f0000) + ucast attr_high),
          base_high_byte = ucast (drop_bit 24 desc_base)\<rparr>)"

text \<open>The eight bytes of a descriptor in memory.\<close>

definition desc_bytes :: "gdt_desc \<Rightarrow> u8 list" where
  "desc_bytes g = [ucast (limit_low_word g), ucast (drop_bit 8 (limit_low_word g)), ucast (base_low_word g), ucast (drop_bit 8 (base_low_word g)),
     base_mid_byte g, attr_low_byte g, limit_high_attr_high g, base_high_byte g]"

definition zero_tss :: tss where
  "zero_tss = \<lparr>backlink = 0, ss0 = 0, esp1 = 0, ss1 = 0, esp2 = 0, ss2 = 0, tss_cr3 = 0, tss_eip = 0, tss_eflags = 0, tss_eax = 0,
     tss_ecx = 0, tss_edx = 0, tss_ebx = 0, tss_esp = 0, tss_ebp = 0, tss_esi = 0, tss_edi = 0, tss_es = 0, tss_cs = 0, tss_ss = 0, tss_ds = 0,
     tss_fs = 0, tss_gs = 0, ldt = 0, trace = 0, io_base = 0\<rparr>"

text \<open>\<open>tss_addr\<close> is the address of the variable \<open>tss\<close>, which has 27 words.\<close>

definition tss_init :: "addr \<Rightarrow> 'a tables_scheme \<Rightarrow> 'a tables_scheme" where
  "tss_init tss_addr s =
     (let tss_size = 108;
          s = s\<lparr>tss_seg := zero_tss, esp0 := 0\<rparr>;
          s = s\<lparr>tss_seg := (tss_seg s)\<lparr>ss0 := ucast SELECTOR_K_STACK\<rparr>\<rparr>;
          s = s\<lparr>tss_seg := (tss_seg s)\<lparr>io_base := tss_size\<rparr>\<rparr>;
          m = put_bytes 0xc0000920 (desc_bytes (make_gdt_desc tss_addr (tss_size - 1) TSS_ATTR_LOW TSS_ATTR_HIGH)) (mem s);
          m = put_bytes 0xc0000928 (desc_bytes (make_gdt_desc 0 0xfffff GDT_CODE_ATTR_LOW_DPL3 GDT_ATTR_HIGH)) m;
          m = put_bytes 0xc0000930 (desc_bytes (make_gdt_desc 0 0xfffff GDT_DATA_ATTR_LOW_DPL3 GDT_ATTR_HIGH)) m
      in s\<lparr>mem := m, gdtr := (8 * 7 - 1) OR push_bit 16 (ucast (0xc0000900 :: addr)), tr := SELECTOR_TSS\<rparr>)"

section \<open>Decoding\<close>

text \<open>How the processor puts the fields together.\<close>

definition gate_offset :: "gate_desc \<Rightarrow> addr" where
  "gate_offset g = ucast (func_offset_low_word g) OR push_bit 16 (ucast (func_offset_high_word g))"

definition gate_dpl :: "gate_desc \<Rightarrow> u8" where
  "gate_dpl g = drop_bit 5 (attribute g) AND 3"

definition seg_base :: "gdt_desc \<Rightarrow> addr" where
  "seg_base g = ucast (base_low_word g) OR push_bit 16 (ucast (base_mid_byte g)) OR push_bit 24 (ucast (base_high_byte g))"

definition seg_limit :: "gdt_desc \<Rightarrow> u32" where
  "seg_limit g = ucast (limit_low_word g) OR push_bit 16 (ucast (limit_high_attr_high g) AND 0xf)"

definition desc_of_bytes :: "u8 list \<Rightarrow> gdt_desc" where
  "desc_of_bytes b = \<lparr>limit_low_word = ucast (b ! 0) OR push_bit 8 (ucast (b ! 1)), base_low_word = ucast (b ! 2) OR push_bit 8 (ucast (b ! 3)),
     base_mid_byte = b ! 4, attr_low_byte = b ! 5, limit_high_attr_high = b ! 6, base_high_byte = b ! 7\<rparr>"

text \<open>The descriptor a selector names, in the table whose address is in \<open>gdtr\<close>.\<close>

definition selected :: "u16 \<Rightarrow> 'a tables_scheme \<Rightarrow> gdt_desc" where
  "selected sel s =
     (let base = ucast (drop_bit 16 (gdtr s)) :: addr; a = base + 8 * ucast (drop_bit 3 sel)
      in desc_of_bytes (map (\<lambda>i. mem s (a + of_nat i)) [0..<8]))"

lemma gate_offset_make [simp]: "gate_offset (make_idt_desc attr f) = f"
proof -
  have lo: "(0x0000ffff :: u32) = mask 16" and hi: "(0xffff0000 :: u32) = push_bit 16 (mask 16)" by (simp_all add: mask_eq_exp_minus_1 push_bit_eq_mult)
  show ?thesis
    unfolding gate_offset_def make_idt_desc_def gate_desc.select_convs lo hi
    by (rule bit_word_eqI) (auto simp: bit_simps)
qed

lemma seg_base_make [simp]: "seg_base (make_gdt_desc b l lo hi) = b"
proof -
  have m: "(0x0000ffff :: u32) = mask 16" "(0x00ff0000 :: u32) = push_bit 16 (mask 8)" by (simp_all add: mask_eq_exp_minus_1 push_bit_eq_mult)
  show ?thesis
    unfolding seg_base_def make_gdt_desc_def Let_def gdt_desc.select_convs m
  proof (rule bit_word_eqI)
    fix n assume "n < LENGTH(32)"
    then show "bit (ucast (ucast (b AND mask 16) :: u16) OR push_bit 16 (ucast (ucast (drop_bit 16 (b AND push_bit 16 (mask 8))) :: u8))
        OR push_bit 24 (ucast (ucast (drop_bit 24 b) :: u8)) :: u32) n = bit b n"
      by (cases "n < 16"; cases "n < 24") (auto simp: bit_simps)
  qed
qed

lemma seg_limit_make:
  assumes "l < 0x100000" "hi AND 0xf = 0"
  shows "seg_limit (make_gdt_desc b l lo hi) = l" "limit_high_attr_high (make_gdt_desc b l lo hi) AND 0xf0 = hi"
proof -
  have m: "(0x0000ffff :: u32) = mask 16" "(0x000f0000 :: u32) = push_bit 16 (mask 4)" "(0xf :: u8) = mask 4" "(0xf :: u32) = mask 4"
    "(0xf0 :: u8) = push_bit 4 (mask 4)" by (simp_all add: mask_eq_exp_minus_1 push_bit_eq_mult)
  have hi: "\<not> bit hi n" if "n < 4" for n
    using assms(2) that bit_and_iff [of hi "mask 4" n] unfolding m(3) by (simp add: bit_mask_iff)
  have "take_bit 20 l = l" using assms(1) by (simp add: take_bit_eq_mod mod_word_less)
  then have l: "n < 20" if "bit l n" for n using that by (metis bit_take_bit_iff)
  have "drop_bit 16 (l AND push_bit 16 (mask 4)) AND ucast hi = (0 :: u32)"
    by (rule bit_word_eqI) (auto simp: bit_simps dest: hi)
  then have add: "drop_bit 16 (l AND push_bit 16 (mask 4)) + ucast hi = drop_bit 16 (l AND push_bit 16 (mask 4)) OR (ucast hi :: u32)"
    by (rule disjunctive_add_eq_or)
  show "seg_limit (make_gdt_desc b l lo hi) = l"
    unfolding seg_limit_def make_gdt_desc_def Let_def gdt_desc.select_convs m add
  proof (rule bit_word_eqI)
    fix n assume "n < LENGTH(32)"
    then show "bit (ucast (ucast (l AND mask 16) :: u16) OR push_bit 16 (ucast (ucast (drop_bit 16 (l AND push_bit 16 (mask 4)) OR (ucast hi :: u32)) :: u8)
        AND mask 4) :: u32) n = bit l n"
      using hi [of "n - 16"] l [of n] by (cases "n < 16"; cases "n < 20") (auto simp: bit_simps)
  qed
  show "limit_high_attr_high (make_gdt_desc b l lo hi) AND 0xf0 = hi"
    unfolding make_gdt_desc_def Let_def gdt_desc.select_convs m add
  proof (rule bit_word_eqI)
    fix n assume "n < LENGTH(8)"
    then show "bit (ucast (drop_bit 16 (l AND push_bit 16 (mask 4)) OR (ucast hi :: u32)) AND push_bit 4 (mask 4) :: u8) n = bit hi n"
      using hi [of n] by (cases "n < 4") (auto simp: bit_simps)
  qed
qed

lemma attr_low_make: "attr_low_byte (make_gdt_desc b l lo hi) = lo"
  by (simp add: make_gdt_desc_def Let_def)

lemma desc_bytes_inverse: "desc_of_bytes (desc_bytes g) = g"
proof -
  have w: "ucast (ucast w :: u8) OR push_bit 8 (ucast (ucast (drop_bit 8 w) :: u8)) = w" for w :: u16
  proof (rule bit_word_eqI)
    fix n assume "n < LENGTH(16)"
    then show "bit (ucast (ucast w :: u8) OR push_bit 8 (ucast (ucast (drop_bit 8 w) :: u8)) :: u16) n = bit w n"
      by (cases "n < 8") (auto simp: bit_simps)
  qed
  show ?thesis by (simp add: desc_of_bytes_def desc_bytes_def w)
qed

lemma fold_update_all:
  "length xs = n \<Longrightarrow> k \<le> n \<Longrightarrow> fold (\<lambda>i t. t[i := f i]) [0..<k] xs = map f [0..<k] @ drop k xs"
proof (induction k)
  case (Suc k)
  then have "drop k xs = xs ! k # drop (Suc k) xs" by (simp add: Cons_nth_drop_Suc)
  then show ?case using Suc by (simp add: list_update_append)
qed simp

lemma exception_init_idt:
  "idt (exception_init h s) = idt s" "length (idt_table s) = IDT_DESC_CNT \<Longrightarrow> idt_table (exception_init h s) = replicate IDT_DESC_CNT h"
proof -
  have names: "idt (fold (\<lambda>(i, n) s. s\<lparr>intr_name := (intr_name s)[i := n]\<rparr>) xs s) = idt s"
    "idt_table (fold (\<lambda>(i, n) s. s\<lparr>intr_name := (intr_name s)[i := n]\<rparr>) xs s) = idt_table s" for xs and s :: "'a tables_scheme"
    by (induction xs arbitrary: s) (auto split: prod.splits)
  have loop: "idt (fold (\<lambda>i s. s\<lparr>idt_table := (idt_table s)[i := h], intr_name := (intr_name s)[i := ''unknown'']\<rparr>) is s) = idt s"
    "idt_table (fold (\<lambda>i s. s\<lparr>idt_table := (idt_table s)[i := h], intr_name := (intr_name s)[i := ''unknown'']\<rparr>) is s)
      = fold (\<lambda>i t. t[i := h]) is (idt_table s)" for "is" and s :: "'a tables_scheme"
    by (induction "is" arbitrary: s) auto
  show "idt (exception_init h s) = idt s" by (simp add: exception_init_def names loop)
  show "idt_table (exception_init h s) = replicate IDT_DESC_CNT h" if "length (idt_table s) = IDT_DESC_CNT"
    using fold_update_all [OF that, of IDT_DESC_CNT "\<lambda>_. h"] that by (simp add: exception_init_def names loop map_replicate_const)
qed

lemma pic_init_sel [simp]: "idt (pic_init s) = idt s" "idt_table (pic_init s) = idt_table s"
  by (simp_all add: pic_init_def outb_def Let_def)

lemma put_bytes_read:
  assumes "length xs \<le> 2 ^ 32"
  shows "i < length xs \<Longrightarrow> put_bytes p xs m (p + of_nat i) = xs ! i"
    and "(\<And>i. i < length xs \<Longrightarrow> a \<noteq> p + of_nat i) \<Longrightarrow> put_bytes p xs m a = m a"
proof -
  show "put_bytes p xs m (p + of_nat i) = xs ! i" if "i < length xs"
    using put_bytes_apply [OF assms, of p m "p + of_nat i"] that assms by (simp add: unat_of_nat_lt)
  show "put_bytes p xs m a = m a" if "\<And>i. i < length xs \<Longrightarrow> a \<noteq> p + of_nat i"
    using put_bytes_apply [OF assms, of p m a] that [of "unat (a - p)"] by auto
qed

text \<open>The descriptor at one address after a store of a descriptor at the same or another multiple of eight behind the same base.\<close>

definition desc_at_addr :: "addr \<Rightarrow> memory \<Rightarrow> gdt_desc" where
  "desc_at_addr a m = desc_of_bytes (map (\<lambda>i. m (a + of_nat i)) [0..<8])"

lemma desc_bytes_length [simp]: "length (desc_bytes g) = 8"
  by (simp add: desc_bytes_def)

lemma desc_put:
  assumes "k < 8192" "l < 8192"
  shows "desc_at_addr (b + of_nat (8 * k)) (put_bytes (b + of_nat (8 * l)) (desc_bytes g) m) = (if k = l then g else desc_at_addr (b + of_nat (8 * k)) m)"
proof (cases "k = l")
  case True
  have "map (\<lambda>i. put_bytes (b + of_nat (8 * l)) (desc_bytes g) m (b + of_nat (8 * l) + of_nat i)) [0..<8] = desc_bytes g"
  proof (rule nth_equalityI)
    show "length (map (\<lambda>i. put_bytes (b + of_nat (8 * l)) (desc_bytes g) m (b + of_nat (8 * l) + of_nat i)) [0..<8]) = length (desc_bytes g)"
      by simp
    fix i assume "i < length (map (\<lambda>i. put_bytes (b + of_nat (8 * l)) (desc_bytes g) m (b + of_nat (8 * l) + of_nat i)) [0..<8])"
    then have "i < 8" by simp
    then show "map (\<lambda>i. put_bytes (b + of_nat (8 * l)) (desc_bytes g) m (b + of_nat (8 * l) + of_nat i)) [0..<8] ! i = desc_bytes g ! i"
      using put_bytes_read(1) [of "desc_bytes g" i "b + of_nat (8 * l)" m] by simp
  qed
  then show ?thesis using True by (simp add: desc_at_addr_def desc_bytes_inverse)
next
  case False
  have "put_bytes (b + of_nat (8 * l)) (desc_bytes g) m (b + of_nat (8 * k) + of_nat i) = m (b + of_nat (8 * k) + of_nat i)" if i: "i < 8" for i
  proof (rule put_bytes_read(2))
    fix j assume "j < length (desc_bytes g)"
    then have j: "j < 8" by simp
    have "8 * k + i \<noteq> 8 * l + j" using False i j by presburger
    then show "b + of_nat (8 * k) + of_nat i \<noteq> b + of_nat (8 * l) + of_nat j"
      using word_add_of_nat_inj [of "8 * k + i" "8 * l + j" b] assms i j by (simp add: add.assoc)
  qed simp
  then have "map (\<lambda>i. put_bytes (b + of_nat (8 * l)) (desc_bytes g) m (b + of_nat (8 * k) + of_nat i)) [0..<8]
      = map (\<lambda>i. m (b + of_nat (8 * k) + of_nat i)) [0..<8]" by (intro map_cong) auto
  then show ?thesis using False unfolding desc_at_addr_def by presburger
qed

section \<open>Claims\<close>


definition boot_tables :: tables where
  "boot_tables = memsys.extend bare_mem (tables.fields (replicate 129 (make_idt_desc 0 0)) (replicate 129 0) (replicate 129 []) 0 0 0 zero_tss [])"


text \<open>
  Segment descriptors. What \<open>make_gdt_desc\<close> packs, the processor unpacks: base, 20-bit limit and attributes. After \<open>tss_init\<close> the selector loaded into the task
  register names a descriptor of the task state segment itself, and the user selectors name flat 4 GB segments of ring 3.
\<close>

theorem tss_init_segments:
  "let s' = tss_init tss_addr s in
    seg_base (selected (tr s') s') = tss_addr \<and> seg_limit (selected (tr s') s') = 107 \<and> attr_low_byte (selected (tr s') s') = TSS_ATTR_LOW \<and>
    seg_base (selected SELECTOR_U_CODE s') = 0 \<and> seg_limit (selected SELECTOR_U_CODE s') = 0xfffff \<and>
    attr_low_byte (selected SELECTOR_U_CODE s') = GDT_CODE_ATTR_LOW_DPL3 \<and>
    seg_base (selected SELECTOR_U_DATA s') = 0 \<and> seg_limit (selected SELECTOR_U_DATA s') = 0xfffff \<and>
    attr_low_byte (selected SELECTOR_U_DATA s') = GDT_DATA_ATTR_LOW_DPL3 \<and>
    ss0 (tss_seg s') = ucast SELECTOR_K_STACK \<and> io_base (tss_seg s') = 108 \<and> esp0 s' = 0"
proof -
  let ?s = "tss_init tss_addr s"
  let ?g = "\<lambda>k. desc_at_addr (0xc0000900 + of_nat (8 * k)) (mem ?s)"
  have "mem ?s = put_bytes (0xc0000900 + of_nat (8 * 6)) (desc_bytes (make_gdt_desc 0 0xfffff GDT_DATA_ATTR_LOW_DPL3 GDT_ATTR_HIGH))
      (put_bytes (0xc0000900 + of_nat (8 * 5)) (desc_bytes (make_gdt_desc 0 0xfffff GDT_CODE_ATTR_LOW_DPL3 GDT_ATTR_HIGH))
      (put_bytes (0xc0000900 + of_nat (8 * 4)) (desc_bytes (make_gdt_desc tss_addr 107 TSS_ATTR_LOW TSS_ATTR_HIGH)) (mem s)))"
    by (simp add: tss_init_def Let_def)
  then have g: "?g 4 = make_gdt_desc tss_addr 107 TSS_ATTR_LOW TSS_ATTR_HIGH"
    "?g 5 = make_gdt_desc 0 0xfffff GDT_CODE_ATTR_LOW_DPL3 GDT_ATTR_HIGH" "?g 6 = make_gdt_desc 0 0xfffff GDT_DATA_ATTR_LOW_DPL3 GDT_ATTR_HIGH"
    by (simp_all only: desc_put, simp_all)
  have base: "ucast (drop_bit 16 (gdtr ?s)) = (0xc0000900 :: addr)" by (simp add: tss_init_def Let_def)
  have sel: "selected (tr ?s) ?s = ?g 4" "selected SELECTOR_U_CODE ?s = ?g 5" "selected SELECTOR_U_DATA ?s = ?g 6"
    unfolding selected_def Let_def base desc_at_addr_def
    by (simp_all add: tss_init_def Let_def SELECTOR_TSS_def SELECTOR_U_CODE_def SELECTOR_U_DATA_def)
  have a: "TSS_ATTR_HIGH AND 0xf = 0" "GDT_ATTR_HIGH AND 0xf = 0" by (simp_all add: TSS_ATTR_HIGH_def GDT_ATTR_HIGH_def)
  have "ss0 (tss_seg ?s) = ucast SELECTOR_K_STACK" "io_base (tss_seg ?s) = 108" "esp0 ?s = 0" by (simp_all add: tss_init_def Let_def)
  then show ?thesis
    unfolding Let_def sel g using seg_limit_make(1) [OF _ a(1)] seg_limit_make(1) [OF _ a(2)] by (simp add: attr_low_make)
qed

end
