(* ===== verification/Keyboard.thy ===== *)
theory Keyboard
  imports IOQueue Gates
begin

text \<open>
  \<^verbatim>\<open>device/keyboard.c\<close>: the keyboard interrupt. \<open>key_step\<close> is the part of \<open>intr_keyboard_handler\<close> that turns one scan code byte into a new state of the
  modifier flags and possibly a character; the handler puts the character into the keyboard buffer unless that is full. The byte read
  from the port is the argument; the text printed for an unknown key is not part of the state.

  The lemmas show that the table is never indexed out of its range, that the handler always returns, and how letters and the
  modifier keys act on what is typed.
\<close>

section \<open>The driver\<close>

text \<open>By make code: the character alone and with shift.\<close>

definition keymap :: "(char \<times> char) list" where
  "keymap =
    [(CHR 0x00, CHR 0x00), (CHR 0x1B, CHR 0x1B), (CHR ''1'', CHR ''!''), (CHR ''2'', CHR ''@''),
     (CHR ''3'', CHR ''#''), (CHR ''4'', CHR ''$''), (CHR ''5'', CHR ''%''), (CHR ''6'', CHR ''^''),
     (CHR ''7'', CHR ''&''), (CHR ''8'', CHR ''*''), (CHR ''9'', CHR ''(''), (CHR ''0'', CHR '')''),
     (CHR ''-'', CHR ''_''), (CHR ''='', CHR ''+''), (CHR 0x08, CHR 0x08), (CHR 0x09, CHR 0x09),
     (CHR ''q'', CHR ''Q''), (CHR ''w'', CHR ''W''), (CHR ''e'', CHR ''E''), (CHR ''r'', CHR ''R''),
     (CHR ''t'', CHR ''T''), (CHR ''y'', CHR ''Y''), (CHR ''u'', CHR ''U''), (CHR ''i'', CHR ''I''),
     (CHR ''o'', CHR ''O''), (CHR ''p'', CHR ''P''), (CHR ''['', CHR ''{''), (CHR '']'', CHR ''}''),
     (CHR 0x0D, CHR 0x0D), (CHR 0x00, CHR 0x00), (CHR ''a'', CHR ''A''), (CHR ''s'', CHR ''S''),
     (CHR ''d'', CHR ''D''), (CHR ''f'', CHR ''F''), (CHR ''g'', CHR ''G''), (CHR ''h'', CHR ''H''),
     (CHR ''j'', CHR ''J''), (CHR ''k'', CHR ''K''), (CHR ''l'', CHR ''L''), (CHR '';'', CHR '':''),
     (CHR 0x27, CHR 0x22), (CHR 0x60, CHR ''~''), (CHR 0x00, CHR 0x00), (CHR 0x5C, CHR ''|''),
     (CHR ''z'', CHR ''Z''), (CHR ''x'', CHR ''X''), (CHR ''c'', CHR ''C''), (CHR ''v'', CHR ''V''),
     (CHR ''b'', CHR ''B''), (CHR ''n'', CHR ''N''), (CHR ''m'', CHR ''M''), (CHR '','', CHR ''<''),
     (CHR ''.'', CHR ''>''), (CHR ''/'', CHR ''?''), (CHR 0x00, CHR 0x00), (CHR ''*'', CHR ''*''),
     (CHR 0x00, CHR 0x00), (CHR '' '', CHR '' ''), (CHR 0x00, CHR 0x00)]"

text \<open>The keys that print one of two characters; caps lock does not act on them.\<close>

definition two_char_key :: "u16 \<Rightarrow> bool" where
  "two_char_key scancode \<longleftrightarrow>
     scancode < 0x0e \<or> scancode = 0x29 \<or> scancode = 0x1a \<or> scancode = 0x1b \<or> scancode = 0x2b \<or> scancode = 0x27 \<or>
     scancode = 0x28 \<or> scancode = 0x33 \<or> scancode = 0x34 \<or> scancode = 0x35"

definition with_shift :: "kbd_state \<Rightarrow> u16 \<Rightarrow> bool" where
  "with_shift k scancode =
     (if two_char_key scancode then (if shift_status k then True else False)
      else if shift_status k \<and> caps_lock_status k then False
      else if shift_status k \<or> caps_lock_status k then True
      else False)"

definition break_key :: "u16 \<Rightarrow> kbd_state \<Rightarrow> kbd_state" where
  "break_key make_code k =
     (if make_code = 0x1d \<or> make_code = 0xe01d then k\<lparr>ctrl_status := False\<rparr>
      else if make_code = 0x2a \<or> make_code = 0x36 then k\<lparr>shift_status := False\<rparr>
      else if make_code = 0x38 \<or> make_code = 0xe038 then k\<lparr>alt_status := False\<rparr>
      else k)"

definition modifier_key :: "u16 \<Rightarrow> kbd_state \<Rightarrow> kbd_state" where
  "modifier_key scancode k =
     (if scancode = 0x1d \<or> scancode = 0xe01d then k\<lparr>ctrl_status := True\<rparr>
      else if scancode = 0x2a \<or> scancode = 0x36 then k\<lparr>shift_status := True\<rparr>
      else if scancode = 0x38 \<or> scancode = 0xe038 then k\<lparr>alt_status := True\<rparr>
      else if scancode = 0x3a then k\<lparr>caps_lock_status := \<not> caps_lock_status k\<rparr>
      else k)"

text \<open>\<open>None\<close> would be an access outside the table.\<close>

definition key_code :: "u16 \<Rightarrow> kbd_state \<Rightarrow> (kbd_state \<times> u8 option) option" where
  "key_code scancode k =
     (if scancode AND 0x0080 \<noteq> 0 then
        (let make_code = scancode AND 0xff7f in Some (break_key make_code k, None))
      else if (0 < scancode \<and> scancode < 0x3b) \<or> scancode = 0xe038 \<or> scancode = 0xe01d then
        (let shift = with_shift k scancode;
             scancode = scancode AND 0x00ff;
             index = unat (ucast scancode :: u8)
         in if index < length keymap then
              (let cur_char = of_char (if shift then snd (keymap ! index) else fst (keymap ! index)) :: u8
               in if cur_char \<noteq> 0 then Some (k, Some cur_char)
                  else Some (modifier_key scancode k, None))
            else None)
      else Some (k, None))"

text \<open>A byte \<open>0xe0\<close> announces a two-byte code and is merged with the byte that follows.\<close>

definition key_step :: "u8 \<Rightarrow> kbd_state \<Rightarrow> (kbd_state \<times> u8 option) option" where
  "key_step byte k =
     (let scancode = ucast byte :: u16
      in if scancode = 0xe0 then Some (k\<lparr>ext_scancode := True\<rparr>, None)
         else if ext_scancode k then key_code (0xe000 OR scancode) (k\<lparr>ext_scancode := False\<rparr>)
         else key_code scancode k)"

definition intr_keyboard_handler ::
    "(addr \<Rightarrow> 'a iosys_scheme \<Rightarrow> 'a iosys_scheme option) \<Rightarrow> u8 \<Rightarrow> 'a iosys_scheme \<Rightarrow> 'a iosys_scheme option" where
  "intr_keyboard_handler others byte s = do {
     (k, out) \<leftarrow> key_step byte (kbd s);
     let s = s\<lparr>kbd := k\<rparr>;
     (case out of
        None \<Rightarrow> Some s
      | Some cur_char \<Rightarrow> do {
          full \<leftarrow> ioq_full (kbd_buf s) s;
          (if \<not> full then ioq_putchar others (kbd_buf s) cur_char s else Some s) }) }"

definition keyboard_init :: "addr \<Rightarrow> 'a tables_scheme \<Rightarrow> 'a tables_scheme option" where
  "keyboard_init handler s = register_handler 0x21 handler (ioqueue_init (kbd_buf s) s)"

section \<open>What is typed\<close>

text \<open>The letter keys by make code.\<close>

definition letters :: "(u8 \<times> char) list" where
  "letters = zip [0x10, 0x11, 0x12, 0x13, 0x14, 0x15, 0x16, 0x17, 0x18, 0x19,
                  0x1e, 0x1f, 0x20, 0x21, 0x22, 0x23, 0x24, 0x25, 0x26, 0x2c, 0x2d, 0x2e, 0x2f, 0x30, 0x31, 0x32]
                 ''qwertyuiopasdfghjklzxcvbnm''"

text \<open>A sequence of scan codes: the characters it produces and the state it leaves.\<close>

fun type_keys :: "u8 list \<Rightarrow> kbd_state \<Rightarrow> (kbd_state \<times> u8 list) option" where
  "type_keys [] k = Some (k, [])"
| "type_keys (c # cs) k = do {
     (k, out) \<leftarrow> key_step c k;
     (k, rest) \<leftarrow> type_keys cs k;
     Some (k, (case out of None \<Rightarrow> rest | Some x \<Rightarrow> x # rest)) }"

lemma keymap_length: "length keymap = 59"
  by (simp add: keymap_def)

definition upper :: "char \<Rightarrow> u8" where
  "upper c = of_char c - 32"

lemma letters_keymap:
  "list_all (\<lambda>(c, ch). 0x0e \<le> c \<and> c < 0x3b \<and> \<not> two_char_key (ucast c) \<and> fst (keymap ! unat c) = ch \<and>
     of_char ch \<noteq> (0 :: u8) \<and> of_char (snd (keymap ! unat c)) = upper ch \<and> upper ch \<noteq> 0) letters"
  by code_simp

lemma unat_ucast_8_16: "unat (ucast (c :: u8) :: u16) = unat c"
  by transfer (simp add: take_bit_take_bit)

lemma small_code:
  fixes c :: u8
  assumes "c < 0x3b"
  shows "ucast c < (0x3b :: u16)" "(ucast c :: u16) AND 0x0080 = 0" "(ucast c :: u16) AND 0x00ff = ucast c"
    "(ucast c :: u16) \<noteq> 0xe0" "0 < c \<Longrightarrow> 0 < (ucast c :: u16)"
proof -
  have u: "unat c < 59" using assms by (simp add: word_less_nat_alt)
  show "ucast c < (0x3b :: u16)" "(ucast c :: u16) \<noteq> 0xe0" "0 < c \<Longrightarrow> 0 < (ucast c :: u16)"
    using u by (simp_all add: word_less_nat_alt word_unat_eq_iff unat_ucast_8_16)
  have "c < 64" using u by (simp add: word_less_nat_alt)
  then have "take_bit 6 c = c" by (simp add: take_bit_eq_mod mod_word_less)
  then have bits: "n < 6" if "bit c n" for n using that by (metis bit_take_bit_iff)
  have "\<not> bit c 7" using bits by force
  then show "(ucast c :: u16) AND 0x0080 = 0" using and_exp_eq_0_iff [of 7 "ucast c :: u16"] by (simp add: bit_ucast_iff)
  have ff: "bit (0x00ff :: u16) n \<longleftrightarrow> n < 8" for n
  proof -
    have "(0x00ff :: u16) = mask 8" by (simp add: mask_eq_exp_minus_1)
    then show ?thesis by (auto simp only: bit_mask_iff possible_bit_word) auto
  qed
  show "(ucast c :: u16) AND 0x00ff = ucast c"
    by (rule bit_word_eqI; simp only: bit_and_iff ff bit_ucast_iff; auto dest: bits)
qed

lemma ucast_back: "ucast (ucast (c :: u8) :: u16) = c"
  by transfer (simp add: take_bit_take_bit)

text \<open>A letter key prints its letter, in upper case when exactly one of shift and caps lock is on.\<close>

lemma letter_step:
  assumes "(c, ch) \<in> set letters" "\<not> ext_scancode k"
  shows "key_step c k = Some (k, Some (if shift_status k \<noteq> caps_lock_status k then upper ch else of_char ch))"
proof -
  have l: "c < 0x3b" "0x0e \<le> c" "\<not> two_char_key (ucast c)" "fst (keymap ! unat c) = ch" "of_char ch \<noteq> (0 :: u8)"
    "of_char (snd (keymap ! unat c)) = upper ch" "upper ch \<noteq> 0"
    using letters_keymap assms(1) by (auto simp: list_all_iff)
  have "0 < c" using l(2) by (simp add: word_less_nat_alt word_le_nat_alt)
  moreover have "unat c < 59" using l(1) by (simp add: word_less_nat_alt)
  ultimately show ?thesis
    using small_code [OF l(1)] l assms(2)
    by (auto simp: key_step_def key_code_def with_shift_def ucast_back keymap_length)
qed

text \<open>Every scan code is within the table.\<close>

lemma unat_ucast_16_8: "unat (ucast (w :: u16) :: u8) = unat w mod 256"
  by (simp add: unsigned_ucast_eq take_bit_eq_mod unat_mod)

lemma masked_index:
  assumes "(0 < sc \<and> sc < 0x3b) \<or> sc = 0xe038 \<or> sc = (0xe01d :: u16)"
  shows "unat (ucast (sc AND 0x00ff) :: u8) < 59"
proof -
  have "unat (sc AND 0x00ff) < 59"
    using assms word_and_le2 [of sc "0x00ff"] by (auto simp: word_less_nat_alt word_le_nat_alt)
  moreover have "unat (ucast (sc AND 0x00ff) :: u8) \<le> unat (sc AND 0x00ff)"
    by (simp only: unat_ucast_16_8 mod_less_eq_dividend)
  ultimately show ?thesis by simp
qed

lemma key_code_total: "key_code sc k \<noteq> None"
proof (cases "(0 < sc \<and> sc < 0x3b) \<or> sc = 0xe038 \<or> sc = 0xe01d")
  case True
  have i: "unat (ucast (sc AND 0x00ff) :: u8) < length keymap" using masked_index [OF True] by (simp only: keymap_length)
  show ?thesis unfolding key_code_def Let_def if_P [OF i] by (simp only: split: if_split) simp
next
  case False
  show ?thesis unfolding key_code_def Let_def if_not_P [OF False] by (simp only: split: if_split) simp
qed

lemma key_step_total: "key_step byte k \<noteq> None"
  by (simp add: key_step_def key_code_total Let_def del: not_None_eq)

section \<open>Claims\<close>

text \<open>
  Typing a letter. Pressing shift, a letter key and releasing shift types the upper-case letter, or the lower-case one while caps lock is on, and leaves the
  state of the driver as it was; without shift it is the other way round. Pressing and releasing caps lock types nothing and
  exchanges the two cases. This holds for all 26 letters, either shift key, and whatever the state of ctrl and alt.
\<close>

theorem letters_and_modifiers:
  assumes "(c, ch) \<in> set letters" "\<not> ext_scancode k" "\<not> shift_status k" "sh = 0x2a \<or> sh = 0x36"
  shows "type_keys [c] k = Some (k, [if caps_lock_status k then upper ch else of_char ch]) \<and>
    type_keys [sh, c, sh OR 0x80] k = Some (k, [if caps_lock_status k then of_char ch else upper ch]) \<and>
    type_keys [0x3a, 0xba] k = Some (k\<lparr>caps_lock_status := \<not> caps_lock_status k\<rparr>, [])"
proof -
  have down: "key_step sh k' = Some (k'\<lparr>shift_status := True\<rparr>, None)" if "\<not> ext_scancode k'" for k'
    using assms(4) that by (auto simp: key_step_def key_code_def keymap_def modifier_key_def)
  have up: "key_step (sh OR 0x80) k' = Some (k'\<lparr>shift_status := False\<rparr>, None)" if "\<not> ext_scancode k'" for k'
    using assms(4) that by (auto simp: key_step_def key_code_def break_key_def)
  have caps: "key_step 0x3a k = Some (k\<lparr>caps_lock_status := \<not> caps_lock_status k\<rparr>, None)"
    "key_step 0xba (k\<lparr>caps_lock_status := \<not> caps_lock_status k\<rparr>) = Some (k\<lparr>caps_lock_status := \<not> caps_lock_status k\<rparr>, None)"
    using assms(2) by (simp_all add: key_step_def key_code_def keymap_def modifier_key_def break_key_def)
  have "k\<lparr>shift_status := True, shift_status := False\<rparr> = k" using assms(3) by simp
  then show ?thesis
    using letter_step [OF assms(1,2)] letter_step [OF assms(1), of "k\<lparr>shift_status := True\<rparr>"] down [of k]
      up [of "k\<lparr>shift_status := True\<rparr>"] caps assms(2,3) by simp
qed

theorem letters_and_modifiers_witness:
  "type_keys [0x2a, 0x10, 0xaa] \<lparr>ctrl_status = False, shift_status = False, alt_status = False, caps_lock_status = False, ext_scancode = False\<rparr>
   = Some (\<lparr>ctrl_status = False, shift_status = False, alt_status = False, caps_lock_status = False, ext_scancode = False\<rparr>, [81])"
proof -
  let ?k = "\<lparr>ctrl_status = False, shift_status = False, alt_status = False, caps_lock_status = False, ext_scancode = False\<rparr>"
  have "(0x10, CHR ''q'') \<in> set letters" by (simp add: letters_def)
  from letters_and_modifiers [OF this, of ?k "0x2a"] show ?thesis by (simp add: upper_def)
qed

text \<open>
  C35. The keyboard interrupt always returns. Whatever byte the port delivers and whatever the state of the driver, with interrupts off and a
  well-formed keyboard buffer the handler ends without an assertion failing and without waiting; the table is never read outside its 59 entries, and the
  buffer holds what it held, followed by at most one character, which is dropped only when the buffer is full.
\<close>

theorem keyboard_handler_returns:
  assumes "intr_get_status s = INTR_OFF" "sched_ok T rs s" "ring_holds (ioqs s (kbd_buf s)) xs"
    and "consumer (ioqs s (kbd_buf s)) = NULL \<or> consumer (ioqs s (kbd_buf s)) \<in> T \<and>
      blocked_status (status (tasks s (consumer (ioqs s (kbd_buf s)))))"
  shows "\<exists>s' k out. intr_keyboard_handler others byte s = Some s' \<and> key_step byte (kbd s) = Some (k, out) \<and>
    ring_holds (ioqs s' (kbd_buf s)) (case out of None \<Rightarrow> xs | Some ch \<Rightarrow> if length xs < 63 then xs @ [ch] else xs)"
proof -
  obtain k out where k: "key_step byte (kbd s) = Some (k, out)" using key_step_total [of byte "kbd s"] by auto
  let ?s = "s\<lparr>kbd := k\<rparr>" and ?q = "kbd_buf s"
  have off: "intr_get_status ?s = INTR_OFF" using assms(1) by (simp add: intr_get_status_def)
  have ok: "sched_ok T rs ?s" using assms(2) by (subst sched_ok_cong [of _ s]) simp_all
  have q: "ring_holds (ioqs ?s ?q) xs" using assms(3) by simp
  have full: "ioq_full ?q ?s = Some (length xs = 63)" using ring_tests(1) [OF assms(3)] off by (simp add: ioq_full_def)
  show ?thesis
  proof (cases out)
    case None
    then show ?thesis using k assms(3) by (simp add: intr_keyboard_handler_def)
  next
    case (Some ch)
    show ?thesis
    proof (cases "length xs < 63")
      case True
      obtain s' where "ioq_putchar others ?q ch ?s = Some s'" "ring_holds (ioqs s' ?q) (xs @ [ch])"
        using ioq_putchar_delivers_aux [OF q True off ok] assms(4) by auto
      then show ?thesis using k Some True full by (simp add: intr_keyboard_handler_def)
    next
      case False
      then have "length xs = 63" using ring_tests(3) [OF assms(3)] by simp
      then show ?thesis using k Some full assms(3) by (simp add: intr_keyboard_handler_def)
    qed
  qed
qed

theorem keyboard_handler_returns_witness:
  "\<exists>s'. intr_keyboard_handler (\<lambda>_ _. None) 0x10 two_threads_io = Some s' \<and> ring_holds (ioqs s' 0xc0007000) [113]"
proof -
  have b: "kbd_buf two_threads_io = 0xc0007000" "kbd two_threads_io = \<lparr>ctrl_status = False, shift_status = False, alt_status = False,
      caps_lock_status = False, ext_scancode = False\<rparr>" by (simp_all add: two_threads_io_def tsys.defs)
  have "(0x10, CHR ''q'') \<in> set letters" by (simp add: letters_def)
  then have "key_step 0x10 (kbd two_threads_io) = Some (kbd two_threads_io, Some 113)" using letter_step b(2) by simp
  then show ?thesis
    using keyboard_handler_returns [OF two_threads_io_ok(2,1), of "[]" "\<lambda>_ _. None" "0x10"] two_threads_io_ok(3) empty_ring_holds b(1)
    by (auto simp: empty_ring_def)
qed

end
