(* ===== verification/ThreadInit.thy ===== *)
theory ThreadInit
  imports Heap
begin

text \<open>
  The rest of \<^verbatim>\<open>thread/thread.c\<close>: process numbers, the initialisation of a process control block, the creation of threads and of the first two threads of the
  system. The block is a record by the address of its page; clearing it also clears the link cells and block descriptors that lie in it.
  \<open>kthread\<close> and \<open>idle\<close> are the addresses of the functions \<^verbatim>\<open>kernel_thread\<close> and \<^verbatim>\<open>idle\<close> where they are stored.

  The claims are about process numbers, which are different as long as their counter does not wrap around, and about starting a thread: the new thread joins the invariant of the scheduler at the
  end of the ready queue, with its fields set and the stack from which the first switch enters \<open>kernel_thread\<close>.
\<close>

section \<open>The operations\<close>

definition kernel_thread :: "(addr \<Rightarrow> u32 \<Rightarrow> 'a machine_scheme \<Rightarrow> 'a machine_scheme option) \<Rightarrow> addr \<Rightarrow> u32 \<Rightarrow> 'a machine_scheme \<Rightarrow> 'a machine_scheme option" where
  "kernel_thread call function func_arg s = (let (_, s) = intr_enable s in call function func_arg s)"

definition allocate_pid ::
    "(addr \<Rightarrow> 'a tsys_scheme \<Rightarrow> 'a tsys_scheme option) \<Rightarrow> 'a tsys_scheme \<Rightarrow> (u16 \<times> 'a tsys_scheme) option" where
  "allocate_pid others s = do {
     s \<leftarrow> lock_acquire others (pid_lock s) s;
     let s = s\<lparr>next_pid := next_pid s + 1\<rparr>;
     s \<leftarrow> lock_release (pid_lock s) s;
     Some (next_pid s, s) }"

definition zero_task :: task_struct where
  "zero_task = \<lparr>self_kstack = 0, pid = 0, status = TASK_RUNNING, priority = 0, ticks = 0, elapsed_ticks = 0, pgdir = 0,
     userprog_vaddr = \<lparr>vaddr_bitmap = \<lparr>btmp_bytes_len = 0, bits = 0\<rparr>, vaddr_start = 0\<rparr>, fd_table = replicate 8 0, cwd_inode_nr = 0, stack_magic = 0\<rparr>"

text \<open>\<open>memset(pthread, 0, sizeof(*pthread))\<close>; the structure has 276 bytes.\<close>

definition clear_pcb :: "addr \<Rightarrow> 'a tsys_scheme \<Rightarrow> 'a tsys_scheme option" where
  "clear_pcb t s = do {
     m \<leftarrow> memset t 0 276 (mem s);
     Some (s\<lparr>mem := m, tasks := (tasks s)(t := zero_task),
        elems := (\<lambda>a. if a - t < 276 then \<lparr>lprev = 0, lnext = 0\<rparr> else elems s a),
        descs := (\<lambda>a. if a - t < 276 then \<lparr>block_size = 0, blocks_per_arena = 0\<rparr> else descs s a)\<rparr>) }"

text \<open>A name of more than 15 characters does not fit into \<open>name[16]\<close>.\<close>

definition init_thread ::
    "(addr \<Rightarrow> 'a tsys_scheme \<Rightarrow> 'a tsys_scheme option) \<Rightarrow> addr \<Rightarrow> addr \<Rightarrow> u32 \<Rightarrow> 'a tsys_scheme \<Rightarrow> 'a tsys_scheme option" where
  "init_thread others pthread name prio s = do {
     s \<leftarrow> clear_pcb pthread s;
     (p, s) \<leftarrow> allocate_pid others s;
     let s = upd_task pthread (\<lambda>t. t\<lparr>pid := p\<rparr>) s;
     n \<leftarrow> strlen name (mem s);
     ASSERT (n < 16);
     (_, m) \<leftarrow> strcpy (pthread + 12) name (mem s);
     let s = s\<lparr>mem := m\<rparr>;
     let s = (if pthread = main_thread s then set_status pthread TASK_RUNNING s else set_status pthread TASK_READY s);
     let s = upd_task pthread (\<lambda>t. t\<lparr>self_kstack := pthread + PG_SIZE\<rparr>) s;
     let s = upd_task pthread (\<lambda>t. t\<lparr>priority := ucast prio\<rparr>) s;
     let s = upd_task pthread (\<lambda>t. t\<lparr>ticks := ucast prio\<rparr>) s;
     let s = upd_task pthread (\<lambda>t. t\<lparr>elapsed_ticks := 0\<rparr>) s;
     let s = upd_task pthread (\<lambda>t. t\<lparr>pgdir := NULL\<rparr>) s;
     let s = upd_task pthread (\<lambda>t. t\<lparr>fd_table := (fd_table t)[0 := 0, 1 := 1, 2 := 2]\<rparr>) s;
     let s = upd_task pthread (\<lambda>t. t\<lparr>fd_table := fold (\<lambda>fd_idx f. f[fd_idx := - 1]) [3..<8] (fd_table t)\<rparr>) s;
     let s = upd_task pthread (\<lambda>t. t\<lparr>cwd_inode_nr := 0\<rparr>) s;
     Some (upd_task pthread (\<lambda>t. t\<lparr>stack_magic := 0x19870916\<rparr>) s) }"

text \<open>The two queues a new thread enters.\<close>

definition enqueue_thread :: "addr \<Rightarrow> 'a tsys_scheme \<Rightarrow> 'a tsys_scheme option" where
  "enqueue_thread thread s = do {
     found \<leftarrow> elem_find (thread_ready_list s) (general_tag thread) s;
     ASSERT (\<not> found);
     let s = list_append (thread_ready_list s) (general_tag thread) s;
     found \<leftarrow> elem_find (thread_all_list s) (all_list_tag thread) s;
     ASSERT (\<not> found);
     Some (list_append (thread_all_list s) (all_list_tag thread) s) }"

text \<open>What \<open>thread_start\<close> does with the page it has obtained.\<close>

definition start_in_page ::
    "(addr \<Rightarrow> 'a tsys_scheme \<Rightarrow> 'a tsys_scheme option) \<Rightarrow> addr \<Rightarrow> addr \<Rightarrow> addr \<Rightarrow> u32 \<Rightarrow> addr \<Rightarrow> u32 \<Rightarrow> 'a tsys_scheme \<Rightarrow> 'a tsys_scheme option" where
  "start_in_page others kthread thread name prio function func_arg s = do {
     s \<leftarrow> init_thread others thread name prio s;
     enqueue_thread thread (thread_create kthread thread function func_arg s) }"

definition thread_start ::
    "(addr \<Rightarrow> 'a memsys_scheme \<Rightarrow> 'a memsys_scheme option) \<Rightarrow> addr \<Rightarrow> addr \<Rightarrow> u32 \<Rightarrow> addr \<Rightarrow> u32 \<Rightarrow> 'a memsys_scheme \<Rightarrow> (addr \<times> 'a memsys_scheme) option" where
  "thread_start others kthread name prio function func_arg s = do {
     (thread, s) \<leftarrow> get_kernel_pages 1 s;
     s \<leftarrow> start_in_page others kthread thread name prio function func_arg s;
     Some (thread, s) }"

text \<open>\<open>main_name\<close> and \<open>idle_name\<close> are the addresses of the two string constants.\<close>

definition make_main_thread ::
    "(addr \<Rightarrow> 'a tsys_scheme \<Rightarrow> 'a tsys_scheme option) \<Rightarrow> addr \<Rightarrow> 'a tsys_scheme \<Rightarrow> 'a tsys_scheme option" where
  "make_main_thread others main_name s = do {
     let s = s\<lparr>main_thread := running_thread s\<rparr>;
     s \<leftarrow> init_thread others (main_thread s) main_name 31 s;
     found \<leftarrow> elem_find (thread_all_list s) (all_list_tag (main_thread s)) s;
     ASSERT (\<not> found);
     Some (list_append (thread_all_list s) (all_list_tag (main_thread s)) s) }"

text \<open>One round of the loop of the idle thread: it blocks itself, and when it is dispatched waits for an interrupt with interrupts on.\<close>

definition idle_round ::
    "(addr \<Rightarrow> 'a tsys_scheme \<Rightarrow> 'a tsys_scheme option) \<Rightarrow> 'a tsys_scheme \<Rightarrow> 'a tsys_scheme option" where
  "idle_round others s = do {
     s \<leftarrow> thread_block others TASK_BLOCKED s;
     Some (s\<lparr>eflags := eflags s OR EFLAGS_IF\<rparr>) }"

definition thread_init ::
    "(addr \<Rightarrow> 'a memsys_scheme \<Rightarrow> 'a memsys_scheme option) \<Rightarrow> addr \<Rightarrow> addr \<Rightarrow> addr \<Rightarrow> addr \<Rightarrow> 'a memsys_scheme \<Rightarrow> 'a memsys_scheme option" where
  "thread_init others kthread idle main_name idle_name s = do {
     let s = list_init (thread_ready_list s) s;
     let s = list_init (thread_all_list s) s;
     let s = lock_init (pid_lock s) s;
     s \<leftarrow> make_main_thread others main_name s;
     (t, s) \<leftarrow> thread_start others kthread idle_name 10 idle NULL s;
     Some (s\<lparr>idle_thread := t\<rparr>) }"

section \<open>Process numbers\<close>

lemma allocate_pid_eq:
  assumes "lock_free (pid_lock s) s"
  shows "allocate_pid others s = Some (next_pid s + 1, s\<lparr>next_pid := next_pid s + 1\<rparr>)"
proof -
  let ?l = "pid_lock s" and ?t = "locked (pid_lock s) s"
  have sel: "next_pid ?t = next_pid s" "pid_lock ?t = ?l" by (simp_all add: locked_def upd_lock_def set_value_def)
  have k: "lock_kept ?l ?t (?t\<lparr>next_pid := next_pid s + 1\<rparr>)" using assms by (simp add: lock_kept_def list_empty_def lock_free_def) (simp add: locked_def upd_lock_def set_value_def)
  have "?t\<lparr>next_pid := next_pid s + 1, semas := semas s, locks := locks s\<rparr> = s\<lparr>next_pid := next_pid s + 1\<rparr>" by (simp add: locked_def upd_lock_def set_value_def)
  then show ?thesis using lk.acquire_law [OF assms, of others] lk.release_law [OF assms k] sel by (simp add: allocate_pid_def)
qed

lemma allocate_pids_eq:
  assumes "lock_free (pid_lock s) s"
  shows "alloc_many (allocate_pid others) n s = Some (map (\<lambda>i. next_pid s + of_nat (Suc i)) [0..<n], s\<lparr>next_pid := next_pid s + of_nat n\<rparr>)"
  using assms
proof (induction n arbitrary: s)
  case (Suc n)
  let ?s = "s\<lparr>next_pid := next_pid s + 1\<rparr>"
  have "lock_free (pid_lock ?s) ?s" using Suc.prems by (simp add: lock_free_def list_empty_def running_thread_def)
  from Suc.IH [OF this] have "alloc_many (allocate_pid others) (Suc n) s =
      Some ((next_pid s + 1) # map (\<lambda>i. next_pid s + 1 + of_nat (Suc i)) [0..<n], s\<lparr>next_pid := next_pid s + 1 + of_nat n\<rparr>)"
    using allocate_pid_eq [OF Suc.prems, of others] by simp
  also have "(next_pid s + 1) # map (\<lambda>i. next_pid s + 1 + of_nat (Suc i)) [0..<n] = map (\<lambda>i. next_pid s + of_nat (Suc i)) [0..<Suc n]"
    by (simp add: upt_conv_Cons map_Suc_upt [symmetric] add.assoc comp_def del: upt_Suc)
  finally show ?case by (simp add: add.assoc)
qed simp

section \<open>Starting a thread\<close>

text \<open>The control block that \<open>init_thread\<close> leaves, for any thread but the first.\<close>

definition new_task :: "addr \<Rightarrow> u16 \<Rightarrow> u32 \<Rightarrow> task_struct" where
  "new_task t p prio = zero_task\<lparr>self_kstack := t + 4096, pid := p, status := TASK_READY, priority := ucast prio, ticks := ucast prio,
     fd_table := [0, 1, 2, - 1, - 1, - 1, - 1, - 1], stack_magic := 0x19870916\<rparr>"

lemma off_page:
  assumes "frame t = t" "frame c \<noteq> t"
  shows "\<not> c - t < 276"
  using assms in_frame [of t c] by (auto simp: word_less_nat_alt)

lemma init_thread_eq:
  assumes t: "frame t = t" "t \<noteq> NULL" "t \<noteq> main_thread s"
    and lk: "lock_free (pid_lock s) s" "frame (waiters (lock_sema (pid_lock s))) \<noteq> t"
    and name: "cstr (mem s) name xs" "length xs < 16" "name \<noteq> NULL" "\<And>i. i \<le> length xs \<Longrightarrow> frame (name + of_nat i) \<noteq> t"
  shows "\<exists>m d. init_thread others t name prio s =
      Some (s\<lparr>mem := m, tasks := (tasks s)(t := new_task t (next_pid s + 1) prio), elems := (\<lambda>a. if a - t < 276 then \<lparr>lprev = 0, lnext = 0\<rparr> else elems s a), descs := d,
        next_pid := next_pid s + 1\<rparr>) \<and> cstr m (t + 12) xs \<and> (\<forall>a. frame a \<noteq> t \<longrightarrow> m a = mem s a)"
proof -
  define m0 where "m0 = memset_loop t 0 276 (mem s)"
  define m where "m = (\<lambda>a. if a - (t + 12) \<le> of_nat (length xs) then m0 (name + (a - (t + 12))) else m0 a)"
  have m0: "m0 a = mem s a" if "frame a \<noteq> t" for a using off_page [OF t(1) that] by (simp add: m0_def memset_loop_eq)
  have c0: "cstr m0 name xs" using name(1) by (subst cstr_cong [where m = "mem s"]) (simp_all add: m0 name(4))
  have len: "unat (of_nat (length xs) :: u32) = length xs" using name(2) by (intro unat_of_nat_lt) simp
  have in12: "frame (t + 12 + x) = t" if "x \<le> of_nat (length xs)" for x
  proof -
    have "unat x \<le> 15" using that len name(2) by (simp add: word_le_nat_alt)
    then have "unat (12 + x) < 4096" by (simp add: unat_add_lem [THEN iffD1])
    then show ?thesis using frame_plus(1) [of "12 + x" t] t(1) by (simp add: word_less_nat_alt add.assoc)
  qed
  have away: "of_nat (length xs) < (t + 12) - name"
  proof (rule ccontr)
    assume "\<not> of_nat (length xs) < (t + 12) - name"
    then have "unat ((t + 12) - name) \<le> length xs" using len by (simp add: word_less_nat_alt)
    from name(4) [OF this] show False using in12 [of 0] by simp
  qed
  have "strcpy_loop (t + 12) name m0 = Some m" unfolding m_def by (rule strcpy_loop_cstr [OF c0]) (use away in simp)
  moreover have "t + 12 \<noteq> NULL" using in12 [of 0] t(1,2) by (auto simp: frame_def)
  ultimately have cp: "strcpy (t + 12) name m0 = Some (t + 12, m)" using name(3) by (simp add: strcpy_def)
  have sl: "strlen name m0 = Some (of_nat (length xs))" by (rule strlen_cstr [OF c0 name(3)])
  let ?s = "s\<lparr>mem := m0, tasks := (tasks s)(t := zero_task), elems := (\<lambda>a. if a - t < 276 then \<lparr>lprev = 0, lnext = 0\<rparr> else elems s a),
      descs := (\<lambda>a. if a - t < 276 then \<lparr>block_size = 0, blocks_per_arena = 0\<rparr> else descs s a)\<rparr>"
  have cl: "clear_pcb t s = Some ?s" using t(2) by (simp add: clear_pcb_def memset_def m0_def)
  have "lock_free (pid_lock ?s) ?s" using lk off_page [OF t(1) lk(2)] by (simp add: lock_free_def list_empty_def running_thread_def)
  from allocate_pid_eq [OF this] have al: "allocate_pid others ?s = Some (next_pid s + 1, ?s\<lparr>next_pid := next_pid s + 1\<rparr>)" by simp
  have fd: "fold (\<lambda>fd_idx f. f[fd_idx := - 1]) [3..<8] ((replicate 8 0)[0 := 0, 1 := 1, 2 := 2]) = [0, 1, 2, - 1, - 1, - 1, - 1, - (1 :: u32)]" by code_simp
  let ?d = "\<lambda>a. if a - t < 276 then \<lparr>block_size = 0, blocks_per_arena = 0\<rparr> else descs s a" and ?h = "\<lambda>a. if a - t < 276 then \<lparr>lprev = 0, lnext = 0\<rparr> else elems s a"
  let ?k = "new_task t (next_pid s + 1) prio"
  have lt: "(of_nat (length xs) :: u32) < 16" using len name(2) by (simp add: word_less_nat_alt)
  have "init_thread others t name prio s = Some (s\<lparr>elems := ?h, descs := ?d, next_pid := next_pid s + 1, mem := m, tasks := (tasks s)(t := ?k)\<rparr>)"
    unfolding init_thread_def cl using al sl cp t(3) lt fd by (simp add: upd_task_def set_status_def new_task_def zero_task_def)
  also have "s\<lparr>elems := ?h, descs := ?d, next_pid := next_pid s + 1, mem := m, tasks := (tasks s)(t := ?k)\<rparr> =
      s\<lparr>mem := m, tasks := (tasks s)(t := ?k), elems := ?h, descs := ?d, next_pid := next_pid s + 1\<rparr>" by (rule tsys.equality) simp_all
  finally have "\<exists>d. init_thread others t name prio s = Some (s\<lparr>mem := m, tasks := (tasks s)(t := ?k), elems := ?h, descs := d, next_pid := next_pid s + 1\<rparr>)" by blast
  moreover have "cstr m (t + 12) xs" unfolding m_def by (rule cstr_copied [OF c0])
  moreover have "m a = mem s a" if "frame a \<noteq> t" for a using in12 [of "a - (t + 12)"] that m0 [OF that] by (auto simp: m_def)
  ultimately show ?thesis by blast
qed

lemma thread_create_eq:
  fixes s :: "'a tsys_scheme"
  assumes "self_kstack (tasks s t) = t + 4096" "frame t = t"
  shows "\<exists>m. thread_create kthread t func arg s = s\<lparr>mem := m, tasks := (tasks s)(t := (tasks s t)\<lparr>self_kstack := t + 3664\<rparr>)\<rparr> \<and>
    ld32 m (t + 3680) = kthread \<and> ld32 m (t + 3688) = func \<and> ld32 m (t + 3692) = arg \<and> (\<forall>a. a - t < 3664 \<longrightarrow> m a = mem s a)"
proof -
  define m where "m = mem (thread_create kthread t func arg s)"
  have e: "m = st32 (t + 3664) 0 (st32 (t + 3668) 0 (st32 (t + 3676) 0 (st32 (t + 3672) 0 (st32 (t + 3692) arg (st32 (t + 3688) func (st32 (t + 3680) kthread (mem s)))))))"
    using assms(1) by (simp add: m_def thread_create_def upd_task_def Let_def add.commute [of t])
  have "m a = mem s a" if a: "a - t < 3664" for a
  proof -
    have "3 < a - (t + c)" if c: "3664 \<le> c" "c < 3700" for c
    proof -
      have "unat (a - t) < 3664" "3664 \<le> unat c" "unat c < 3700" using a c by (simp_all add: word_less_nat_alt word_le_nat_alt)
      then have "3 < unat ((a - t) - c)" using unat_sub_if' [of "a - t" c] by simp
      then show ?thesis by (simp add: word_less_nat_alt diff_diff_eq)
    qed
    then show ?thesis unfolding e by (subst st32_other; simp)+
  qed
  moreover have "ld32 m (t + 3680) = kthread" "ld32 m (t + 3688) = func" "ld32 m (t + 3692) = arg" unfolding e by (simp_all add: ld32_st32_other)
  moreover have "thread_create kthread t func arg s = s\<lparr>mem := m, tasks := (tasks s)(t := (tasks s t)\<lparr>self_kstack := t + 3664\<rparr>)\<rparr>"
    by (rule tsys.equality) (use assms(1) in \<open>simp_all add: m_def thread_create_def upd_task_def Let_def add.commute [of t]\<close>)
  ultimately show ?thesis by blast
qed

lemma enqueue_thread_ok:
  assumes R: "dlist (elems s) (thread_ready_list s) rs" and A: "dlist (elems s) (thread_all_list s) as"
    and apart: "set (cells (thread_ready_list s) rs) \<inter> set (cells (thread_all_list s) as) = {}"
    and new: "general_tag t \<notin> set (cells (thread_ready_list s) rs) \<union> set (cells (thread_all_list s) as)"
      "all_list_tag t \<notin> set (cells (thread_ready_list s) rs) \<union> set (cells (thread_all_list s) as)"
  shows "\<exists>h. enqueue_thread t s = Some (s\<lparr>elems := h\<rparr>) \<and> dlist h (thread_ready_list s) (rs @ [general_tag t]) \<and> dlist h (thread_all_list s) (as @ [all_list_tag t]) \<and>
    (\<forall>c. c \<notin> set (cells (thread_ready_list s) rs) \<union> set (cells (thread_all_list s) as) \<union> {general_tag t, all_list_tag t} \<longrightarrow> h c = elems s c)"
proof -
  let ?R = "thread_ready_list s" and ?A = "thread_all_list s" and ?g = "general_tag t" and ?a = "all_list_tag t"
  let ?s1 = "list_append ?R ?g s"
  let ?s2 = "list_append ?A ?a ?s1"
  have ne: "?g \<noteq> ?a" by (simp add: general_tag_def all_list_tag_def)
  have R1: "dlist (elems ?s1) ?R (rs @ [?g])" using list_append_dlist [OF R] new(1) by simp
  have o1: "elems ?s1 c = elems s c" if "c \<notin> set (cells ?R rs)" "c \<noteq> ?g" for c using insert_tail_other [OF R that] by (simp add: list_append_eq)
  have A1: "dlist (elems ?s1) ?A as" using A apart new(1) o1 by (subst dlist_cong [where h = "elems s"]) auto
  have o2: "elems ?s2 c = elems ?s1 c" if "c \<notin> set (cells ?A as)" "c \<noteq> ?a" for c using insert_tail_other [OF A1 that] by (simp add: list_append_eq)
  have "dlist (elems ?s2) ?A (as @ [?a])" using list_append_dlist [OF A1] new(2) by simp
  moreover have "set (cells ?R (rs @ [?g])) = insert ?g (set (cells ?R rs))" by (auto simp: cells_def)
  then have "dlist (elems ?s2) ?R (rs @ [?g])" using R1 apart new ne o2 by (subst dlist_cong [where h = "elems ?s1"]) auto
  moreover have "elem_find ?R ?g s = Some False" "elem_find ?A ?a ?s1 = Some False"
    using elem_find_dlist [OF R, of ?g] elem_find_dlist [OF A1, of ?a] new by (auto simp: cells_def)
  then have "enqueue_thread t s = Some (s\<lparr>elems := elems ?s2\<rparr>)" by (simp add: enqueue_thread_def list_append_eq)
  ultimately show ?thesis using o1 o2 by (intro exI [of _ "elems ?s2"]) auto
qed

section \<open>Claims\<close>



text \<open>
  C4. Starting a thread. Let the page \<open>t\<close> belong to no thread and hold no cell of the two queues, nothing of the lock for process numbers and nothing of the name, which has at most 15
  characters. Then starting a thread in it returns: the scheduler invariant holds with one more thread, which is the last of the ready queue; the thread is also the last in the list of all threads,
  it has the next process number, its name and its priority, a full time slice and only the three standard files open; its stack makes the first switch enter \<open>kernel_thread\<close> with the function and
  the argument; and no other thread has changed.
\<close>

theorem thread_joins:
  assumes sc: "sched_ok T rs s" and t: "t \<notin> T" "frame t = t" "t \<noteq> NULL" "t \<noteq> main_thread s"
    and A: "dlist (elems s) (thread_all_list s) as" "set (cells (thread_ready_list s) (map general_tag rs)) \<inter> set (cells (thread_all_list s) as) = {}"
    and off: "\<forall>c \<in> set (cells (thread_ready_list s) (map general_tag rs)) \<union> set (cells (thread_all_list s) as) \<union> {waiters (lock_sema (pid_lock s))}. frame c \<noteq> t"
    and lk: "lock_free (pid_lock s) s"
    and name: "cstr (mem s) name xs" "length xs < 16" "name \<noteq> NULL" "\<forall>i \<le> length xs. frame (name + of_nat i) \<noteq> t"
  shows "\<exists>s'. start_in_page others kthread t name prio func arg s = Some s' \<and> sched_ok (insert t T) (rs @ [t]) s' \<and> dlist (elems s') (thread_all_list s) (as @ [all_list_tag t]) \<and>
    tasks s' = (tasks s)(t := new_task t (next_pid s + 1) prio\<lparr>self_kstack := t + 3664\<rparr>) \<and> next_pid s' = next_pid s + 1 \<and> cstr (mem s') (t + 12) xs \<and>
    ld32 (mem s') (t + 3680) = kthread \<and> ld32 (mem s') (t + 3688) = func \<and> ld32 (mem s') (t + 3692) = arg"
proof -
  let ?R = "thread_ready_list s" and ?A = "thread_all_list s" and ?k = "new_task t (next_pid s + 1) prio" and ?h = "\<lambda>a. if a - t < 276 then \<lparr>lprev = 0, lnext = 0\<rparr> else elems s a"
  obtain m d where i: "init_thread others t name prio s = Some (s\<lparr>mem := m, tasks := (tasks s)(t := ?k), elems := ?h, descs := d, next_pid := next_pid s + 1\<rparr>)" "cstr m (t + 12) xs"
    using init_thread_eq [OF t(2-4) lk, of name xs others prio] off name by auto
  define s1 where "s1 = s\<lparr>mem := m, tasks := (tasks s)(t := ?k), elems := ?h, descs := d, next_pid := next_pid s + 1\<rparr>"
  have "self_kstack (tasks s1 t) = t + 4096" by (simp add: s1_def new_task_def)
  from thread_create_eq [OF this t(2), of kthread func arg] obtain m' where
    c: "thread_create kthread t func arg s1 = s1\<lparr>mem := m', tasks := (tasks s)(t := ?k\<lparr>self_kstack := t + 3664\<rparr>)\<rparr>"
    "ld32 m' (t + 3680) = kthread" "ld32 m' (t + 3688) = func" "ld32 m' (t + 3692) = arg" "\<And>a. a - t < 3664 \<Longrightarrow> m' a = m a"
    by (auto simp: s1_def)
  define s2 where "s2 = s1\<lparr>mem := m', tasks := (tasks s)(t := ?k\<lparr>self_kstack := t + 3664\<rparr>)\<rparr>"
  have sel: "thread_ready_list s2 = ?R" "thread_all_list s2 = ?A" "elems s2 = ?h" by (simp_all add: s2_def s1_def)
  have h: "?h c = elems s c" if "c \<in> set (cells ?R (map general_tag rs)) \<union> set (cells ?A as)" for c using off_page [OF t(2)] off that by auto
  have R2: "dlist (elems s2) (thread_ready_list s2) (map general_tag rs)" "dlist (elems s2) (thread_all_list s2) as"
    unfolding sel using sched_okD(1) [OF sc] A(1) h by (simp_all add: dlist_cong [of ?R _ ?h "elems s"] dlist_cong [of ?A _ ?h "elems s"])
  have "frame (t + 36) = t" "frame (t + 44) = t" using frame_plus(1) [of 36 t] frame_plus(1) [of 44 t] t(2) by simp_all
  then have new: "general_tag t \<notin> set (cells ?R (map general_tag rs)) \<union> set (cells ?A as)" "all_list_tag t \<notin> set (cells ?R (map general_tag rs)) \<union> set (cells ?A as)"
    using off by (auto simp: general_tag_def all_list_tag_def)
  obtain h' where q: "enqueue_thread t s2 = Some (s2\<lparr>elems := h'\<rparr>)" "dlist h' ?R (map general_tag rs @ [general_tag t])" "dlist h' ?A (as @ [all_list_tag t])"
    using enqueue_thread_ok [OF R2, of t] A(2) new unfolding sel by auto
  let ?s = "s2\<lparr>elems := h'\<rparr>"
  have "cstr m' (t + 12) xs"
  proof -
    have "t + 12 + of_nat j - t < 3664" if "j \<le> length xs" for j
    proof -
      have "unat (of_nat j :: u32) = j" using that name(2) by (intro unat_of_nat_lt) simp
      then show ?thesis using that name(2) by (simp add: word_less_nat_alt unat_add_lem [THEN iffD1])
    qed
    then show ?thesis using i(2) c(5) by (subst cstr_cong [where m = m]) auto
  qed
  moreover have "sched_ok (insert t T) (rs @ [t]) ?s"
  proof -
    have f: "running_thread ?s = running_thread s" "thread_ready_list ?s = ?R" "idle_thread ?s = idle_thread s" "tasks ?s = (tasks s)(t := ?k\<lparr>self_kstack := t + 3664\<rparr>)" "elems ?s = h'"
      by (simp_all add: s2_def s1_def running_thread_def)
    have k: "kstack_ok t (t + 3664)" using frame_plus [of 3664 t] t(2) by (simp add: kstack_ok_def)
    have dirs: "dirs_ok (insert t T) ?s"
    proof -
      have v: "addr_v2p va (?s\<lparr>cr3 := x\<rparr>) = addr_v2p va (s\<lparr>cr3 := x\<rparr>)" for va x by (rule addr_v2p_cong) (simp_all add: s2_def s1_def)
      have "cr3 ?s = cr3 s" by (simp add: s2_def s1_def)
      then show ?thesis using sched_okD(9) [OF sc] t(1) unfolding dirs_ok_def v f(4) by (auto simp: new_task_def zero_task_def)
    qed
    have "general_tag t \<noteq> ?R \<and> general_tag t \<noteq> tail_of ?R" using new(1) by (auto simp: cells_def)
    then show ?thesis using sc t(1,3) q(2) k dirs unfolding sched_ok_def f by (auto simp: new_task_def zero_task_def)
  qed
  moreover have "start_in_page others kthread t name prio func arg s = Some ?s" using i(1) c(1) q(1) by (simp add: start_in_page_def s1_def [symmetric] s2_def [symmetric])
  ultimately show ?thesis using q(3) c(2-4) by (intro exI [of _ ?s]) (simp add: s2_def s1_def)
qed

text \<open>Two threads, an empty list of all threads, the lock for process numbers, and a name.\<close>

definition two_started :: tsys where
  "two_started = lock_init 0xc0005200 (list_init 0xc0005100 (two_threads\<lparr>mem := (\<lambda>_. 0)(0xc0007000 := 105, 0xc0007001 := 111)\<rparr>))"

lemma two_started_ok:
  "sched_ok {0xc009e000, 0xc0100000} [0xc0100000] two_started" "dlist (elems two_started) 0xc0005100 []" "lock_free 0xc0005200 two_started"
proof -
  have s: "thread_ready_list two_started = 0xc0005000" "idle_thread two_started = 0xc0100000" "running_thread two_started = 0xc009e000"
    "status (tasks two_started 0xc009e000) = TASK_RUNNING" "status (tasks two_started 0xc0100000) = TASK_READY"
    "kstack_ok 0xc0100000 (self_kstack (tasks two_started 0xc0100000))" "pgdir (tasks two_started 0xc009e000) = NULL"
    "pgdir (tasks two_started 0xc0100000) = NULL" "cr3 two_started = 0x100000" by code_simp+
  have "dlist (elems two_started) 0xc0005000 (map general_tag [0xc0100000])" by code_simp
  then show "sched_ok {0xc009e000, 0xc0100000} [0xc0100000] two_started"
    unfolding sched_ok_def by (simp add: s dirs_ok_def general_tag_def tail_of_def) (rule exI [of _ "{0x100000}"], simp)
  show "dlist (elems two_started) 0xc0005100 []" by code_simp
  have "running_thread (list_init 0xc0005100 (two_threads\<lparr>mem := (\<lambda>_. 0)(0xc0007000 := 105, 0xc0007001 := 111)\<rparr>)) = 0xc009e000" by code_simp
  then show "lock_free 0xc0005200 two_started" unfolding two_started_def by (intro lock_init_free) simp
qed

theorem thread_joins_witness:
  "\<exists>s'. start_in_page (\<lambda>_ _. None) 0xc0001300 0xc0200000 0xc0007000 31 0xc0001700 5 two_started = Some s' \<and> sched_ok {0xc0200000, 0xc009e000, 0xc0100000} [0xc0100000, 0xc0200000] s' \<and>
    pid (tasks s' 0xc0200000) = 3 \<and> ld32 (mem s') 0xc0200e60 = 0xc0001300"
proof -
  have sel: "thread_ready_list two_started = 0xc0005000" "thread_all_list two_started = 0xc0005100" "pid_lock two_started = 0xc0005200" "next_pid two_started = 2" "main_thread two_started = 0xc009e000"
    "mem two_started 0xc0007000 = 105" "mem two_started 0xc0007001 = 111" "mem two_started 0xc0007002 = 0" by code_simp+
  have fr: "frame 0xc0200000 = 0xc0200000" "frame 0xc0005000 \<noteq> 0xc0200000" "frame (0xc0005000 + 8) \<noteq> 0xc0200000" "frame (0xc0100000 + 36) \<noteq> 0xc0200000" "frame 0xc0005100 \<noteq> 0xc0200000"
    "frame (0xc0005100 + 8) \<noteq> 0xc0200000" "frame (waiters (lock_sema 0xc0005200)) \<noteq> 0xc0200000" "frame 0xc0007000 \<noteq> 0xc0200000" "frame 0xc0007001 \<noteq> 0xc0200000" "frame 0xc0007002 \<noteq> 0xc0200000"
    by code_simp+
  have "cstr (mem two_started) 0xc0007000 [105, 111]" using sel(6-8) by simp
  moreover have "frame (0xc0007000 + of_nat i) \<noteq> 0xc0200000" if "i \<le> 2" for i using that fr(8-10) by (auto simp: le_Suc_eq numeral_2_eq_2)
  ultimately show ?thesis
    using thread_joins [OF two_started_ok(1), of "0xc0200000" "[]" "0xc0007000" "[105, 111]" "\<lambda>_ _. None" "0xc0001300" 31 "0xc0001700" 5] two_started_ok(2,3) fr
    by (auto simp: sel cells_def tail_of_def general_tag_def new_task_def)
qed

end
