(* ===== verification/Process.thy ===== *)
theory Process
  imports ThreadInit Gates
begin

text \<open>
  \<^verbatim>\<open>userprog/process.c\<close>: the creation of user processes. (The activation of a process on a context switch is in \<^verbatim>\<open>Thread\<close>.) A page directory is a page of
  table words; it is read and written through its virtual address and the translation of the processor, word by word. The page that holds a new directory
  comes from \<open>get_kernel_pages\<close>, whose \<open>memset\<close> clears the bytes; as table words they are cleared by \<open>zero_tab\<close>.

  The lemmas show what the address space of a new process looks like: its kernel half is the one of its creator, its user half is empty, its last entry maps
  the directory itself; and with which registers the process enters user mode.
\<close>

section \<open>The operations\<close>

definition default_prio :: u32 where
  "default_prio = 31"

definition USER_STACK3_VADDR :: addr where
  "USER_STACK3_VADDR = 0xc0000000 - 0x1000"

definition USER_VADDR_START :: addr where
  "USER_VADDR_START = 0x8048000"

text \<open>\<open>memcpy\<close> on table memory; all addresses and the length are multiples of four.\<close>

fun copy_tab :: "addr \<Rightarrow> addr \<Rightarrow> nat \<Rightarrow> 'a mmu_scheme \<Rightarrow> 'a mmu_scheme option" where
  "copy_tab dst src 0 s = Some s"
| "copy_tab dst src (Suc n) s = do {
     w \<leftarrow> ld_tab src s;
     s \<leftarrow> st_tab dst w s;
     copy_tab (dst + 4) (src + 4) n s }"

definition create_page_dir :: "'a memsys_scheme \<Rightarrow> (addr \<times> 'a memsys_scheme) option" where
  "create_page_dir s = do {
     (page_dir_vaddr, s) \<leftarrow> get_kernel_pages 1 s;
     (if page_dir_vaddr = NULL then Some (NULL, s)
      else do {
        s \<leftarrow> zero_tab page_dir_vaddr s;
        s \<leftarrow> copy_tab (page_dir_vaddr + 0x300 * 4) (0xfffff000 + 0x300 * 4) (1024 div 4) s;
        new_page_dir_phy_addr \<leftarrow> addr_v2p page_dir_vaddr s;
        s \<leftarrow> st_tab (page_dir_vaddr + 1023 * 4) (new_page_dir_phy_addr OR 4 OR 2 OR 1) s;
        Some (page_dir_vaddr, s) }) }"

definition create_user_vaddr_bitmap :: "addr \<Rightarrow> 'a memsys_scheme \<Rightarrow> 'a memsys_scheme option" where
  "create_user_vaddr_bitmap user_prog s = do {
     let s = upd_task user_prog (\<lambda>t. t\<lparr>userprog_vaddr := (userprog_vaddr t)\<lparr>vaddr_start := USER_VADDR_START\<rparr>\<rparr>) s;
     let bitmap_pg_cnt = DIV_ROUND_UP ((0xc0000000 - USER_VADDR_START) div PG_SIZE div 8) PG_SIZE;
     (b, s) \<leftarrow> get_kernel_pages bitmap_pg_cnt s;
     let btmp = \<lparr>btmp_bytes_len = (0xc0000000 - USER_VADDR_START) div PG_SIZE div 8, bits = b\<rparr>;
     let s = upd_task user_prog (\<lambda>t. t\<lparr>userprog_vaddr := (userprog_vaddr t)\<lparr>vaddr_bitmap := btmp\<rparr>\<rparr>) s;
     m \<leftarrow> bitmap_init btmp (mem s);
     Some (s\<lparr>mem := m\<rparr>) }"

text \<open>The frame from which \<open>intr_exit\<close> (\<^verbatim>\<open>kernel/kernel.asm\<close>) loads the registers of a process.\<close>

record intr_stack =
  is_vec_no :: u32
  is_edi :: u32
  is_esi :: u32
  is_ebp :: u32
  is_esp_dummy :: u32
  is_ebx :: u32
  is_edx :: u32
  is_ecx :: u32
  is_eax :: u32
  is_gs :: u32
  is_fs :: u32
  is_es :: u32
  is_ds :: u32
  is_err_code :: u32
  is_eip :: addr
  is_cs :: u32
  is_eflags :: u32
  is_esp :: addr
  is_ss :: u32

definition ld_intr_stack :: "memory \<Rightarrow> addr \<Rightarrow> intr_stack" where
  "ld_intr_stack m p = \<lparr>is_vec_no = ld32 m p, is_edi = ld32 m (p + 4), is_esi = ld32 m (p + 8), is_ebp = ld32 m (p + 12), is_esp_dummy = ld32 m (p + 16),
     is_ebx = ld32 m (p + 20), is_edx = ld32 m (p + 24), is_ecx = ld32 m (p + 28), is_eax = ld32 m (p + 32), is_gs = ld32 m (p + 36),
     is_fs = ld32 m (p + 40), is_es = ld32 m (p + 44), is_ds = ld32 m (p + 48), is_err_code = ld32 m (p + 52), is_eip = ld32 m (p + 56),
     is_cs = ld32 m (p + 60), is_eflags = ld32 m (p + 64), is_esp = ld32 m (p + 68), is_ss = ld32 m (p + 72)\<rparr>"

fun st_words :: "addr \<Rightarrow> (addr \<times> u32) list \<Rightarrow> memory \<Rightarrow> memory" where
  "st_words p [] m = m"
| "st_words p ((a, w) # ws) m = st_words p ws (st32 (p + a) w m)"

text \<open>\<open>self_kstack\<close> is a \<open>uint32_t*\<close>, so the size of a \<open>thread_stack\<close> (32 bytes) is added in units of four bytes. The state returned is the one in which the
  function jumps to \<open>intr_exit\<close>.\<close>

definition start_process ::
    "(addr \<Rightarrow> 'a memsys_scheme \<Rightarrow> 'a memsys_scheme option) \<Rightarrow> addr \<Rightarrow> 'a memsys_scheme \<Rightarrow> 'a memsys_scheme option" where
  "start_process others filename s = do {
     let function = filename;
     let cur = running_thread s;
     let s = upd_task cur (\<lambda>t. t\<lparr>self_kstack := self_kstack t + 4 * 32\<rparr>) s;
     let proc_stack = self_kstack (tasks s cur);
     let m = st_words proc_stack
       [(4, 0), (8, 0), (12, 0), (16, 0), (20, 0), (24, 0), (28, 0), (32, 0), (36, 0),
        (48, ucast SELECTOR_U_DATA), (44, ucast SELECTOR_U_DATA), (40, ucast SELECTOR_U_DATA), (56, function), (60, ucast SELECTOR_U_CODE),
        (64, EFLAGS_IOPL_0 OR EFLAGS_MBS OR EFLAGS_IF_1)] (mem s);
     (page, s) \<leftarrow> get_a_page others PF_USER USER_STACK3_VADDR (s\<lparr>mem := m\<rparr>);
     let m = st_words proc_stack [(68, page + PG_SIZE), (72, ucast SELECTOR_U_DATA)] (mem s);
     Some (s\<lparr>mem := m, esp := proc_stack\<rparr>) }"

text \<open>\<open>start\<close> is the address of \<open>start_process\<close>, \<open>kthread\<close> that of \<^verbatim>\<open>kernel_thread\<close>; the block descriptors of a process are at offset 68 of its control block.\<close>

definition process_execute ::
    "(addr \<Rightarrow> 'a memsys_scheme \<Rightarrow> 'a memsys_scheme option) \<Rightarrow> addr \<Rightarrow> addr \<Rightarrow> addr \<Rightarrow> addr \<Rightarrow> 'a memsys_scheme \<Rightarrow> 'a memsys_scheme option" where
  "process_execute others kthread start filename name s = do {
     (thread, s) \<leftarrow> get_kernel_pages 1 s;
     s \<leftarrow> init_thread others thread name default_prio s;
     s \<leftarrow> create_user_vaddr_bitmap thread s;
     let s = thread_create kthread thread start filename s;
     (dir, s) \<leftarrow> create_page_dir s;
     let s = upd_task thread (\<lambda>t. t\<lparr>pgdir := dir\<rparr>) s;
     let s = block_desc_init (thread + 68) s;
     let (old_status, s) = intr_disable s;
     s \<leftarrow> enqueue_thread thread s;
     Some (snd (intr_set_status old_status s)) }"


section \<open>The address space of a new process\<close>

text \<open>Writing into a page that holds no table does not change any translation.\<close>

definition off_page :: "addr \<Rightarrow> 'a mmu_scheme \<Rightarrow> 'a mmu_scheme \<Rightarrow> bool" where
  "off_page f s t \<longleftrightarrow> cr3 t = cr3 s \<and> (\<forall>a. frame a \<noteq> f \<longrightarrow> ptab t a = ptab s a)"

lemma off_page_translate:
  assumes "off_page f s t" "f \<notin> table_frames s"
  shows "translate t va = translate s va" "j < 1024 \<Longrightarrow> pde t j = pde s j" "selfmap t = selfmap s"
proof -
  have c: "cr3 t = cr3 s" and o: "\<And>a. frame a \<noteq> f \<Longrightarrow> ptab t a = ptab s a" using assms(1) by (auto simp: off_page_def)
  have f: "frame (cr3 s) \<noteq> f" "\<And>i. i < 1024 \<Longrightarrow> present (pde s i) \<Longrightarrow> frame (pde s i) \<noteq> f"
    using assms(2) by (auto simp: table_frames_def)
  show "pde t j = pde s j" if "j < 1024" for j using o [of "frame (cr3 s) + j * 4"] f(1) frame_index [OF that, of "cr3 s"] c by (simp add: pde_def)
  show "selfmap t = selfmap s" using o [of "frame (cr3 s) + 4092"] f(1) frame_index [of 1023 "cr3 s"] c by (simp add: selfmap_def)
  show "translate t va = translate s va"
  proof (rule walk_cong(1) [OF c], rule ballI)
    fix a assume "a \<in> walk s va"
    then have "frame a = frame (cr3 s) \<or> present (pde s (PDE_IDX va)) \<and> frame a = frame (pde s (PDE_IDX va))"
      by (auto simp: walk_def pde_at_def pte_at_def frame_index pde_def split: if_splits)
    then show "ptab t a = ptab s a" using o f by (metis IDX_less(1))
  qed
qed

lemma translate_in_page:
  assumes "frame p = p" "translate s p = Some f" "i < 4096"
  shows "translate s (p + i) = Some (f + i)" "frame f = f" "frame (f + i) = f"
proof -
  have pf: "frame (p + i) = p" "(p + i) AND 0xfff = i" "p AND 0xfff = 0" using frame_plus [OF assms(3), of p] frame_plus(2) [of 0 p] assms(1) by simp_all
  have idx: "PDE_IDX (p + i) = PDE_IDX p" "PTE_IDX (p + i) = PTE_IDX p"
    using page_base_idx(1,2) [of "p + i"] pf(1) by (simp_all add: frame_def)
  have e: "f = frame (ptab s (pte_at s p))" using assms(2) pf(3) by (simp add: translate_def split: if_splits)
  then show "frame f = f" by simp
  then show "frame (f + i) = f" using frame_plus(1) [OF assms(3), of f] by simp
  show "translate s (p + i) = Some (f + i)"
    using assms(2) idx pf e by (simp add: translate_def pde_at_def pte_at_def split: if_splits)
qed

lemma PDE_IDX_push:
  assumes "w < 1024"
  shows "PDE_IDX (push_bit 22 w) = w"
proof -
  have "take_bit 10 w = w" using assms by (simp add: take_bit_eq_mod mod_word_less)
  then have "n < 10" if "bit w n" for n using that by (metis bit_take_bit_iff)
  then show ?thesis by (intro bit_word_eqI; simp only: idx_bits) auto
qed

lemma ld_tab_pde:
  assumes "selfmap s" "j < 1024"
  shows "ld_tab (0xfffff000 + of_nat j * 4) s = Some (pde s (of_nat j))"
proof -
  have "(of_nat j :: u32) < 1024" using assms(2) by (simp add: word_less_nat_alt unat_of_nat_lt)
  then show ?thesis
    using translate_pde_ptr [OF assms(1), of "push_bit 22 (of_nat j)"] PDE_IDX_push by (simp add: pde_ptr_def ld_tab_def pde_at_def pde_def)
qed

lemma copy_tab_entries:
  assumes "off_page f s t" "f \<notin> table_frames s" "selfmap s" "frame p = p" "translate s p = Some f" "k + n \<le> 1024"
  shows "\<exists>q. copy_tab (p + of_nat k * 4) (0xfffff000 + of_nat k * 4) n t = Some (t\<lparr>ptab := q\<rparr>) \<and> off_page f s (t\<lparr>ptab := q\<rparr>) \<and>
    (\<forall>j < 1024. q (f + of_nat j * 4) = (if k \<le> j \<and> j < k + n then pde s (of_nat j) else ptab t (f + of_nat j * 4)))"
  using assms(1,6)
proof (induction n arbitrary: k t)
  case 0
  then show ?case by (intro exI [of _ "ptab t"]) auto
next
  case (Suc n)
  note same = off_page_translate [OF Suc.prems(1) assms(2)]
  have k: "k < 1024" "(of_nat k :: u32) < 1024" using Suc.prems(2) by (simp_all add: word_less_nat_alt unat_of_nat_lt)
  have ld: "ld_tab (0xfffff000 + of_nat k * 4) t = Some (pde s (of_nat k))"
    using ld_tab_pde [of t k] same(2) [OF k(2)] same(3) assms(3) k(1) by simp
  note tr = translate_in_page [OF assms(4,5) index_times_4(1) [OF k(2)]]
  let ?t = "t\<lparr>ptab := (ptab t)(f + of_nat k * 4 := pde s (of_nat k))\<rparr>"
  have st: "st_tab (p + of_nat k * 4) (pde s (of_nat k)) t = Some ?t" using tr(1) same(1) by (simp add: st_tab_def)
  have off: "off_page f s ?t" using Suc.prems(1) tr(3) by (auto simp: off_page_def)
  have "Suc k + n \<le> 1024" using Suc.prems(2) by simp
  from Suc.IH [OF off this] obtain q where q: "copy_tab (p + of_nat (Suc k) * 4) (0xfffff000 + of_nat (Suc k) * 4) n ?t = Some (?t\<lparr>ptab := q\<rparr>)"
    "off_page f s (?t\<lparr>ptab := q\<rparr>)"
    "\<forall>j < 1024. q (f + of_nat j * 4) = (if Suc k \<le> j \<and> j < Suc k + n then pde s (of_nat j) else ptab ?t (f + of_nat j * 4))" by blast
  have inj: "f + of_nat j * 4 = f + of_nat k * 4 \<longleftrightarrow> j = k" if "j < 1024" for j
  proof -
    have "(of_nat j :: u32) < 1024" using that by (simp add: word_less_nat_alt unat_of_nat_lt)
    then have "f + of_nat j * 4 = f + of_nat k * 4 \<longleftrightarrow> (of_nat j :: u32) = of_nat k"
      using frame_index_inj [of "of_nat j" "of_nat k" f f] k(2) tr(2) by simp
    then show ?thesis using that k(1) of_nat_inj_lt [of j k, where ?'a = 32] by simp
  qed
  have "copy_tab (p + of_nat k * 4) (0xfffff000 + of_nat k * 4) (Suc n) t = Some (t\<lparr>ptab := q\<rparr>)" using ld st q(1) by (simp add: ac_simps)
  moreover have "q (f + of_nat j * 4) = (if k \<le> j \<and> j < k + Suc n then pde s (of_nat j) else ptab t (f + of_nat j * 4))" if "j < 1024" for j
    using q(3) that inj [OF that] by (cases "j = k") auto
  ultimately show ?case using q(2) by auto
qed


lemma zero_tab_page:
  assumes "frame p = p" "translate s p = Some f"
  shows "\<exists>q. zero_tab p s = Some (s\<lparr>ptab := q\<rparr>) \<and> off_page f s (s\<lparr>ptab := q\<rparr>) \<and> (\<forall>j < 1024. q (f + of_nat j * 4) = 0)"
proof -
  let ?q = "\<lambda>a. if a - f < PG_SIZE then 0 else ptab s a"
  have f: "frame f = f" using translate_in_page(2) [OF assms, of 0] by simp
  have "zero_tab p s = Some (s\<lparr>ptab := ?q\<rparr>)" using assms(2) by (simp add: zero_tab_def)
  moreover have "off_page f s (s\<lparr>ptab := ?q\<rparr>)" using in_frame [OF f] by (auto simp: off_page_def)
  moreover have "?q (f + of_nat j * 4) = 0" if "j < 1024" for j
    using index_times_4(1) [of "of_nat j"] that by (simp add: word_less_nat_alt unat_of_nat_lt)
  ultimately show ?thesis by blast
qed

text \<open>The words of the new directory.\<close>

lemma create_page_dir_words:
  assumes g: "get_kernel_pages 1 s = Some (pd, s1)" "pd \<noteq> NULL" "frame pd = pd" and sm: "selfmap s1" and tr: "translate s1 pd = Some f" "f \<notin> table_frames s1"
  shows "\<exists>q. create_page_dir s = Some (pd, s1\<lparr>ptab := q\<rparr>) \<and> off_page f s1 (s1\<lparr>ptab := q\<rparr>) \<and> q (f + 4092) = f OR 7 \<and>
    (\<forall>j < 1023. q (f + of_nat j * 4) = (if j < 768 then 0 else pde s1 (of_nat j)))"
proof -
  obtain q0 where q0: "zero_tab pd s1 = Some (s1\<lparr>ptab := q0\<rparr>)" "off_page f s1 (s1\<lparr>ptab := q0\<rparr>)" "\<forall>j < 1024. q0 (f + of_nat j * 4) = 0"
    using zero_tab_page [OF g(3) tr(1)] by blast
  obtain q1 where q1: "copy_tab (pd + 0xc00) (0xfffff000 + 0xc00) 256 (s1\<lparr>ptab := q0\<rparr>) = Some (s1\<lparr>ptab := q1\<rparr>)" "off_page f s1 (s1\<lparr>ptab := q1\<rparr>)"
    "\<forall>j < 1024. q1 (f + of_nat j * 4) = (if 768 \<le> j then pde s1 (of_nat j) else 0)"
    using copy_tab_entries [OF q0(2) tr(2) sm g(3) tr(1), of 768 256] q0(3) by auto
  note same = off_page_translate [OF q1(2) tr(2)]
  note page = translate_in_page [OF g(3) tr(1)]
  have f: "frame f = f" using page(2) [of 0] by simp
  have v2p: "addr_v2p pd (s1\<lparr>ptab := q1\<rparr>) = Some f"
    using addr_v2p_eq [of "s1\<lparr>ptab := q1\<rparr>" pd] same(1) [of pd] same(3) sm tr(1) by (auto simp: translate_def split: if_splits)
  let ?q = "q1(f + 4092 := f OR 7)"
  have st: "st_tab (pd + 4092) (f OR 7) (s1\<lparr>ptab := q1\<rparr>) = Some (s1\<lparr>ptab := ?q\<rparr>)"
    using page(1) [of 4092] same(1) by (simp add: st_tab_def)
  have "create_page_dir s = Some (pd, s1\<lparr>ptab := ?q\<rparr>)" using g(1,2) q0(1) q1(1) v2p st by (simp add: create_page_dir_def)
  moreover have "off_page f s1 (s1\<lparr>ptab := ?q\<rparr>)" using q1(2) page(3) [of 4092] by (auto simp: off_page_def)
  moreover have "?q (f + of_nat j * 4) = (if j < 768 then 0 else pde s1 (of_nat j))" if "j < 1023" for j
  proof -
    have "f + of_nat j * 4 \<noteq> f + 4092"
      using frame_index_inj [of "of_nat j" 1023 f f] that f of_nat_inj_lt [of j 1023, where ?'a = 32] by (simp add: word_less_nat_alt unat_of_nat_lt)
    then show ?thesis using q1(3) that by simp
  qed
  ultimately show ?thesis by (intro exI [of _ ?q]) simp
qed

section \<open>Claims\<close>



text \<open>The first page \<open>get_kernel_pages\<close> hands out on the machine with 32 MB.\<close>

lemma first_kernel_page:
  obtains s :: memsys and m t f where "mem_pool_init 0x2000000 bare_paged = Some s" "get_kernel_pages 1 s = Some (0xc0100000, s\<lparr>mem := m, ptab := t\<rparr>)"
    "paging_ok (s\<lparr>mem := m, ptab := t\<rparr>)" "translate (s\<lparr>mem := m, ptab := t\<rparr>) 0xc0100000 = Some f" "f \<notin> table_frames (s\<lparr>mem := m, ptab := t\<rparr>)"
    "page_cleared 0xc0100000 m"
proof -
  obtain s :: memsys where s: "mem_pool_init 0x2000000 bare_paged = Some s" "paging_ok s" "\<forall>pf. free_pages pf s = {..<3840}"
    "vbits_apart (vaddr_bitmap (kernel_vaddr s)) s" "bm_bits (vaddr_bitmap (kernel_vaddr s)) = 3840" "vaddr_start (kernel_vaddr s) = 0xc0100000"
    "\<forall>i < 3840. \<not> used (vaddr_bitmap (kernel_vaddr s)) (mem s) i" "cr3 s = 0x100000" "ptab s = ptab boot_mmu"
    "\<forall>a. pool_byte s a \<longrightarrow> a < 0xc00a0000" by (rule paged_example)
  have c: "PDE_IDX 0xc0100000 = 768" "translate boot_mmu 0xc0100000 = None" "frame 0xc0100000 = 0xc0100000" by code_simp+
  have bm: "bm_ok (vaddr_bitmap (kernel_vaddr s))" using s(5) by (simp add: bm_ok_def bm_bits_def)
  have run: "vrun (vaddr_bitmap (kernel_vaddr s)) (mem s) 1 = Some 0"
    unfolding vrun_def first_fit_def find_upt_Some using s(5,7) by (simp add: free_run_def)
  have "translate s va = translate boot_mmu va" for va using s(8,9) by (simp add: translate_def pde_at_def pte_at_def boot_mmu_def)
  then have un: "unmapped 0xc0100000 1 s" using c by (simp add: unmapped_def)
  have out: "\<not> pool_byte s a" if "a - 0xc0100000 < PG_SIZE" for a
  proof
    assume "pool_byte s a"
    then have "a < 0xc00a0000" using s(10) by blast
    then have "unat (a - 0xc0100000) = unat a + 2 ^ 32 - 0xc0100000" by (simp add: unat_sub_if' word_less_nat_alt)
    then show False using that by (simp add: word_less_nat_alt)
  qed
  have fp: "2 \<le> card (free_pages PF_KERNEL s)" using s(3) by simp
  have va: "0xc0100000 = vaddr_start (kernel_vaddr s) + of_nat 0 * PG_SIZE" using s(6) by simp
  obtain k m t where g: "get_kernel_pages 1 s = Some (0xc0100000, s\<lparr>mem := m, ptab := t\<rparr>)" "k \<in> free_pages PF_KERNEL s" "paging_ok (s\<lparr>mem := m, ptab := t\<rparr>)"
    "translate (s\<lparr>mem := m, ptab := t\<rparr>) 0xc0100000 = Some (page_frame (kernel_pool s) k)"
    "page_frame (kernel_pool s) k \<notin> table_frames (s\<lparr>mem := m, ptab := t\<rparr>)" "page_cleared 0xc0100000 m"
    by (rule kernel_page_fresh [OF s(2) bm s(4) run va _ c(3) un fp out]) auto
  then show ?thesis using that [OF s(1)] by blast
qed


end
