(* ===== verification/Stdio.thy ===== *)
theory Stdio
  imports CString
begin

text \<open>
  \<^verbatim>\<open>lib/stdio.c\<close>: number conversion and the formatted output into a buffer. \<open>itoa\<close> and the loop of
  \<open>vsprintf\<close> work on byte memory, with the arguments fetched from the stack words behind the format
  pointer as \<open>va_arg\<close> does.

  The lemmas relate \<open>itoa\<close> to the positional notation of the number (and back), and \<open>vsprintf\<close> to a
  reference formatter on lists, \<open>fmt_spec\<close>. \<open>vsprintf\<close> writes no terminator of its own; its result is
  the length up to the first zero it finds.
\<close>

section \<open>The routines\<close>

partial_function (option) itoa :: "u32 \<Rightarrow> addr \<Rightarrow> u8 \<Rightarrow> memory \<Rightarrow> (addr \<times> memory) option" where
  "itoa val buf_ptr base mm = do {
     ASSERT (base \<noteq> 0);
     (let m = val mod ucast base; i = val div ucast base
      in do {
        (buf_ptr, mm) \<leftarrow> (if i \<noteq> 0 then itoa i buf_ptr base mm else Some (buf_ptr, mm));
        Some (if m < 10 then (buf_ptr + 1, mm(buf_ptr := ucast (m + 48)))
              else (buf_ptr + 1, mm(buf_ptr := ucast (m - 10 + 65)))) }) }"

partial_function (option) vsprintf_loop ::
    "addr \<Rightarrow> addr \<Rightarrow> u8 \<Rightarrow> addr \<Rightarrow> memory \<Rightarrow> memory option" where
  "vsprintf_loop buf_ptr index_ptr index_char ap m =
     (if index_char = 0 then Some m
      else if index_char \<noteq> 37 then
        (let m = m(buf_ptr := index_char); index_ptr = index_ptr + 1
         in vsprintf_loop (buf_ptr + 1) index_ptr (m index_ptr) ap m)
      else
        (let index_ptr = index_ptr + 1; index_char = m index_ptr
         in if index_char = 115 then do {
              let ap = ap + 4;
              let arg_str = ld32 m ap;
              (r, m) \<leftarrow> strcpy buf_ptr arg_str m;
              n \<leftarrow> strlen arg_str m;
              let index_ptr = index_ptr + 1;
              vsprintf_loop (buf_ptr + n) index_ptr (m index_ptr) ap m }
            else if index_char = 99 then
              (let ap = ap + 4; m = m(buf_ptr := m ap); index_ptr = index_ptr + 1
               in vsprintf_loop (buf_ptr + 1) index_ptr (m index_ptr) ap m)
            else if index_char = 100 then do {
              let ap = ap + 4;
              let arg_int = ld32 m ap;
              let (arg_int, buf_ptr, m) =
                (if sint arg_int < 0 then (0 - arg_int, buf_ptr + 1, m(buf_ptr := 45))
                 else (arg_int, buf_ptr, m));
              (buf_ptr, m) \<leftarrow> itoa arg_int buf_ptr 10 m;
              let index_ptr = index_ptr + 1;
              vsprintf_loop buf_ptr index_ptr (m index_ptr) ap m }
            else if index_char = 120 then do {
              let ap = ap + 4;
              let arg_int = ld32 m ap;
              (buf_ptr, m) \<leftarrow> itoa arg_int buf_ptr 16 m;
              let index_ptr = index_ptr + 1;
              vsprintf_loop buf_ptr index_ptr (m index_ptr) ap m }
            else vsprintf_loop buf_ptr index_ptr index_char ap m))"

definition vsprintf :: "addr \<Rightarrow> addr \<Rightarrow> addr \<Rightarrow> memory \<Rightarrow> (u32 \<times> memory) option" where
  "vsprintf str format ap m = do {
     m \<leftarrow> vsprintf_loop str format (m format) ap m;
     n \<leftarrow> strlen str m;
     Some (n, m) }"

text \<open>
  \<open>sprintf\<close>: \<open>va_start\<close> points \<open>args\<close> at the stack slot of the fixed argument \<open>format\<close>, whose address is a
  parameter here; the variable arguments are the words above it.
\<close>

definition sprintf :: "addr \<Rightarrow> addr \<Rightarrow> addr \<Rightarrow> memory \<Rightarrow> (u32 \<times> memory) option" where
  "sprintf buf format format_slot m = vsprintf buf format format_slot m"

section \<open>Positional notation\<close>

definition digit_char :: "nat \<Rightarrow> u8" where
  "digit_char d = (if d < 10 then of_nat (d + 48) else of_nat (d - 10 + 65))"

fun digits :: "nat \<Rightarrow> nat \<Rightarrow> u8 list" where
  "digits b n =
     (if b < 2 \<or> n < b then [digit_char n] else digits b (n div b) @ [digit_char (n mod b)])"

declare digits.simps [simp del]

definition char_digit :: "u8 \<Rightarrow> nat" where
  "char_digit c = (if c < 58 then unat c - 48 else unat c - 65 + 10)"

definition number_of :: "nat \<Rightarrow> u8 list \<Rightarrow> nat" where
  "number_of b cs = foldl (\<lambda>n c. n * b + char_digit c) 0 cs"

lemma char_digit_char: "d < 36 \<Longrightarrow> char_digit (digit_char d) = d"
proof -
  have "\<forall>d < 36. char_digit (digit_char d) = d" by code_simp
  then show "d < 36 \<Longrightarrow> char_digit (digit_char d) = d" by blast
qed

lemma digit_char_word:
  assumes "d < 36"
  shows "digit_char d \<noteq> 0"
    and "(if of_nat d < (10 :: u32) then ucast (of_nat d + 48 :: u32)
          else ucast (of_nat d - 10 + 65 :: u32)) = digit_char d"
proof -
  have "\<forall>d < 36. digit_char d \<noteq> 0" by code_simp
  then show "digit_char d \<noteq> 0" using assms by blast
  have small: "ucast (of_nat n :: u32) = (of_nat n :: u8)" if "n < 2 ^ 32" for n
    using that by (simp add: unsigned_of_nat take_bit_nat_eq_self)
  have lt: "of_nat d < (10 :: u32) \<longleftrightarrow> d < 10"
    using assms by (simp add: word_less_nat_alt unat_of_nat)
  show "(if of_nat d < (10 :: u32) then ucast (of_nat d + 48 :: u32)
          else ucast (of_nat d - 10 + 65 :: u32)) = digit_char d"
  proof (cases "d < 10")
    case True
    then show ?thesis using small [of "d + 48"] lt by (simp add: digit_char_def)
  next
    case False
    then have "(of_nat d - 10 + 65 :: u32) = of_nat (d - 10 + 65)" by (simp add: of_nat_diff)
    then show ?thesis using False small [of "d - 10 + 65"] lt assms by (simp add: digit_char_def)
  qed
qed

lemma mod_36: "2 \<le> b \<Longrightarrow> b \<le> 36 \<Longrightarrow> n mod b < (36 :: nat)"
  by (rule less_le_trans [OF mod_less_divisor]) auto

lemma number_of_digits:
  assumes "2 \<le> b" "b \<le> 36"
  shows "number_of b (digits b n) = n"
  using assms
proof (induction n rule: less_induct)
  case (less n)
  show ?case
  proof (cases "n < b")
    case True
    then show ?thesis using less.prems by (simp add: digits.simps number_of_def char_digit_char)
  next
    case False
    then have "number_of b (digits b (n div b)) = n div b" using less by simp
    moreover have "n mod b < 36" using less.prems by (rule mod_36)
    ultimately show ?thesis
      using False less.prems
      by (subst digits.simps) (simp add: number_of_def char_digit_char)
  qed
qed

lemma digits_nonzero: "2 \<le> b \<Longrightarrow> b \<le> 36 \<Longrightarrow> 0 \<notin> set (digits b n)"
proof (induction n rule: less_induct)
  case (less n)
  have "n mod b < 36" using less.prems by (rule mod_36)
  then show ?case using less digit_char_word(1) by (cases "n < b") (auto simp: digits.simps [of b n])
qed

lemma itoa_digits:
  assumes "2 \<le> base" "base \<le> 36"
  shows "itoa val p base m = Some (p + of_nat (length (digits (unat base) (unat val))),
           put_bytes p (digits (unat base) (unat val)) m)"
proof (induction "unat val" arbitrary: val rule: less_induct)
  case less
  have b: "2 \<le> unat base" "unat base \<le> 36" "base \<noteq> 0"
    using assms by (auto simp: word_le_nat_alt)
  have ub: "unat (ucast base :: u32) = unat base" by transfer (simp add: take_bit_take_bit)
  have quot: "unat (val div ucast base) = unat val div unat base"
    "unat (val mod ucast base) = unat val mod unat base"
    by (simp_all add: unat_div unat_mod ub)
  have dig: "(if val mod ucast base < 10 then ucast (val mod ucast base + 48)
      else ucast (val mod ucast base - 10 + 65)) = digit_char (unat val mod unat base)"
    using digit_char_word(2) [OF mod_36 [OF b(1,2), of "unat val"]] unfolding quot(2) [symmetric] unat_of_nat_self .
  show ?case
  proof (cases "unat val < unat base")
    case True
    then have "val div ucast base = 0" using quot by (simp add: word_unat_eq_iff)
    then show ?thesis using True b dig
      by (subst itoa.simps) (auto simp: digits.simps split: if_splits)
  next
    case False
    then have "val div ucast base \<noteq> 0" using quot b by (auto simp: word_unat_eq_iff div_greater_zero_iff)
    moreover have "unat (val div ucast base) < unat val" using quot(1) b False by (simp add: div_greater_zero_iff)
    ultimately show ?thesis using False b dig less.hyps [of "val div ucast base"]
      by (subst itoa.simps) (auto simp: digits.simps [of "unat base" "unat val"] quot put_bytes_append split: if_splits)
  qed
qed

section \<open>A reference formatter\<close>

datatype fmt_arg = FStr "u8 list" | FChr u8 | FInt u32

definition int_text :: "u32 \<Rightarrow> u8 list" where
  "int_text w = (if sint w < 0 then 45 # digits 10 (unat (- w)) else digits 10 (unat w))"

text \<open>
  \<open>None\<close>: an argument is missing or of another kind. A \<open>%\<close> before any other character is dropped and the
  character is formatted as if it stood alone.
\<close>

definition conv :: "u8 \<Rightarrow> fmt_arg \<Rightarrow> u8 list option" where
  "conv d x =
     (case x of
        FStr xs \<Rightarrow> if d = 115 then Some xs else None
      | FChr c \<Rightarrow> if d = 99 then Some [c] else None
      | FInt w \<Rightarrow> if d = 100 then Some (int_text w) else if d = 120 then Some (digits 16 (unat w)) else None)"

function (sequential) fmt_spec :: "u8 list \<Rightarrow> fmt_arg list \<Rightarrow> u8 list option" where
  "fmt_spec [] args = Some []"
| "fmt_spec (c # fs) args =
     (if c \<noteq> 37 then map_option ((#) c) (fmt_spec fs args)
      else case fs of
          [] \<Rightarrow> Some []
        | d # fs' \<Rightarrow>
            if d \<notin> {115, 99, 100, 120} then fmt_spec fs args
            else (case args of
                [] \<Rightarrow> None
              | x # args \<Rightarrow> (case conv d x of None \<Rightarrow> None | Some xs \<Rightarrow> map_option ((@) xs) (fmt_spec fs' args))))"
  by pat_completeness auto
termination by (relation "measure (\<lambda>(fs, args). length fs)") auto

text \<open>The arguments as the words above \<open>ap\<close>, and the addresses the formatter reads for them.\<close>

fun args_at :: "memory \<Rightarrow> addr \<Rightarrow> fmt_arg list \<Rightarrow> bool" where
  "args_at m ap [] \<longleftrightarrow> True"
| "args_at m ap (x # xs) \<longleftrightarrow>
     (case x of FStr s \<Rightarrow> ld32 m (ap + 4) \<noteq> NULL \<and> cstr m (ld32 m (ap + 4)) s
      | FChr c \<Rightarrow> m (ap + 4) = c
      | FInt w \<Rightarrow> ld32 m (ap + 4) = w) \<and> args_at m (ap + 4) xs"

definition str_addrs :: "addr \<Rightarrow> u8 list \<Rightarrow> addr set" where
  "str_addrs p s = (\<lambda>i. p + of_nat i) ` {0..length s}"

fun arg_addrs :: "memory \<Rightarrow> addr \<Rightarrow> fmt_arg list \<Rightarrow> addr set" where
  "arg_addrs m ap [] = {}"
| "arg_addrs m ap (x # xs) = {ap + 4, ap + 5, ap + 6, ap + 7} \<union>
     (case x of FStr s \<Rightarrow> str_addrs (ld32 m (ap + 4)) s | _ \<Rightarrow> {}) \<union> arg_addrs m (ap + 4) xs"

lemma cstr_str_addrs:
  assumes "\<And>a. a \<in> str_addrs p s \<Longrightarrow> m' a = m a"
  shows "cstr m' p s \<longleftrightarrow> cstr m p s"
  using assms by (intro cstr_cong) (auto simp: str_addrs_def)

lemma str_addrs_Cons [simp]: "str_addrs p (c # s) = insert p (str_addrs (p + 1) s)"
proof -
  have "{0..length (c # s)} = insert 0 (Suc ` {0..length s})" by (simp add: atLeast0_atMost_Suc_eq_insert_0)
  then show ?thesis unfolding str_addrs_def by (simp only: image_insert image_image) (simp add: add.assoc)
qed

lemma str_addrs_Nil [simp]: "str_addrs p [] = {p}"
  by (simp add: str_addrs_def)

lemma ld32_arg:
  assumes "\<And>a. a \<in> {ap + 4, ap + 5, ap + 6, ap + 7} \<Longrightarrow> m' a = m a"
  shows "ld32 m' (ap + 4) = ld32 m (ap + 4)"
  using assms by (intro ld32_cong) (simp_all add: add.assoc)

lemma args_at_cong:
  assumes "\<And>a. a \<in> arg_addrs m ap args \<Longrightarrow> m' a = m a"
  shows "args_at m' ap args = args_at m ap args \<and> arg_addrs m' ap args = arg_addrs m ap args"
  using assms
proof (induction args arbitrary: ap)
  case (Cons x xs)
  have "ld32 m' (ap + 4) = ld32 m (ap + 4)" by (rule ld32_arg) (use Cons.prems in auto)
  moreover have "cstr m' (ld32 m (ap + 4)) s \<longleftrightarrow> cstr m (ld32 m (ap + 4)) s" if "x = FStr s" for s
    by (rule cstr_str_addrs) (use Cons.prems that in auto)
  moreover have "m' (ap + 4) = m (ap + 4)" using Cons.prems by simp
  ultimately show ?case using Cons.IH [of "ap + 4"] Cons.prems by (simp split: fmt_arg.splits)
qed simp

lemma strcpy_put:
  assumes "cstr m src xs" "dst \<noteq> NULL" "src \<noteq> NULL" "dst \<notin> str_addrs src xs"
  shows "strcpy dst src m = Some (dst, put_bytes dst (xs @ [0]) m)"
proof -
  have len: "length xs < 2 ^ 32" using cstr_length [OF assms(1)] by simp
  then have len1: "length (xs @ [0 :: u8]) \<le> 2 ^ 32" by simp
  have off: "of_nat (length xs) < dst - src"
  proof (rule ccontr)
    assume "\<not> of_nat (length xs) < dst - src"
    then have "unat (dst - src) \<le> length xs" using len by (simp add: word_less_nat_alt unat_of_nat_lt)
    then have "dst \<in> str_addrs src xs"
      unfolding str_addrs_def by (intro image_eqI [where x = "unat (dst - src)"]) auto
    with assms(4) show False by simp
  qed
  have "(\<lambda>a. if a - dst \<le> of_nat (length xs) then m (src + (a - dst)) else m a) = put_bytes dst (xs @ [0]) m"
  proof
    fix a
    have "a - dst \<le> of_nat (length xs) \<longleftrightarrow> unat (a - dst) < length (xs @ [0])"
      using len by (simp add: word_le_nat_alt unat_of_nat_lt less_Suc_eq_le)
    moreover have at: "m (src + of_nat k) = (xs @ [0]) ! k" if "k < length (xs @ [0])" for k
      using assms(1) that by (auto simp: cstr_nth nth_append less_Suc_eq)
    have "m (src + (a - dst)) = (xs @ [0]) ! unat (a - dst)" if "unat (a - dst) < length (xs @ [0])"
      using at [OF that] by simp
    moreover note this
    ultimately show "(if a - dst \<le> of_nat (length xs) then m (src + (a - dst)) else m a) = put_bytes dst (xs @ [0]) m a"
      unfolding put_bytes_apply [OF len1] by (simp del: length_append)
  qed
  then show ?thesis using strcpy_loop_cstr [OF assms(1)] off assms(2,3) by (simp add: strcpy_def)
qed

text \<open>What the loop relies on: inputs in place, and no input inside the bytes still to be written.\<close>

definition clear :: "memory \<Rightarrow> addr \<Rightarrow> nat \<Rightarrow> addr \<Rightarrow> u8 list \<Rightarrow> addr \<Rightarrow> fmt_arg list \<Rightarrow> bool" where
  "clear m bp n ip fs ap args \<longleftrightarrow> cstr m ip fs \<and> args_at m ap args \<and> bp \<noteq> NULL \<and> unat bp + n < 2 ^ 32 \<and>
     (\<forall>a \<in> str_addrs ip fs \<union> arg_addrs m ap args. n < unat (a - bp))"

lemma clear_step:
  assumes "clear m bp (length xs + n) ip fs ap args" "length zs \<le> 1"
  shows "clear (put_bytes bp (xs @ zs) m) (bp + of_nat (length xs)) n ip fs ap args"
proof -
  have b: "bp \<noteq> NULL" "unat bp + (length xs + n) < 2 ^ 32" using assms(1) by (simp_all add: clear_def)
  have same: "put_bytes bp (xs @ zs) m a = m a" if "length xs + n < unat (a - bp)" for a
    using that assms(2) b by (subst put_bytes_apply) auto
  have far: "n < unat (a - (bp + of_nat (length xs)))" if "length xs + n < unat (a - bp)" for a
  proof -
    have l: "unat (of_nat (length xs) :: u32) = length xs" using b by (simp add: unat_of_nat_lt)
    have "unat (a - bp - of_nat (length xs)) = unat (a - bp) - length xs"
      using that l by (subst unat_diff_le) (simp_all add: word_le_nat_alt)
    then show ?thesis using that by (simp add: diff_diff_eq)
  qed
  have u: "unat (bp + of_nat (length xs)) = unat bp + length xs"
    using b by (subst unat_add_lt) (simp_all add: unat_of_nat_lt)
  then have "bp + of_nat (length xs) \<noteq> NULL" using b by (auto simp: word_unat_eq_iff)
  moreover have "cstr (put_bytes bp (xs @ zs) m) ip fs"
    using assms(1) same by (subst cstr_str_addrs [where m = m]) (auto simp: clear_def)
  moreover have "args_at (put_bytes bp (xs @ zs) m) ap args"
    "arg_addrs (put_bytes bp (xs @ zs) m) ap args = arg_addrs m ap args"
    using assms(1) same args_at_cong [of m ap args "put_bytes bp (xs @ zs) m"] by (auto simp: clear_def)
  ultimately show ?thesis
    using assms(1) far u b unfolding clear_def by auto
qed

lemma put_bytes_overwrite:
  assumes "ys \<noteq> []" "length zs \<le> 1"
  shows "put_bytes (bp + of_nat (length xs)) ys (put_bytes bp (xs @ zs) m) = put_bytes bp (xs @ ys) m"
  using assms by (cases zs; cases ys) (auto simp: put_bytes_append)

lemma loop_join:
  assumes "clear m bp (length xs + length out) ip fs ap args" "zs = [] \<or> zs = [0]"
    and "\<exists>z \<in> {0, put_bytes bp (xs @ zs) m (bp + of_nat (length xs) + of_nat (length out))}.
      r = Some (put_bytes (bp + of_nat (length xs)) (out @ [z]) (put_bytes bp (xs @ zs) m))"
  shows "\<exists>z \<in> {0, m (bp + of_nat (length (xs @ out)))}. r = Some (put_bytes bp ((xs @ out) @ [z]) m)"
proof -
  let ?q = "bp + of_nat (length xs) + of_nat (length out)"
  have b: "unat bp + (length xs + length out) < 2 ^ 32" using assms(1) by (simp add: clear_def)
  have len: "length (xs @ zs) \<le> 2 ^ 32" using assms(2) b by auto
  have q: "?q - bp = of_nat (length xs + length out)" by simp
  have u: "unat (?q - bp) = length xs + length out" unfolding q using b by (intro unat_of_nat_lt) simp
  have "put_bytes bp (xs @ zs) m ?q \<in> {0, m ?q}"
    unfolding put_bytes_apply [OF len] u using assms(2) by (auto simp: nth_append)
  moreover obtain z where z: "z \<in> {0, put_bytes bp (xs @ zs) m ?q}"
    "r = Some (put_bytes (bp + of_nat (length xs)) (out @ [z]) (put_bytes bp (xs @ zs) m))"
    using assms(3) by blast
  moreover have "put_bytes (bp + of_nat (length xs)) (out @ [z]) (put_bytes bp (xs @ zs) m)
      = put_bytes bp (xs @ out @ [z]) m"
    using assms(2) by (intro put_bytes_overwrite) auto
  ultimately show ?thesis by (auto simp: add.assoc)
qed

lemma clear_simps:
  "clear m bp n ip (c # fs) ap args \<Longrightarrow> m ip = c \<and> c \<noteq> 0 \<and> clear m bp n (ip + 1) fs ap args"
  "clear m bp n ip fs ap (x # args) \<Longrightarrow> clear m bp n ip fs (ap + 4) args"
  "clear m bp n ip fs ap (FStr xs # args) \<Longrightarrow> ld32 m (ap + 4) \<noteq> NULL \<and> cstr m (ld32 m (ap + 4)) xs
     \<and> (\<forall>a \<in> str_addrs (ld32 m (ap + 4)) xs. n < unat (a - bp))"
  "clear m bp n ip fs ap (FChr c # args) \<Longrightarrow> m (ap + 4) = c"
  "clear m bp n ip fs ap (FInt w # args) \<Longrightarrow> ld32 m (ap + 4) = w"
  by (auto simp: clear_def)

text \<open>One rule per kind of output: what is written and where the loop goes on.\<close>

lemma loop_char:
  assumes "m ip = c" "c \<noteq> 0" "c \<noteq> 37" "clear m bp (Suc n) (ip + 1) fs ap args"
  shows "vsprintf_loop bp ip c ap m
    = vsprintf_loop (bp + 1) (ip + 1) (put_bytes bp [c] m (ip + 1)) ap (put_bytes bp [c] m)"
  using assms by (subst vsprintf_loop.simps) (simp add: Let_def)

lemma loop_percent_c:
  assumes "m (ip + 1) = 99" "m (ap + 4) = x"
  shows "vsprintf_loop bp ip 37 ap m
    = vsprintf_loop (bp + 1) (ip + 1 + 1) (put_bytes bp [x] m (ip + 1 + 1)) (ap + 4) (put_bytes bp [x] m)"
  using assms by (subst vsprintf_loop.simps) (simp add: Let_def)

lemma loop_percent_x:
  assumes "m (ip + 1) = 120" "ld32 m (ap + 4) = w" "xs = digits 16 (unat w)"
  shows "vsprintf_loop bp ip 37 ap m
    = vsprintf_loop (bp + of_nat (length xs)) (ip + 1 + 1) (put_bytes bp xs m (ip + 1 + 1)) (ap + 4) (put_bytes bp xs m)"
  using assms itoa_digits [of 16 w bp m] by (subst vsprintf_loop.simps) (simp add: Let_def)

lemma loop_percent_d:
  assumes "m (ip + 1) = 100" "ld32 m (ap + 4) = w" "xs = int_text w"
  shows "vsprintf_loop bp ip 37 ap m
    = vsprintf_loop (bp + of_nat (length xs)) (ip + 1 + 1) (put_bytes bp xs m (ip + 1 + 1)) (ap + 4) (put_bytes bp xs m)"
  using assms itoa_digits [of 10 w bp m] itoa_digits [of 10 "- w" "bp + 1" "m(bp := 45)"]
  by (subst vsprintf_loop.simps) (simp add: Let_def int_text_def add.assoc)

lemma loop_percent_s:
  assumes "m (ip + 1) = 115" "ld32 m (ap + 4) = p" "p \<noteq> NULL" "cstr m p xs" "bp \<noteq> NULL"
    "\<forall>a \<in> str_addrs p xs. length xs < unat (a - bp)" "length xs < 2 ^ 32 - 1"
  shows "vsprintf_loop bp ip 37 ap m
    = vsprintf_loop (bp + of_nat (length xs)) (ip + 1 + 1) (put_bytes bp (xs @ [0]) m (ip + 1 + 1)) (ap + 4)
        (put_bytes bp (xs @ [0]) m)"
proof -
  have "put_bytes bp (xs @ [0]) m a = m a" if "a \<in> str_addrs p xs" for a
    using assms(6,7) that by (subst put_bytes_apply) auto
  then have "cstr (put_bytes bp (xs @ [0]) m) p xs"
    using assms(4) cstr_str_addrs by blast
  moreover have "bp \<notin> str_addrs p xs" using assms(6) by auto
  ultimately show ?thesis
    using assms strcpy_put [OF assms(4,5,3)] strlen_cstr [of _ p xs]
    by (subst vsprintf_loop.simps) (simp add: Let_def)
qed

lemma loop_percent:
  assumes "conv d x = Some xs" "clear m bp n ip' fs ap (x # args)" "length xs \<le> n" "m (ip + 1) = d"
  obtains zs where "zs = [] \<or> zs = [0]"
    "vsprintf_loop bp ip 37 ap m = vsprintf_loop (bp + of_nat (length xs)) (ip + 1 + 1)
       (put_bytes bp (xs @ zs) m (ip + 1 + 1)) (ap + 4) (put_bytes bp (xs @ zs) m)"
proof (cases x)
  case (FStr ys)
  have "length xs < 2 ^ 32 - 1" "bp \<noteq> NULL"
    using assms(2,3) by (auto simp: clear_def unat_eq_0 [symmetric])
  moreover have "xs = ys" "d = 115" using FStr assms(1) by (auto simp: conv_def split: if_splits)
  ultimately have "vsprintf_loop bp ip 37 ap m = vsprintf_loop (bp + of_nat (length xs)) (ip + 1 + 1)
       (put_bytes bp (xs @ [0]) m (ip + 1 + 1)) (ap + 4) (put_bytes bp (xs @ [0]) m)"
    using FStr assms clear_simps(3) [of m bp n ip' fs ap ys args] by (intro loop_percent_s) fastforce+
  then show ?thesis using that by blast
next
  case (FChr c)
  then show ?thesis
    using assms that [of "[]"] loop_percent_c [of m ip ap c bp] clear_simps(4) [of m bp n ip' fs ap c args]
    by (auto simp: conv_def split: if_splits)
next
  case (FInt w)
  then show ?thesis
    using assms that [of "[]"] loop_percent_d [of m ip ap w xs bp] loop_percent_x [of m ip ap w xs bp]
      clear_simps(5) [of m bp n ip' fs ap w args]
    by (auto simp: conv_def split: if_splits)
qed

lemma loop_percent_other:
  assumes "m (ip + 1) = d" "d \<notin> {115, 99, 100, 120}"
  shows "vsprintf_loop bp ip 37 ap m = vsprintf_loop bp (ip + 1) d ap m"
  using assms by (subst vsprintf_loop.simps) (simp add: Let_def)

lemma loop_emit:
  assumes "clear m bp (length xs + length out) ip fs ap args" "zs = [] \<or> zs = [0]"
    and "L = vsprintf_loop (bp + of_nat (length xs)) ip (put_bytes bp (xs @ zs) m ip) ap (put_bytes bp (xs @ zs) m)"
    and "\<And>bp ip ap m. clear m bp (length out) ip fs ap args \<Longrightarrow>
      \<exists>z \<in> {0, m (bp + of_nat (length out))}. vsprintf_loop bp ip (m ip) ap m = Some (put_bytes bp (out @ [z]) m)"
  shows "\<exists>z \<in> {0, m (bp + of_nat (length (xs @ out)))}. L = Some (put_bytes bp ((xs @ out) @ [z]) m)"
  using assms(2) unfolding assms(3)
  by (intro loop_join [OF assms(1,2)] assms(4) clear_step [OF assms(1)]) auto

lemma vsprintf_loop_spec:
  assumes "fmt_spec fs args = Some out" "clear m bp (length out) ip fs ap args"
  shows "\<exists>z \<in> {0, m (bp + of_nat (length out))}.
    vsprintf_loop bp ip (m ip) ap m = Some (put_bytes bp (out @ [z]) m)"
  using assms
proof (induction fs args arbitrary: bp ip ap m out rule: fmt_spec.induct)
  case (1 args)
  then have "m ip = 0" by (simp add: clear_def)
  then show ?case using 1 by (intro bexI [of _ "m bp"]) (auto simp: vsprintf_loop.simps)
next
  case (2 c fs args)
  note IH = "2.IH" and cl = clear_simps(1) [OF "2.prems"(2)] and spec = "2.prems"(1)
  show ?case
  proof (cases "c = 37")
    case False
    then obtain out' where o: "fmt_spec fs args = Some out'" "out = [c] @ out'" using spec by auto
    have "clear m bp (length [c] + length out') (ip + 1) fs ap args" using cl o by simp
    from loop_emit [OF this, of "[]"] IH(1) [OF False o(1)]
    show ?thesis using loop_char [of m ip c bp "length out'" fs ap args] False cl o by simp
  next
    case c: True
    show ?thesis
    proof (cases fs)
      case Nil
      then have "m (ip + 1) = 0" "out = []" using cl spec c by (simp_all add: clear_def)
      then show ?thesis
        using c cl by (intro bexI [of _ "m bp"]) (auto simp: vsprintf_loop.simps)
    next
      case (Cons d fs')
      have d: "m (ip + 1) = d" "clear m bp (length out) (ip + 1 + 1) fs' ap args"
        using cl clear_simps(1) [of m bp "length out" "ip + 1" d fs'] Cons by auto
      show ?thesis
      proof (cases "d \<in> {115, 99, 100, 120}")
        case True
        with c Cons spec obtain x as xs out' where a: "args = x # as" "conv d x = Some xs"
          "fmt_spec fs' as = Some out'" "out = xs @ out'"
          by (auto split: list.splits option.splits)
        have f: "clear m bp (length xs + length out') (ip + 1 + 1) fs' (ap + 4) as"
          using d(2) a clear_simps(2) by fastforce
        obtain zs where "zs = [] \<or> zs = [0]"
          "vsprintf_loop bp ip 37 ap m = vsprintf_loop (bp + of_nat (length xs)) (ip + 1 + 1)
             (put_bytes bp (xs @ zs) m (ip + 1 + 1)) (ap + 4) (put_bytes bp (xs @ zs) m)"
          using loop_percent [OF a(2), of m bp "length out" "ip + 1 + 1" fs' ap as ip] d a by auto
        from loop_emit [OF f this IH(3) [OF _ Cons _ a(1,2,3)]] show ?thesis
          using True c cl a by simp
      next
        case False
        then have "fmt_spec fs args = Some out" using c Cons spec by simp
        from IH(2) [OF _ Cons False this, of m bp "ip + 1" ap] show ?thesis
          using loop_percent_other [of m ip d bp ap] False d(1) c cl by simp
      qed
    qed
  qed
qed

section \<open>Claims\<close>



lemma vsprintf_text:
  assumes "fmt_spec fs args = Some out" "clear m str (length out) format fs ap args"
    and "m (str + of_nat (length out)) = 0"
  shows "vsprintf str format ap m
    = Some (of_nat (length (takeWhile (\<lambda>c. c \<noteq> 0) out)), put_bytes str (out @ [0]) m)"
    "cstr (put_bytes str (out @ [0]) m) str (takeWhile (\<lambda>c. c \<noteq> 0) out)"
proof -
  let ?t = "takeWhile (\<lambda>c. c \<noteq> 0) out" and ?m = "put_bytes str (out @ [0]) m"
  have b: "str \<noteq> NULL" "unat str + length out < 2 ^ 32" using assms(2) by (simp_all add: clear_def)
  have at: "?m (str + of_nat i) = (out @ [0]) ! i" if "i \<le> length out" for i
    using that b by (subst put_bytes_apply) (auto simp: unat_of_nat_lt less_Suc_eq_le)
  show c: "cstr ?m str ?t"
    unfolding cstr_nth
  proof (intro conjI allI impI)
    fix i assume i: "i < length ?t"
    then have "i < length out" using length_takeWhile_le less_le_trans by blast
    then show "?m (str + of_nat i) = ?t ! i" "?t ! i \<noteq> 0"
      using at [of i] i takeWhile_nth [OF i] nth_mem [OF i] by (auto simp: nth_append dest: set_takeWhileD)
    next
    have "(out @ [0]) ! length ?t = 0"
      using nth_length_takeWhile [of "\<lambda>c. c \<noteq> 0" out] length_takeWhile_le [of "\<lambda>c. c \<noteq> 0" out]
      by (auto simp: nth_append)
    then show "?m (str + of_nat (length ?t)) = 0" using at [of "length ?t"] length_takeWhile_le by auto
  qed
  have "vsprintf_loop str format (m format) ap m = Some ?m"
    using vsprintf_loop_spec [OF assms(1,2)] assms(3) by auto
  then show "vsprintf str format ap m = Some (of_nat (length ?t), ?m)" using b strlen_cstr c by (simp add: vsprintf_def)
qed

text \<open>
  C27. \<open>vsprintf\<close> formats as the reference formatter does. When the format string and the arguments above \<open>ap\<close>
  are in place and none of them lies in the bytes to be written, the loop ends with exactly the formatted text
  in the buffer, the byte behind it zero and no other byte changed, provided that byte was zero before the
  call; the result is the length of the text up to its first zero byte.
\<close>

theorem vsprintf_formats:
  assumes "fmt_spec fs args = Some out" "clear m str (length out) format fs ap args"
    and "m (str + of_nat (length out)) = 0"
  shows "vsprintf str format ap m
    = Some (of_nat (length (takeWhile (\<lambda>c. c \<noteq> 0) out)), put_bytes str (out @ [0]) m)"
  by (rule vsprintf_text(1) [OF assms])

theorem vsprintf_formats_witness:
  "\<exists>m'. vsprintf 500 100 200 ((\<lambda>_. 0)(100 := 37, 101 := 100, 102 := 33, 204 := 0xfe, 205 := 0xff, 206 := 0xff, 207 := 0xff))
     = Some (3, m')"
proof -
  let ?m = "(\<lambda>_. 0)(100 := 37, 101 := 100, 102 := 33, 204 := 0xfe, 205 := 0xff, 206 := 0xff, 207 := 0xff) :: memory"
  have ld: "ld32 ?m 204 = - 2" by code_simp
  have spec: "fmt_spec [37, 100, 33] [FInt (- 2)] = Some [45, 50, 33]" by code_simp
  have "clear ?m 500 (length [45, 50, 33 :: u8]) 100 [37, 100, 33] 200 [FInt (- 2)]"
    using ld by (simp add: clear_def str_addrs_Nil)
  from vsprintf_formats [OF spec this] show ?thesis by simp
qed

end
