(* ===== verification/Console.thy ===== *)
theory Console
  imports Gates Stdio
begin

text \<open>
  \<^verbatim>\<open>device/console.c\<close>, \<^verbatim>\<open>lib/kernel/stdio-kernel.c\<close>, the system calls of \<^verbatim>\<open>userprog/syscall-init.c\<close> and \<^verbatim>\<open>lib/user/syscall.c\<close>, and \<open>printf\<close>
  of \<^verbatim>\<open>lib/stdio.c\<close>. The record \<open>consys\<close> adds the console lock, the sequence of characters given to \<open>put_char\<close> (the last one first) and the table of
  system calls, by the address of the function. \<open>put_char\<close>, \<open>put_str\<close> and \<open>put_int\<close> are the assembly routines of \<^verbatim>\<open>lib/kernel/print.asm\<close>, described by
  the characters they output.

  The lemmas show that the output of one call is not interleaved with that of another, that the lock is free again afterwards, and that \<open>printk\<close> outputs what
  the formatter produces.
\<close>

section \<open>State\<close>

record consys = tables +
  console_lock :: addr
  screen :: "u8 list"
  syscall_table :: "addr list"

section \<open>Output\<close>

definition put_char :: "u8 \<Rightarrow> 'a consys_scheme \<Rightarrow> 'a consys_scheme" where
  "put_char c s = s\<lparr>screen := c # screen s\<rparr>"

partial_function (option) put_str :: "addr \<Rightarrow> 'a consys_scheme \<Rightarrow> 'a consys_scheme option" where
  "put_str p s = (if mem s p = 0 then Some s else put_str (p + 1) (put_char (mem s p) s))"

definition put_int :: "u32 \<Rightarrow> 'a consys_scheme \<Rightarrow> 'a consys_scheme" where
  "put_int n s = fold put_char (digits 16 (unat n)) s"

definition console_init :: "'a consys_scheme \<Rightarrow> 'a consys_scheme" where
  "console_init s = lock_init (console_lock s) s"

definition console_acquire ::
    "(addr \<Rightarrow> 'a consys_scheme \<Rightarrow> 'a consys_scheme option) \<Rightarrow> 'a consys_scheme \<Rightarrow> 'a consys_scheme option" where
  "console_acquire others s = lock_acquire others (console_lock s) s"

definition console_release :: "'a consys_scheme \<Rightarrow> 'a consys_scheme option" where
  "console_release s = lock_release (console_lock s) s"

definition console_put_str ::
    "(addr \<Rightarrow> 'a consys_scheme \<Rightarrow> 'a consys_scheme option) \<Rightarrow> addr \<Rightarrow> 'a consys_scheme \<Rightarrow> 'a consys_scheme option" where
  "console_put_str others str s = do {
     s \<leftarrow> console_acquire others s;
     s \<leftarrow> put_str str s;
     console_release s }"

definition console_put_char ::
    "(addr \<Rightarrow> 'a consys_scheme \<Rightarrow> 'a consys_scheme option) \<Rightarrow> u8 \<Rightarrow> 'a consys_scheme \<Rightarrow> 'a consys_scheme option" where
  "console_put_char others char_asci s = do {
     s \<leftarrow> console_acquire others s;
     console_release (put_char char_asci s) }"

definition console_put_int ::
    "(addr \<Rightarrow> 'a consys_scheme \<Rightarrow> 'a consys_scheme option) \<Rightarrow> u32 \<Rightarrow> 'a consys_scheme \<Rightarrow> 'a consys_scheme option" where
  "console_put_int others num s = do {
     s \<leftarrow> console_acquire others s;
     console_release (put_int num s) }"

text \<open>\<open>buf\<close> is the address of the local array of 1024 bytes, \<open>format_slot\<close> that of the parameter \<open>format\<close> on the stack.\<close>

definition printk ::
    "(addr \<Rightarrow> 'a consys_scheme \<Rightarrow> 'a consys_scheme option) \<Rightarrow> addr \<Rightarrow> addr \<Rightarrow> addr \<Rightarrow> 'a consys_scheme \<Rightarrow> 'a consys_scheme option" where
  "printk others buf format format_slot s = do {
     let m = memset_loop buf 0 1024 (mem s);
     (_, m) \<leftarrow> vsprintf buf format format_slot m;
     console_put_str others buf (s\<lparr>mem := m\<rparr>) }"

section \<open>System calls\<close>

datatype SYSCALL_NR = SYS_GETPID | SYS_WRITE | SYS_MALLOC | SYS_FREE

primrec syscall_no :: "SYSCALL_NR \<Rightarrow> nat" where
  "syscall_no SYS_GETPID = 0"
| "syscall_no SYS_WRITE = 1"
| "syscall_no SYS_MALLOC = 2"
| "syscall_no SYS_FREE = 3"

definition sys_getpid :: "'a tsys_scheme \<Rightarrow> u32" where
  "sys_getpid s = ucast (pid (tasks s (running_thread s)))"

text \<open>The addresses of the four functions are parameters.\<close>

definition syscall_init :: "addr \<Rightarrow> addr \<Rightarrow> addr \<Rightarrow> addr \<Rightarrow> 'a consys_scheme \<Rightarrow> 'a consys_scheme" where
  "syscall_init getpid_f write_f malloc_f free_f s =
     s\<lparr>syscall_table := (syscall_table s)[syscall_no SYS_GETPID := getpid_f, syscall_no SYS_WRITE := write_f,
        syscall_no SYS_MALLOC := malloc_f, syscall_no SYS_FREE := free_f]\<rparr>"

text \<open>\<open>int 0x80\<close>: the entry code of \<^verbatim>\<open>kernel/kernel.asm\<close> pushes \<open>edx\<close>, \<open>ecx\<close> and \<open>ebx\<close> and calls through the table; the value returned in \<open>eax\<close> is the one the caller finds
  in \<open>eax\<close>. \<open>call\<close> runs the function at an address on three argument words. The wrappers with fewer arguments leave the other registers as they are.\<close>

definition int80 ::
    "(addr \<Rightarrow> u32 \<Rightarrow> u32 \<Rightarrow> u32 \<Rightarrow> 'a consys_scheme \<Rightarrow> (u32 \<times> 'a consys_scheme) option) \<Rightarrow> u32 \<Rightarrow> u32 \<Rightarrow> u32 \<Rightarrow> u32 \<Rightarrow>
     'a consys_scheme \<Rightarrow> (u32 \<times> 'a consys_scheme) option" where
  "int80 call nr a b c s = do {
     ASSERT (unat nr < length (syscall_table s));
     call (syscall_table s ! unat nr) a b c s }"

definition getpid where
  "getpid call a b c s = int80 call (of_nat (syscall_no SYS_GETPID)) a b c s"

definition write_call where
  "write_call call fd buf count s = int80 call (of_nat (syscall_no SYS_WRITE)) fd buf count s"

definition malloc_call where
  "malloc_call call sz b c s = int80 call (of_nat (syscall_no SYS_MALLOC)) sz b c s"

definition free_call where
  "free_call call ptr b c s = map_option snd (int80 call (of_nat (syscall_no SYS_FREE)) ptr b c s)"

definition printf where
  "printf call buf format format_slot s = do {
     let m = memset_loop buf 0 1024 (mem s);
     (_, m) \<leftarrow> vsprintf buf format format_slot m;
     n \<leftarrow> strlen buf m;
     write_call call 1 buf n (s\<lparr>mem := m\<rparr>) }"


section \<open>Output under the lock\<close>

lemma put_str_cstr: "cstr (mem s) p xs \<Longrightarrow> put_str p s = Some (s\<lparr>screen := rev xs @ screen s\<rparr>)"
proof (induction xs arbitrary: p s)
  case Nil
  then show ?case by (subst put_str.simps) (simp add: cstr_def)
next
  case (Cons x xs)
  then have c: "mem s p = x" "x \<noteq> 0" "cstr (mem s) (p + 1) xs" by auto
  have "put_str (p + 1) (put_char x s) = Some (s\<lparr>screen := rev (x # xs) @ screen s\<rparr>)"
    using Cons.IH [of "put_char x s" "p + 1"] c(3) by (simp add: put_char_def)
  then show ?case using c by (subst put_str.simps) simp
qed

lemma put_int_screen: "put_int n s = s\<lparr>screen := rev (digits 16 (unat n)) @ screen s\<rparr>"
proof -
  have "fold put_char xs s = s\<lparr>screen := rev xs @ screen s\<rparr>" for xs and s :: "'a consys_scheme"
    by (induction xs arbitrary: s) (simp_all add: put_char_def)
  then show ?thesis by (simp add: put_int_def)
qed

text \<open>With the lock free the whole text is output in one piece and the lock is free again.\<close>

lemma console_section:
  assumes "lock_free (console_lock s) s" "list_empty (waiters (lock_sema (console_lock s))) s"
  shows "console_acquire others s = Some (locked (console_lock s) s)"
    and "console_release (locked (console_lock s) s\<lparr>screen := x\<rparr>) = Some (s\<lparr>screen := x\<rparr>)"
proof -
  show "console_acquire others s = Some (locked (console_lock s) s)" using lk.acquire_law [OF assms(1)] by (simp add: console_acquire_def)
  let ?t = "locked (console_lock s) s\<lparr>screen := x\<rparr>"
  have "lock_release (console_lock s) ?t = Some (?t\<lparr>semas := semas s, locks := locks s\<rparr>)"
    using assms(2) by (intro lk.release_law [OF assms(1)]) (simp add: lock_kept_def list_empty_def)
  then show "console_release ?t = Some (s\<lparr>screen := x\<rparr>)" by (simp add: console_release_def locked_def upd_lock_def set_value_def)
qed


section \<open>Claims\<close>

lemma clear_zeroed:
  assumes "clear m buf 1023 format fs ap args" "n \<le> 1023"
  shows "clear (memset_loop buf 0 1024 m) buf n format fs ap args"
proof -
  have same: "memset_loop buf 0 1024 m a = m a" if "1023 < unat (a - buf)" for a
    using that by (simp add: memset_loop_eq word_less_nat_alt)
  have "cstr (memset_loop buf 0 1024 m) format fs" using assms(1) same by (subst cstr_str_addrs [where m = m]) (auto simp: clear_def)
  moreover have "args_at (memset_loop buf 0 1024 m) ap args" "arg_addrs (memset_loop buf 0 1024 m) ap args = arg_addrs m ap args"
    using assms(1) same args_at_cong [of m ap args "memset_loop buf 0 1024 m"] by (auto simp: clear_def)
  ultimately show ?thesis using assms unfolding clear_def by (auto intro: le_less_trans)
qed

text \<open>
  C39. Kernel messages. With the console lock free, format string and arguments in place outside the 1024 bytes of the local buffer, and a formatted text without zero bytes that
  fits into the buffer, \<open>printk\<close> returns without giving up the processor; exactly the text of the reference formatter has been added to the screen, in one
  piece, and apart from the screen and the buffer the state is the one before the call, so the lock is free again.
\<close>

theorem printk_prints:
  assumes "lock_free (console_lock s) s" "fmt_spec fs args = Some out" "0 \<notin> set out" "length out < 1024" "clear (mem s) buf 1023 format fs slot args"
  shows "\<exists>m. printk others buf format slot s = Some (s\<lparr>mem := m, screen := rev out @ screen s\<rparr>) \<and> (\<forall>a. \<not> a - buf < 1024 \<longrightarrow> m a = mem s a)"
proof -
  let ?w = "memset_loop buf 0 1024 (mem s)" and ?m = "put_bytes buf (out @ [0]) (memset_loop buf 0 1024 (mem s))"
  have cl: "clear ?w buf (length out) format fs slot args" using clear_zeroed [OF assms(5), of "length out"] assms(4) by simp
  have z: "?w (buf + of_nat (length out)) = 0" using assms(4) by (simp add: memset_loop_eq word_less_nat_alt unat_of_nat_lt)
  have tw: "takeWhile (\<lambda>c. c \<noteq> 0) out = out" using assms(3) by (auto simp: takeWhile_eq_all_conv)
  note v = vsprintf_text [OF assms(2) cl z, unfolded tw]
  let ?s = "s\<lparr>mem := ?m\<rparr>"
  have lk: "lock_free (console_lock ?s) ?s" "list_empty (waiters (lock_sema (console_lock ?s))) ?s"
    using assms(1) by (simp_all add: lock_free_def list_empty_def running_thread_def)
  have "put_str buf (locked (console_lock ?s) ?s) = Some (locked (console_lock ?s) ?s\<lparr>screen := rev out @ screen s\<rparr>)"
    using put_str_cstr [of "locked (console_lock ?s) ?s" buf out] v(2) by (simp add: locked_def upd_lock_def set_value_def)
  then have "console_put_str others buf ?s = Some (?s\<lparr>screen := rev out @ screen s\<rparr>)"
    using console_section [OF lk] by (simp add: console_put_str_def)
  moreover have "?m a = mem s a" if "\<not> a - buf < 1024" for a
    using that assms(4) by (subst put_bytes_apply) (auto simp: memset_loop_eq word_less_nat_alt)
  ultimately show ?thesis using v(1) by (intro exI [of _ ?m]) (simp add: printk_def Let_def)
qed


text \<open>A console with an empty screen; the format string \<^verbatim>\<open>"%d!"\<close> and the argument \<open>- 2\<close> are in memory.\<close>

definition bare_console :: consys where
  "bare_console = tables.extend boot_tables (consys.fields 0xc0007000 [] (replicate 32 0))"

definition text_console :: consys where
  "text_console = console_init (bare_console\<lparr>mem := (\<lambda>_. 0)(0xc0001000 := 37, 0xc0001001 := 100, 0xc0001002 := 33,
     0xc0002004 := 0xfe, 0xc0002005 := 0xff, 0xc0002006 := 0xff, 0xc0002007 := 0xff)\<rparr>)"

theorem printk_prints_witness:
  "\<exists>s'. printk (\<lambda>_ _. None) 0xc009e800 0xc0001000 0xc0002000 text_console = Some s' \<and> screen s' = [33, 50, 45]"
proof -
  have esp: "esp bare_console = 0xc009ef00" by (simp add: bare_console_def boot_tables_def bare_mem_def tables.defs memsys.defs consys.defs iosys.defs two_threads_io_def tsys.defs, code_simp)
  let ?m = "(\<lambda>_. 0)(0xc0001000 := 37, 0xc0001001 := 100, 0xc0001002 := 33, 0xc0002004 := 0xfe, 0xc0002005 := 0xff, 0xc0002006 := 0xff, 0xc0002007 := 0xff) :: memory"
  have c: "console_lock bare_console = 0xc0007000" "screen bare_console = []" by (simp_all add: bare_console_def consys.defs tables.defs)
  have t: "text_console = lock_init 0xc0007000 (bare_console\<lparr>mem := ?m\<rparr>)" using c(1) by (simp add: text_console_def console_init_def)
  have sel: "console_lock text_console = 0xc0007000" "screen text_console = []" "mem text_console = ?m"
    unfolding t by (simp_all add: c lock_init_def sema_init_def list_init_def set_lnext_def set_lprev_def Let_def upd_lock_def set_value_def)
  have "running_thread (bare_console\<lparr>mem := ?m\<rparr>) \<noteq> NULL" using esp by (simp add: running_thread_def)
  then have lk: "lock_free (console_lock text_console) text_console" unfolding sel(1) unfolding t by (rule lock_init_free)
  have ld: "ld32 ?m 0xc0002004 = - 2" by code_simp
  have spec: "fmt_spec [37, 100, 33] [FInt (- 2)] = Some [45, 50, 33]" by code_simp
  have "clear (mem text_console) 0xc009e800 1023 0xc0001000 [37, 100, 33] 0xc0002000 [FInt (- 2)]"
    unfolding sel using ld by (simp add: clear_def)
  from printk_prints [OF lk spec _ _ this, of "\<lambda>_ _. None"] sel(2) show ?thesis by auto
qed

end
