(* ===== verification/Sectors.thy ===== *)
theory Sectors
  imports Prelude
begin

text \<open>
  The contract of a device of sectors, as the file system relies on it: reading a range gives its bytes and changes nothing, writing a range replaces it. The contract has two
  implementations, the functions \<open>disk_read\<close> and \<open>disk_write\<close> on which the file system is modelled, and the driver of \<^verbatim>\<open>device/ide.c\<close> with a controller. The simulation
  theorem \<open>run_device\<close> of the locale is proved once and says for both that any sequence of transfers gives what it gives on an array of sectors, so that one can stand for the other.
\<close>

section \<open>Ranges of sectors\<close>

definition sectors_at :: "(u32 \<Rightarrow> u8 list) \<Rightarrow> u32 \<Rightarrow> nat \<Rightarrow> u8 list" where
  "sectors_at D lba n = concat (map (\<lambda>i. D (lba + of_nat i)) [0..<n])"

definition store_at :: "u32 \<Rightarrow> nat \<Rightarrow> u8 list \<Rightarrow> (u32 \<Rightarrow> u8 list) \<Rightarrow> u32 \<Rightarrow> u8 list" where
  "store_at lba n xs D = (\<lambda>l. if unat (l - lba) < n then take 512 (drop (512 * unat (l - lba)) xs) else D l)"

lemma sectors_at_length: "(\<And>l. length (D l) = 512) \<Longrightarrow> length (sectors_at D lba n) = 512 * n"
  by (induction n) (simp_all add: sectors_at_def)

lemma sectors_at_append: "sectors_at D lba (k + n) = sectors_at D lba k @ sectors_at D (lba + of_nat k) n"
  unfolding sectors_at_def map_upt_split by (simp add: comp_def add.assoc)

lemma store_at_append:
  assumes "length xs = 512 * k" "k + n \<le> 2 ^ 32"
  shows "store_at (lba + of_nat k) n ys (store_at lba k xs D) = store_at lba (k + n) (xs @ ys) D"
proof
  fix l :: u32
  define x where "x = l - lba"
  have e: "l - (lba + of_nat k) = x - of_nat k" by (simp add: x_def)
  show "store_at (lba + of_nat k) n ys (store_at lba k xs D) l = store_at lba (k + n) (xs @ ys) D l"
  proof (cases "unat x < k")
    case True
    have "\<not> unat (x - of_nat k) < n"
    proof
      assume a: "unat (x - of_nat k) < n"
      then have "k < 2 ^ 32" using assms(2) by linarith
      then have "unat (of_nat k :: u32) = k" by (simp add: unat_of_nat_lt)
      then have "unat (x - of_nat k) = unat x + 2 ^ 32 - k" using True unat_sub_if' [of x "of_nat k"] by simp
      then show False using a assms(2) True by linarith
    qed
    moreover have "512 * unat x + 512 \<le> length xs" using True assms(1) by simp
    ultimately show ?thesis using True by (simp add: store_at_def e x_def [symmetric])
  next
    case False
    then have "k < 2 ^ 32" using unsigned_less [of x, where 'a = nat] by (simp add: not_less order.strict_trans1)
    then have "unat (of_nat k :: u32) = k" by (simp add: unat_of_nat_lt)
    then have "unat (x - of_nat k) = unat x - k" using False unat_sub [of "of_nat k" x] by (simp add: word_le_nat_alt)
    then show ?thesis using False assms(1) by (auto simp: store_at_def e x_def [symmetric] diff_mult_distrib2)
  qed
qed

lemma store_at_in:
  assumes "j < n" "n \<le> 2 ^ 32"
  shows "store_at lba n xs D (lba + of_nat j) = take 512 (drop (512 * j) xs)"
proof -
  have "unat (of_nat j :: u32) = j" using assms by (intro unat_of_nat_lt) simp
  then show ?thesis using assms(1) by (simp add: store_at_def)
qed

lemma store_at_first: "0 < n \<Longrightarrow> store_at lba n xs D lba = take 512 xs"
  by (simp add: store_at_def)

lemma store_at_out:
  assumes "unat l < unat lba \<or> unat lba + n \<le> unat l" "unat lba + n < 2 ^ 32"
  shows "store_at lba n xs D l = D l"
proof -
  have "n \<le> unat (l - lba)" using assms unat_sub_if' [of l lba] by auto
  then show ?thesis by (simp add: store_at_def)
qed

lemma store_at_sectors:
  assumes "length xs = 512 * n" "n \<le> 2 ^ 32"
  shows "sectors_at (store_at lba n xs D) lba n = xs"
proof -
  have "sectors_at (store_at lba n xs D) lba k = take (512 * k) xs" if "k \<le> n" for k
    using that
  proof (induction k)
    case (Suc k)
    then have "sectors_at (store_at lba n xs D) lba (Suc k) = take (512 * k) xs @ take 512 (drop (512 * k) xs)"
      using store_at_in [of k n lba xs D] assms(2) by (simp add: sectors_at_def)
    also have "\<dots> = take (512 * Suc k) xs" by (simp add: take_add [symmetric] add.commute)
    finally show ?case .
  qed (simp add: sectors_at_def)
  then show ?thesis using assms(1) by simp
qed

lemma store_at_full:
  assumes "length xs = 512 * n" "\<And>l. length (D l) = 512"
  shows "length (store_at lba n xs D l) = 512"
proof (cases "unat (l - lba) < n")
  case True
  then have "512 * unat (l - lba) + 512 \<le> length xs" using assms(1) by simp
  then show ?thesis using True by (simp add: store_at_def)
qed (simp add: store_at_def assms(2))

section \<open>The contract\<close>

definition fits :: "nat \<Rightarrow> u32 \<Rightarrow> u32 \<Rightarrow> bool" where
  "fits limit lba n \<longleftrightarrow> 0 < n \<and> unat lba + unat n \<le> limit"

datatype transfer = Read u32 u32 | Write u32 u32 "u8 list"

primrec run_transfers :: "(u32 \<Rightarrow> u32 \<Rightarrow> 's \<Rightarrow> (u8 list \<times> 's) option) \<Rightarrow> (u32 \<Rightarrow> u8 list \<Rightarrow> u32 \<Rightarrow> 's \<Rightarrow> 's option) \<Rightarrow> transfer list \<Rightarrow> 's \<Rightarrow> (u8 list list \<times> 's) option" where
  "run_transfers rd wr [] s = Some ([], s)"
| "run_transfers rd wr (c # cs) s =
     (case c of
        Read lba n \<Rightarrow> do { (x, s) \<leftarrow> rd lba n s; (out, s) \<leftarrow> run_transfers rd wr cs s; Some (x # out, s) }
      | Write lba n xs \<Rightarrow> do { s \<leftarrow> wr lba xs n s; run_transfers rd wr cs s })"

text \<open>A transfer the client may ask for.\<close>

primrec transfer_ok :: "nat \<Rightarrow> transfer \<Rightarrow> bool" where
  "transfer_ok limit (Read lba n) \<longleftrightarrow> fits limit lba n"
| "transfer_ok limit (Write lba n xs) \<longleftrightarrow> fits limit lba n \<and> length xs = 512 * unat n"

text \<open>The reference: an array of sectors.\<close>

primrec array_run :: "transfer list \<Rightarrow> (u32 \<Rightarrow> u8 list) \<Rightarrow> u8 list list \<times> (u32 \<Rightarrow> u8 list)" where
  "array_run [] D = ([], D)"
| "array_run (c # cs) D =
     (case c of
        Read lba n \<Rightarrow> (let (out, E) = array_run cs D in (sectors_at D lba (unat n) # out, E))
      | Write lba n xs \<Rightarrow> array_run cs (store_at lba (unat n) xs D))"

locale sector_reader =
  fixes limit :: nat
    and ready :: "'s \<Rightarrow> bool"
    and array :: "'s \<Rightarrow> u32 \<Rightarrow> u8 list"
    and rd :: "u32 \<Rightarrow> u32 \<Rightarrow> 's \<Rightarrow> (u8 list \<times> 's) option"
  assumes rd_law: "ready s \<Longrightarrow> fits limit lba n \<Longrightarrow> \<exists>t. rd lba n s = Some (sectors_at (array s) lba (unat n), t) \<and> ready t \<and> array t = array s"

locale sector_device = sector_reader limit ready array rd
  for limit :: nat and ready :: "'s \<Rightarrow> bool" and array :: "'s \<Rightarrow> u32 \<Rightarrow> u8 list" and rd :: "u32 \<Rightarrow> u32 \<Rightarrow> 's \<Rightarrow> (u8 list \<times> 's) option" +
  fixes wr :: "u32 \<Rightarrow> u8 list \<Rightarrow> u32 \<Rightarrow> 's \<Rightarrow> 's option"
  assumes wr_law: "ready s \<Longrightarrow> fits limit lba n \<Longrightarrow> length xs = 512 * unat n \<Longrightarrow> \<exists>t. wr lba xs n s = Some t \<and> ready t \<and> array t = store_at lba (unat n) xs (array s)"
begin

lemma run_device:
  assumes "ready s" "list_all (transfer_ok limit) cs"
  shows "\<exists>t. run_transfers rd wr cs s = Some (fst (array_run cs (array s)), t) \<and> ready t \<and> array t = snd (array_run cs (array s))"
  using assms
proof (induction cs arbitrary: s)
  case (Cons c cs)
  show ?case
  proof (cases c)
    case (Read lba n)
    with Cons.prems obtain t where t: "rd lba n s = Some (sectors_at (array s) lba (unat n), t)" "ready t" "array t = array s" using rd_law [of s lba n] by auto
    then show ?thesis using Cons.IH [OF t(2)] Cons.prems(2) Read by (auto simp: case_prod_unfold Let_def)
  next
    case (Write lba n xs)
    with Cons.prems obtain t where t: "wr lba xs n s = Some t" "ready t" "array t = store_at lba (unat n) xs (array s)" using wr_law [of s lba n xs] by auto
    then show ?thesis using Cons.IH [OF t(2)] Cons.prems(2) Write by auto
  qed
qed simp

text \<open>What was written is read, from the same range and from no other.\<close>

lemma write_read:
  assumes "ready s" "fits limit lba n" "length xs = 512 * unat n"
  shows "\<exists>t u. wr lba xs n s = Some t \<and> rd lba n t = Some (xs, u)"
proof -
  obtain t where t: "wr lba xs n s = Some t" "ready t" "array t = store_at lba (unat n) xs (array s)" using wr_law [OF assms] by blast
  have "unat n \<le> 2 ^ LENGTH(32)" by (rule less_imp_le) (rule unsigned_less)
  then have "sectors_at (array t) lba (unat n) = xs" using t(3) store_at_sectors [OF assms(3)] by simp
  then show ?thesis using t(1) rd_law [OF t(2) assms(2)] by auto
qed

end

text \<open>Two devices that hold the same array cannot be told apart.\<close>

lemma devices_agree:
  assumes "sector_device limit ready1 array1 rd1 wr1" "sector_device limit ready2 array2 rd2 wr2"
    and "ready1 s" "ready2 t" "array1 s = array2 t" "list_all (transfer_ok limit) cs"
  shows "\<exists>out s' t'. run_transfers rd1 wr1 cs s = Some (out, s') \<and> run_transfers rd2 wr2 cs t = Some (out, t') \<and> ready1 s' \<and> ready2 t' \<and> array1 s' = array2 t'"
  using sector_device.run_device [OF assms(1,3,6)] sector_device.run_device [OF assms(2,4,6)] assms(5) by auto

end
