(* ===== verification/FsData.thy ===== *)
theory FsData
  imports Console Sectors
begin

text \<open>
  The data of the file system: the structures of \<^verbatim>\<open>fs/super_block.h\<close>, \<^verbatim>\<open>fs/inode.h\<close>, \<^verbatim>\<open>fs/dir.h\<close>, \<^verbatim>\<open>fs/file.h\<close>, \<^verbatim>\<open>fs/fs.h\<close> and \<^verbatim>\<open>device/ide.h\<close>, their layout
  on disk, and the state \<open>fsys\<close> of the file system. Structures in memory (inodes, open directories, partitions) are records by address; the list of open inodes of a
  partition consists of link cells in the inodes. The bitmaps of a partition are bytes of memory. A disk is a function from sector numbers to 512 bytes.

  A buffer that one function obtains from \<open>sys_malloc\<close> and gives back before it returns is a list of bytes or words; the calls of \<open>sys_malloc\<close>
  and \<open>sys_free\<close> are there with their effect on the heap and with the branch for \<open>NULL\<close>. A load or store outside such a buffer has the result \<open>None\<close>.
  The effect of \<open>ide_read\<close> and \<open>ide_write\<close> of \<^verbatim>\<open>device/ide.c\<close> on the sectors is \<open>disk_read\<close> and \<open>disk_write\<close>. Messages of \<open>printk\<close> are not part of the state.

  The lemmas show that the encodings are inverse to each other and have the sizes the code uses.
\<close>

section \<open>Structures\<close>

definition SECTOR_SIZE :: nat where
  "SECTOR_SIZE = 512"

definition MAX_FILES_PER_PART :: u32 where
  "MAX_FILES_PER_PART = 4096"

definition BITS_PER_SECTOR :: u32 where
  "BITS_PER_SECTOR = 4096"

definition MAX_PATH_LEN :: nat where
  "MAX_PATH_LEN = 512"

definition MAX_FILE_NAME_LEN :: nat where
  "MAX_FILE_NAME_LEN = 16"

definition MAX_FILE_OPEN :: nat where
  "MAX_FILE_OPEN = 32"

definition MAX_FILES_OPEN_PER_PROC :: nat where
  "MAX_FILES_OPEN_PER_PROC = 8"

definition max_lba :: u32 where
  "max_lba = 80 * 1024 * 1024 div 512 - 1"

text \<open>\<open>enum file_types\<close>, \<open>enum oflags\<close> and \<open>enum whence\<close> are stored in words and tested bitwise, so they are words here.\<close>

definition FT_UNKNOWN :: u32 where "FT_UNKNOWN = 0"
definition FT_REGULAR :: u32 where "FT_REGULAR = 1"
definition FT_DIRECTORY :: u32 where "FT_DIRECTORY = 2"
definition O_RDONLY :: u32 where "O_RDONLY = 0"
definition O_WRONLY :: u32 where "O_WRONLY = 1"
definition O_RDWR :: u32 where "O_RDWR = 2"
definition O_CREAT :: u32 where "O_CREAT = 4"
definition SEEK_SET :: u8 where "SEEK_SET = 1"
definition SEEK_CUR :: u8 where "SEEK_CUR = 2"
definition SEEK_END :: u8 where "SEEK_END = 3"

datatype bitmap_type = INODE_BITMAP | BLOCK_BITMAP

record super_block =
  magic :: u32
  sb_sec_cnt :: u32
  inode_cnt :: u32
  part_lba_base :: u32
  block_bitmap_lba :: u32
  block_bitmap_sects :: u32
  inode_bitmap_lba :: u32
  inode_bitmap_sects :: u32
  inode_table_lba :: u32
  inode_table_sects :: u32
  data_start_lba :: u32
  root_inode_no :: u32
  dir_entry_size :: u32

text \<open>The link cell \<open>inode_tag\<close> is at offset 68.\<close>

record inode =
  i_no :: u32
  i_size :: u32
  i_open_cnts :: u32
  write_deny :: bool
  i_sectors :: "u32 list"

record dir =
  dir_inode :: addr
  dir_pos :: u32
  dir_buf :: "u8 list"

record dir_entry =
  filename :: "u8 list"
  de_i_no :: u32
  f_type :: u32

record open_file =
  fd_pos :: u32
  fd_flag :: u32
  fd_inode :: addr

text \<open>The name is 8 bytes of memory at offset 20, the link cell \<open>part_tag\<close> at offset 12, the list \<open>open_inodes\<close> at offset 48. The super block
  behind the pointer \<open>sb\<close> is part of the record.\<close>

record partition =
  start_lba :: u32
  sec_cnt :: u32
  my_disk :: addr
  sb :: super_block
  block_bitmap :: bitmap
  inode_bitmap :: bitmap

record path_search_record =
  searched_path :: "u8 list"
  parent_dir :: addr
  file_type :: u32

record stat =
  st_ino :: u32
  st_size :: u32
  st_filetype :: u32

record fsys = consys +
  inodes :: "addr \<Rightarrow> inode"
  dirs :: "addr \<Rightarrow> dir"
  parts :: "addr \<Rightarrow> partition"
  cur_part :: addr
  root_dir :: addr
  file_table :: "open_file list"
  disks :: "addr \<Rightarrow> u32 \<Rightarrow> u8 list"

definition open_inodes :: "addr \<Rightarrow> addr" where
  "open_inodes part = part + 48"

definition inode_tag :: "addr \<Rightarrow> addr" where
  "inode_tag inode = inode + 68"

definition tag2inode :: "addr \<Rightarrow> addr" where
  "tag2inode elem = elem - 68"

definition upd_inode :: "addr \<Rightarrow> (inode \<Rightarrow> inode) \<Rightarrow> 'a fsys_scheme \<Rightarrow> 'a fsys_scheme" where
  "upd_inode p f s = s\<lparr>inodes := (inodes s)(p := f (inodes s p))\<rparr>"

definition upd_dir :: "addr \<Rightarrow> (dir \<Rightarrow> dir) \<Rightarrow> 'a fsys_scheme \<Rightarrow> 'a fsys_scheme" where
  "upd_dir p f s = s\<lparr>dirs := (dirs s)(p := f (dirs s p))\<rparr>"

definition upd_part :: "addr \<Rightarrow> (partition \<Rightarrow> partition) \<Rightarrow> 'a fsys_scheme \<Rightarrow> 'a fsys_scheme" where
  "upd_part p f s = s\<lparr>parts := (parts s)(p := f (parts s p))\<rparr>"

definition upd_file :: "nat \<Rightarrow> (open_file \<Rightarrow> open_file) \<Rightarrow> 'a fsys_scheme \<Rightarrow> 'a fsys_scheme" where
  "upd_file i f s = s\<lparr>file_table := (file_table s)[i := f (file_table s ! i)]\<rparr>"

section \<open>Words and structures as bytes\<close>

definition le32 :: "u32 \<Rightarrow> u8 list" where
  "le32 w = [ucast w, ucast (drop_bit 8 w), ucast (drop_bit 16 w), ucast (drop_bit 24 w)]"

definition un32 :: "u8 list \<Rightarrow> u32" where
  "un32 b = ucast (b ! 0) OR push_bit 8 (ucast (b ! 1)) OR push_bit 16 (ucast (b ! 2)) OR push_bit 24 (ucast (b ! 3))"

definition words_bytes :: "u32 list \<Rightarrow> u8 list" where
  "words_bytes ws = concat (map le32 ws)"

primrec bytes_words :: "nat \<Rightarrow> u8 list \<Rightarrow> u32 list" where
  "bytes_words 0 b = []"
| "bytes_words (Suc n) b = un32 b # bytes_words n (drop 4 b)"

text \<open>Storing bytes into a buffer at an offset; outside the buffer the language promises nothing.\<close>

definition put_at :: "nat \<Rightarrow> u8 list \<Rightarrow> u8 list \<Rightarrow> u8 list option" where
  "put_at off xs buf = do {
     ASSERT (off + length xs \<le> length buf);
     Some (take off buf @ xs @ drop (off + length xs) buf) }"

text \<open>An inode on disk: 76 bytes, the last eight of which are the place of \<open>inode_tag\<close>.\<close>

definition inode_bytes :: "inode \<Rightarrow> u8 list" where
  "inode_bytes i = words_bytes ([i_no i, i_size i, i_open_cnts i, if write_deny i then 1 else 0] @ i_sectors i @ [0, 0])"

definition bytes_inode :: "u8 list \<Rightarrow> inode" where
  "bytes_inode b =
     (let w = bytes_words 17 b
      in \<lparr>i_no = w ! 0, i_size = w ! 1, i_open_cnts = w ! 2, write_deny = (w ! 3 \<noteq> 0), i_sectors = drop 4 w\<rparr>)"

definition entry_bytes :: "dir_entry \<Rightarrow> u8 list" where
  "entry_bytes e = filename e @ words_bytes [de_i_no e, f_type e]"

definition bytes_entry :: "u8 list \<Rightarrow> dir_entry" where
  "bytes_entry b = (let w = bytes_words 2 (drop 16 b) in \<lparr>filename = take 16 b, de_i_no = w ! 0, f_type = w ! 1\<rparr>)"

definition sb_bytes :: "super_block \<Rightarrow> u8 list \<Rightarrow> u8 list" where
  "sb_bytes b pad = words_bytes [magic b, sb_sec_cnt b, inode_cnt b, part_lba_base b, block_bitmap_lba b, block_bitmap_sects b, inode_bitmap_lba b,
     inode_bitmap_sects b, inode_table_lba b, inode_table_sects b, data_start_lba b, root_inode_no b, dir_entry_size b] @ pad"

definition bytes_sb :: "u8 list \<Rightarrow> super_block" where
  "bytes_sb b =
     (let w = bytes_words 13 b
      in \<lparr>magic = w ! 0, sb_sec_cnt = w ! 1, inode_cnt = w ! 2, part_lba_base = w ! 3, block_bitmap_lba = w ! 4, block_bitmap_sects = w ! 5,
          inode_bitmap_lba = w ! 6, inode_bitmap_sects = w ! 7, inode_table_lba = w ! 8, inode_table_sects = w ! 9, data_start_lba = w ! 10,
          root_inode_no = w ! 11, dir_entry_size = w ! 12\<rparr>)"

section \<open>Sectors\<close>

text \<open>A transfer is done in pieces of at most 256 sectors, and the first sector of each piece is checked against \<open>max_lba\<close>.\<close>

definition lba_ok :: "u32 \<Rightarrow> u32 \<Rightarrow> bool" where
  "lba_ok lba n \<longleftrightarrow> 0 < n \<and> list_all (\<lambda>c. lba + of_nat (256 * c) \<le> max_lba) [0..<(unat n + 255) div 256]"

definition disk_read :: "addr \<Rightarrow> u32 \<Rightarrow> u32 \<Rightarrow> 'a fsys_scheme \<Rightarrow> u8 list option" where
  "disk_read dk lba n s = do {
     ASSERT (lba_ok lba n);
     Some (concat (map (\<lambda>i. disks s dk (lba + of_nat i)) [0..<unat n])) }"

definition disk_write :: "addr \<Rightarrow> u32 \<Rightarrow> u8 list \<Rightarrow> u32 \<Rightarrow> 'a fsys_scheme \<Rightarrow> 'a fsys_scheme option" where
  "disk_write dk lba buf n s = do {
     ASSERT (lba_ok lba n);
     ASSERT (512 * unat n \<le> length buf);
     Some (s\<lparr>disks := (disks s)(dk := (\<lambda>l. if l - lba < n then take 512 (drop (512 * unat (l - lba)) buf) else disks s dk l))\<rparr>) }"

section \<open>Facts on encodings\<close>

lemma le32_length [simp]: "length (le32 w) = 4"
  by (simp add: le32_def)

lemma words_bytes_length [simp]: "length (words_bytes ws) = 4 * length ws"
  by (induction ws) (simp_all add: words_bytes_def)

lemma un32_le32: "un32 (le32 w @ r) = w"
proof (rule bit_word_eqI)
  fix n assume "n < LENGTH(32)"
  then show "bit (un32 (le32 w @ r)) n = bit w n"
    by (cases "n < 8"; cases "n < 16"; cases "n < 24") (auto simp: un32_def le32_def bit_or_iff bit_push_bit_iff bit_ucast_iff bit_drop_bit_eq
        dest: bit_imp_le_length)
qed

lemma bytes_words_length [simp]: "length (bytes_words n b) = n"
  by (induction n arbitrary: b) simp_all

lemma bytes_words_inverse [simp]: "n \<le> length ws \<Longrightarrow> bytes_words n (words_bytes ws @ r) = take n ws"
proof (induction n arbitrary: ws)
  case (Suc n)
  then obtain w vs where ws: "ws = w # vs" by (cases ws) auto
  then have e: "words_bytes ws @ r = le32 w @ (words_bytes vs @ r)" by (simp add: words_bytes_def)
  then show ?case using Suc ws un32_le32 [of w "words_bytes vs @ r"] by simp
qed simp

lemma bytes_words_exact [simp]: "n \<le> length ws \<Longrightarrow> bytes_words n (words_bytes ws) = take n ws"
  using bytes_words_inverse [of n ws "[]"] by simp

lemma inode_bytes_length: "length (i_sectors i) = 13 \<Longrightarrow> length (inode_bytes i) = 76"
  by (simp add: inode_bytes_def)

lemma bytes_inode_inverse: "length (i_sectors i) = 13 \<Longrightarrow> bytes_inode (inode_bytes i @ r) = i"
  by (simp add: bytes_inode_def inode_bytes_def Let_def nth_append take_Cons')

lemma entry_bytes_length: "length (filename e) = 16 \<Longrightarrow> length (entry_bytes e) = 24"
  by (simp add: entry_bytes_def)

lemma bytes_entry_inverse: "length (filename e) = 16 \<Longrightarrow> bytes_entry (entry_bytes e @ r) = e"
  by (simp add: bytes_entry_def entry_bytes_def Let_def take_Cons')

lemma bytes_sb_inverse: "bytes_sb (sb_bytes b pad) = b"
  by (simp add: bytes_sb_def sb_bytes_def Let_def take_Cons')

lemma sector_read: "b \<le> max_lba \<Longrightarrow> disk_read dk b 1 s = Some (disks s dk b)"
  by (simp add: disk_read_def lba_ok_def)

lemma sector_write:
  assumes "b \<le> max_lba" "length buf = 512"
  shows "disk_write dk b buf 1 s = Some (s\<lparr>disks := (disks s)(dk := (disks s dk)(b := buf))\<rparr>)"
proof -
  have "l - b < 1 \<longleftrightarrow> l = b" for l :: u32
    by (auto simp: word_less_nat_alt unat_eq_zero)
  then show ?thesis using assms by (auto simp: disk_write_def lba_ok_def fun_upd_def cong: if_cong)
qed

text \<open>A range of sectors on the disk.\<close>

lemma lba_in_range:
  assumes "unat lba + n \<le> Suc (unat max_lba)" "k < n"
  shows "lba + of_nat k \<le> max_lba" "unat (lba + of_nat k) = unat lba + k"
proof -
  have b: "unat lba + k \<le> unat max_lba" "unat max_lba < 2 ^ 31" using assms by (simp_all add: max_lba_def)
  then have "unat (of_nat k :: u32) = k" by (simp add: unat_of_nat_lt)
  then show "unat (lba + of_nat k) = unat lba + k" using b by (simp add: unat_add_lem [THEN iffD1])
  then show "lba + of_nat k \<le> max_lba" using b(1) by (simp add: word_le_nat_alt)
qed

lemma lba_ok_range:
  assumes "0 < cnt" "unat lba + unat cnt \<le> Suc (unat max_lba)"
  shows "lba_ok lba cnt"
proof -
  have "lba + of_nat (256 * c) \<le> max_lba" if "c < (unat cnt + 255) div 256" for c
    by (rule lba_in_range(1) [OF assms(2)]) (use that in linarith)
  then show ?thesis using assms(1) by (simp add: lba_ok_def list_all_iff)
qed

text \<open>The functions above are a device of sectors.\<close>

lemma disk_write_store:
  assumes "lba_ok lba n" "512 * unat n \<le> length buf"
  shows "disk_write dk lba buf n s = Some (s\<lparr>disks := (disks s)(dk := store_at lba (unat n) buf (disks s dk))\<rparr>)"
  using assms by (simp add: disk_write_def store_at_def word_less_nat_alt)

interpretation md: sector_device "Suc (unat max_lba)" "\<lambda>s. True" "\<lambda>s. disks s dk" "\<lambda>lba n s. map_option (\<lambda>xs. (xs, s)) (disk_read dk lba n s)" "disk_write dk"
  by unfold_locales (auto simp: fits_def lba_ok_range disk_read_def sectors_at_def disk_write_store)

lemma put_at_length: "put_at off xs buf = Some b \<Longrightarrow> length b = length buf"
  by (auto simp: put_at_def)

lemma put_at_get: "put_at off xs buf = Some b \<Longrightarrow> take (length xs) (drop off b) = xs"
  by (auto simp: put_at_def)

lemma put_at_other:
  assumes "put_at off xs buf = Some b" "p + n \<le> off \<or> off + length xs \<le> p"
  shows "take n (drop p b) = take n (drop p buf)"
  using assms by (auto simp: put_at_def drop_take min_def)

end
