(* ===== verification/Inode.thy ===== *)
theory Inode
  imports FsData
begin

text \<open>
  \<^verbatim>\<open>fs/inode.c\<close> and the allocation and synchronisation of bitmaps from \<^verbatim>\<open>fs/file.c\<close>. An inode is found by its number in the table on disk, where it occupies
  76 bytes and may lie in two sectors; an open inode is a record in memory that all openers share, linked into the list of its partition. \<open>inode_sync\<close> also takes the
  inodes that are local variables, so its argument is the inode itself; the size of the buffer the caller provides is a parameter, since two
  sectors do not fit into the buffer of every caller.

  The lemmas show where inodes lie, that what \<open>inode_sync\<close> writes is what \<open>inode_open\<close> reads, and that allocation never hands out a block or an inode number twice.
\<close>

section \<open>Bitmaps of a partition\<close>

definition inode_bitmap_alloc :: "addr \<Rightarrow> 'a fsys_scheme \<Rightarrow> (u32 \<times> 'a fsys_scheme) option" where
  "inode_bitmap_alloc part s = do {
     bit_idx \<leftarrow> bitmap_scan (inode_bitmap (parts s part)) 1 (mem s);
     (if bit_idx = - 1 then Some (- 1, s)
      else do {
        m \<leftarrow> bitmap_set (inode_bitmap (parts s part)) bit_idx 1 (mem s);
        Some (bit_idx, s\<lparr>mem := m\<rparr>) }) }"

definition block_bitmap_alloc :: "addr \<Rightarrow> 'a fsys_scheme \<Rightarrow> (u32 \<times> 'a fsys_scheme) option" where
  "block_bitmap_alloc part s = do {
     bit_idx \<leftarrow> bitmap_scan (block_bitmap (parts s part)) 1 (mem s);
     (if bit_idx = - 1 then Some (- 1, s)
      else do {
        m \<leftarrow> bitmap_set (block_bitmap (parts s part)) bit_idx 1 (mem s);
        Some (data_start_lba (sb (parts s part)) + bit_idx, s\<lparr>mem := m\<rparr>) }) }"

text \<open>Clearing the bit of a block or an inode.\<close>

definition block_bit_clear :: "addr \<Rightarrow> u32 \<Rightarrow> 'a fsys_scheme \<Rightarrow> 'a fsys_scheme option" where
  "block_bit_clear part block s = do {
     let block_bitmap_idx = block - data_start_lba (sb (parts s part));
     m \<leftarrow> bitmap_set (block_bitmap (parts s part)) block_bitmap_idx 0 (mem s);
     Some (s\<lparr>mem := m\<rparr>) }"

definition inode_bit_clear :: "addr \<Rightarrow> u32 \<Rightarrow> 'a fsys_scheme \<Rightarrow> 'a fsys_scheme option" where
  "inode_bit_clear part inode_no s = do {
     m \<leftarrow> bitmap_set (inode_bitmap (parts s part)) inode_no 0 (mem s);
     Some (s\<lparr>mem := m\<rparr>) }"

definition mem_bytes :: "memory \<Rightarrow> addr \<Rightarrow> nat \<Rightarrow> u8 list" where
  "mem_bytes m p n = map (\<lambda>i. m (p + of_nat i)) [0..<n]"

definition bitmap_sync :: "addr \<Rightarrow> u32 \<Rightarrow> bitmap_type \<Rightarrow> 'a fsys_scheme \<Rightarrow> 'a fsys_scheme option" where
  "bitmap_sync part bit_idx btmp_type s = do {
     let off_sec = bit_idx div 4096;
     let off_size = off_sec * 512;
     let (sec_lba, bitmap_off) = (case btmp_type of
         INODE_BITMAP \<Rightarrow> (inode_bitmap_lba (sb (parts s part)) + off_sec, bits (inode_bitmap (parts s part)) + off_size)
       | BLOCK_BITMAP \<Rightarrow> (block_bitmap_lba (sb (parts s part)) + off_sec, bits (block_bitmap (parts s part)) + off_size));
     disk_write (my_disk (parts s part)) sec_lba (mem_bytes (mem s) bitmap_off 512) 1 s }"

section \<open>Inodes\<close>

record inode_position =
  two_sec :: bool
  sec_lba :: u32
  off_size :: nat

definition inode_locate :: "addr \<Rightarrow> u32 \<Rightarrow> 'a fsys_scheme \<Rightarrow> inode_position option" where
  "inode_locate part inode_no s = do {
     ASSERT (inode_no < 4096);
     let inode_table = inode_table_lba (sb (parts s part));
     let inode_size = 76;
     let off = inode_no * inode_size;
     let off_sec = off div 512;
     let off_size_in_sec = off mod 512;
     let left_in_sec = 512 - off_size_in_sec;
     Some \<lparr>two_sec = left_in_sec < inode_size, sec_lba = inode_table + off_sec, off_size = unat off_size_in_sec\<rparr> }"

text \<open>Reading the sectors of an inode, replacing its 76 bytes and writing the sectors back; \<open>buf_size\<close> is the size of the buffer used.\<close>

definition inode_splice :: "addr \<Rightarrow> inode_position \<Rightarrow> u8 list \<Rightarrow> nat \<Rightarrow> 'a fsys_scheme \<Rightarrow> 'a fsys_scheme option" where
  "inode_splice part pos xs buf_size s = do {
     let n = (if two_sec pos then 2 else (1 :: u32));
     ASSERT (512 * unat n \<le> buf_size);
     inode_buf \<leftarrow> disk_read (my_disk (parts s part)) (sec_lba pos) n s;
     inode_buf \<leftarrow> put_at (off_size pos) xs inode_buf;
     disk_write (my_disk (parts s part)) (sec_lba pos) inode_buf n s }"

text \<open>The local variable \<open>inode_no\<close> has the type \<open>uint8_t\<close>.\<close>

definition inode_sync :: "addr \<Rightarrow> inode \<Rightarrow> nat \<Rightarrow> 'a fsys_scheme \<Rightarrow> 'a fsys_scheme option" where
  "inode_sync part i buf_size s = do {
     let inode_no = (ucast (i_no i) :: u8);
     inode_pos \<leftarrow> inode_locate part (ucast inode_no) s;
     ASSERT (sec_lba inode_pos \<le> start_lba (parts s part) + sec_cnt (parts s part));
     let pure_inode = i\<lparr>i_open_cnts := 0, write_deny := False\<rparr>;
     inode_splice part inode_pos (inode_bytes pure_inode) buf_size s }"

partial_function (option) inode_find_loop :: "addr \<Rightarrow> addr \<Rightarrow> u32 \<Rightarrow> 'a fsys_scheme \<Rightarrow> addr option option" where
  "inode_find_loop tail elem inode_no s =
     (if elem = tail then Some None
      else if i_no (inodes s (tag2inode elem)) = inode_no then Some (Some (tag2inode elem))
      else inode_find_loop tail (lnext (elems s elem)) inode_no s)"

text \<open>\<open>sys_malloc\<close> and \<open>sys_free\<close> on the kernel heap, whoever the caller is.\<close>

definition kernel_malloc ::
    "(addr \<Rightarrow> 'a memsys_scheme \<Rightarrow> 'a memsys_scheme option) \<Rightarrow> u32 \<Rightarrow> 'a memsys_scheme \<Rightarrow> (addr \<times> 'a memsys_scheme) option" where
  "kernel_malloc others sz s = do {
     let cur = running_thread s;
     let cur_pagedir_bak = pgdir (tasks s cur);
     let s = upd_task cur (\<lambda>t. t\<lparr>pgdir := NULL\<rparr>) s;
     (p, s) \<leftarrow> sys_malloc others sz s;
     Some (p, upd_task cur (\<lambda>t. t\<lparr>pgdir := cur_pagedir_bak\<rparr>) s) }"

definition kernel_free ::
    "(addr \<Rightarrow> 'a memsys_scheme \<Rightarrow> 'a memsys_scheme option) \<Rightarrow> addr \<Rightarrow> 'a memsys_scheme \<Rightarrow> 'a memsys_scheme option" where
  "kernel_free others p s = do {
     let cur = running_thread s;
     let cur_pagedir_bak = pgdir (tasks s cur);
     let s = upd_task cur (\<lambda>t. t\<lparr>pgdir := NULL\<rparr>) s;
     s \<leftarrow> sys_free others p s;
     Some (upd_task cur (\<lambda>t. t\<lparr>pgdir := cur_pagedir_bak\<rparr>) s) }"

text \<open>The 76 bytes of an inode on disk.\<close>

definition inode_load :: "addr \<Rightarrow> inode_position \<Rightarrow> 'a fsys_scheme \<Rightarrow> inode option" where
  "inode_load part pos s = do {
     inode_buf \<leftarrow> disk_read (my_disk (parts s part)) (sec_lba pos) (if two_sec pos then 2 else 1) s;
     Some (bytes_inode (take 76 (drop (off_size pos) inode_buf))) }"

text \<open>The results of \<open>sys_malloc\<close> are used without a test; through \<open>NULL\<close> nothing can be stored.\<close>

definition inode_open ::
    "(addr \<Rightarrow> 'a fsys_scheme \<Rightarrow> 'a fsys_scheme option) \<Rightarrow> addr \<Rightarrow> u32 \<Rightarrow> 'a fsys_scheme \<Rightarrow> (addr \<times> 'a fsys_scheme) option" where
  "inode_open others part inode_no s = do {
     found \<leftarrow> inode_find_loop (tail_of (open_inodes part)) (lnext (elems s (open_inodes part))) inode_no s;
     (case found of
        Some p \<Rightarrow> Some (p, upd_inode p (\<lambda>i. i\<lparr>i_open_cnts := i_open_cnts i + 1\<rparr>) s)
      | None \<Rightarrow> do {
          inode_pos \<leftarrow> inode_locate part inode_no s;
          (p, s) \<leftarrow> kernel_malloc others 76 s;
          (inode_buf, s) \<leftarrow> sys_malloc others (if two_sec inode_pos then 1024 else 512) s;
          ASSERT (p \<noteq> NULL \<and> inode_buf \<noteq> NULL);
          i \<leftarrow> inode_load part inode_pos s;
          let s = upd_inode p (\<lambda>_. i) s;
          let s = list_push (open_inodes part) (inode_tag p) s;
          let s = upd_inode p (\<lambda>i. i\<lparr>i_open_cnts := 1\<rparr>) s;
          s \<leftarrow> sys_free others inode_buf s;
          Some (p, s) }) }"

definition inode_close ::
    "(addr \<Rightarrow> 'a fsys_scheme \<Rightarrow> 'a fsys_scheme option) \<Rightarrow> addr \<Rightarrow> 'a fsys_scheme \<Rightarrow> 'a fsys_scheme option" where
  "inode_close others p s = do {
     let (old_status, s) = intr_disable s;
     let s = upd_inode p (\<lambda>i. i\<lparr>i_open_cnts := i_open_cnts i - 1\<rparr>) s;
     s \<leftarrow> (if i_open_cnts (inodes s p) = 0 then kernel_free others p (list_remove (inode_tag p) s) else Some s);
     Some (snd (intr_set_status old_status s)) }"

definition inode_delete :: "addr \<Rightarrow> u32 \<Rightarrow> nat \<Rightarrow> 'a fsys_scheme \<Rightarrow> 'a fsys_scheme option" where
  "inode_delete part inode_no buf_size s = do {
     ASSERT (inode_no < 4096);
     inode_pos \<leftarrow> inode_locate part inode_no s;
     ASSERT (sec_lba inode_pos \<le> start_lba (parts s part) + sec_cnt (parts s part));
     inode_splice part inode_pos (replicate 76 0) buf_size s }"

text \<open>Giving a block back: the bit of \<open>part\<close> is cleared, the bitmap of \<open>cur_part\<close> is written.\<close>

definition block_free :: "addr \<Rightarrow> u32 \<Rightarrow> 'a fsys_scheme \<Rightarrow> 'a fsys_scheme option" where
  "block_free part block s = do {
     let block_bitmap_idx = block - data_start_lba (sb (parts s part));
     ASSERT (0 < block_bitmap_idx);
     s \<leftarrow> block_bit_clear part block s;
     bitmap_sync (cur_part s) block_bitmap_idx BLOCK_BITMAP s }"

fun release_loop :: "addr \<Rightarrow> u32 list \<Rightarrow> 'a fsys_scheme \<Rightarrow> 'a fsys_scheme option" where
  "release_loop part [] s = Some s"
| "release_loop part (b # bs) s = do {
     s \<leftarrow> (if b \<noteq> 0 then block_free part b s else Some s);
     release_loop part bs s }"

text \<open>The block addresses of an inode: twelve direct ones and, when there is an index block, the 128 in it.\<close>

definition index_block :: "addr \<Rightarrow> inode \<Rightarrow> 'a fsys_scheme \<Rightarrow> u32 list option" where
  "index_block part i s = map_option (bytes_words 128) (disk_read (my_disk (parts s part)) (i_sectors i ! 12) 1 s)"

definition release_blocks :: "addr \<Rightarrow> inode \<Rightarrow> 'a fsys_scheme \<Rightarrow> 'a fsys_scheme option" where
  "release_blocks part i s = do {
     (all_blocks, s) \<leftarrow> (if i_sectors i ! 12 \<noteq> 0 then do {
          ws \<leftarrow> index_block part i s;
          s \<leftarrow> block_free part (i_sectors i ! 12) s;
          Some (take 12 (i_sectors i) @ ws, s) }
        else Some (take 12 (i_sectors i), s));
     release_loop part all_blocks s }"

definition inode_release ::
    "(addr \<Rightarrow> 'a fsys_scheme \<Rightarrow> 'a fsys_scheme option) \<Rightarrow> addr \<Rightarrow> u32 \<Rightarrow> 'a fsys_scheme \<Rightarrow> 'a fsys_scheme option" where
  "inode_release others part inode_no s = do {
     (inode_to_del, s) \<leftarrow> inode_open others part inode_no s;
     let i = inodes s inode_to_del;
     ASSERT (i_no i = inode_no);
     s \<leftarrow> release_blocks part i s;
     s \<leftarrow> inode_bit_clear part inode_no s;
     s \<leftarrow> bitmap_sync (cur_part s) inode_no INODE_BITMAP s;
     (io_buf, s) \<leftarrow> sys_malloc others 1024 s;
     ASSERT (io_buf \<noteq> NULL);
     s \<leftarrow> inode_delete part inode_no 1024 s;
     s \<leftarrow> sys_free others io_buf s;
     inode_close others inode_to_del s }"

definition inode_init :: "u32 \<Rightarrow> inode" where
  "inode_init inode_no = \<lparr>i_no = inode_no, i_size = 0, i_open_cnts = 0, write_deny = False, i_sectors = replicate 13 0\<rparr>"


section \<open>Allocation\<close>

definition bm_of :: "bitmap_type \<Rightarrow> addr \<Rightarrow> 'a fsys_scheme \<Rightarrow> bitmap" where
  "bm_of b part s = (case b of INODE_BITMAP \<Rightarrow> inode_bitmap (parts s part) | BLOCK_BITMAP \<Rightarrow> block_bitmap (parts s part))"

definition unit_used :: "bitmap_type \<Rightarrow> addr \<Rightarrow> 'a fsys_scheme \<Rightarrow> nat \<Rightarrow> bool" where
  "unit_used b part s i \<longleftrightarrow> used (bm_of b part s) (mem s) i"

text \<open>The unit with the index \<open>i\<close>: an inode number or the address of a block.\<close>

definition unit_name :: "bitmap_type \<Rightarrow> addr \<Rightarrow> 'a fsys_scheme \<Rightarrow> nat \<Rightarrow> u32" where
  "unit_name b part s i = (case b of INODE_BITMAP \<Rightarrow> of_nat i | BLOCK_BITMAP \<Rightarrow> data_start_lba (sb (parts s part)) + of_nat i)"

definition unit_alloc :: "bitmap_type \<Rightarrow> addr \<Rightarrow> 'a fsys_scheme \<Rightarrow> (u32 \<times> 'a fsys_scheme) option" where
  "unit_alloc b = (case b of INODE_BITMAP \<Rightarrow> inode_bitmap_alloc | BLOCK_BITMAP \<Rightarrow> block_bitmap_alloc)"

definition unit_clear :: "bitmap_type \<Rightarrow> addr \<Rightarrow> u32 \<Rightarrow> 'a fsys_scheme \<Rightarrow> 'a fsys_scheme option" where
  "unit_clear b = (case b of INODE_BITMAP \<Rightarrow> inode_bit_clear | BLOCK_BITMAP \<Rightarrow> block_bit_clear)"

lemma unit_alloc_eq:
  "unit_alloc b part s = do {
     i \<leftarrow> bitmap_scan (bm_of b part s) 1 (mem s);
     (if i = - 1 then Some (- 1, s)
      else do {
        m \<leftarrow> bitmap_set (bm_of b part s) i 1 (mem s);
        Some ((case b of INODE_BITMAP \<Rightarrow> 0 | BLOCK_BITMAP \<Rightarrow> data_start_lba (sb (parts s part))) + i, s\<lparr>mem := m\<rparr>) }) }"
  by (cases b) (simp_all add: unit_alloc_def inode_bitmap_alloc_def block_bitmap_alloc_def bm_of_def cong: if_cong)

lemma unit_alloc_ok:
  assumes "bm_ok (bm_of b part s)" "\<exists>i < bm_bits (bm_of b part s). \<not> unit_used b part s i"
  shows "\<exists>i m. unit_alloc b part s = Some (unit_name b part s i, s\<lparr>mem := m\<rparr>) \<and> i < bm_bits (bm_of b part s) \<and> \<not> unit_used b part s i \<and>
    (\<forall>j < bm_bits (bm_of b part s). unit_used b part (s\<lparr>mem := m\<rparr>) j \<longleftrightarrow> unit_used b part s j \<or> j = i) \<and>
    (\<forall>a. a \<noteq> bits (bm_of b part s) + of_nat (i div 8) \<longrightarrow> m a = mem s a)"
proof -
  let ?B = "bm_of b part s"
  obtain i where i: "bitmap_scan ?B 1 (mem s) = Some (of_nat i)" "i < bm_bits ?B" "\<not> used ?B (mem s) i" "(of_nat i :: u32) \<noteq> - 1"
    using scan_one [OF assms(1), of "mem s"] assms(2) by (auto simp: unit_used_def)
  obtain m where m: "bitmap_set ?B (of_nat i) 1 (mem s) = Some m" using bitmap_set_total by blast
  have lt: "i < 2 ^ 32" "\<And>j. j < bm_bits ?B \<Longrightarrow> j < 2 ^ 32" using bm_bits_bound [OF assms(1)] i(2) by simp_all
  have same: "bm_of b part (s\<lparr>mem := m\<rparr>) = ?B" by (cases b) (simp_all add: bm_of_def)
  have "unit_alloc b part s = Some (unit_name b part s i, s\<lparr>mem := m\<rparr>)"
    using i(1,4) m by (cases b) (simp_all add: unit_alloc_eq unit_name_def)
  then show ?thesis
    using i m lt bitmap_set_used [OF m lt(1)] bitmap_set_frame [OF m lt(1)] same
    by (intro exI [of _ i] exI [of _ m]) (auto simp: unit_used_def)
qed

lemma unit_clear_ok:
  assumes "bm_ok (bm_of b part s)" "i < bm_bits (bm_of b part s)"
  shows "\<exists>m. unit_clear b part (unit_name b part s i) s = Some (s\<lparr>mem := m\<rparr>) \<and>
    (\<forall>j < bm_bits (bm_of b part s). unit_used b part (s\<lparr>mem := m\<rparr>) j \<longleftrightarrow> unit_used b part s j \<and> j \<noteq> i)"
proof -
  let ?B = "bm_of b part s"
  obtain m where m: "bitmap_set ?B (of_nat i) 0 (mem s) = Some m" using bitmap_set_total by blast
  have lt: "i < 2 ^ 32" "\<And>j. j < bm_bits ?B \<Longrightarrow> j < 2 ^ 32" using bm_bits_bound [OF assms(1)] assms(2) by simp_all
  have same: "bm_of b part (s\<lparr>mem := m\<rparr>) = ?B" by (cases b) (simp_all add: bm_of_def)
  have "unit_clear b part (unit_name b part s i) s = Some (s\<lparr>mem := m\<rparr>)"
    using m by (cases b) (simp_all add: unit_clear_def unit_name_def inode_bit_clear_def block_bit_clear_def bm_of_def)
  then show ?thesis using m lt bitmap_set_used [OF m lt(1)] same by (intro exI [of _ m]) (auto simp: unit_used_def)
qed

lemma unit_mem [simp]: "bm_of b part (s\<lparr>mem := m\<rparr>) = bm_of b part s" "unit_name b part (s\<lparr>mem := m\<rparr>) = unit_name b part s"
  by (cases b; simp add: bm_of_def unit_name_def fun_eq_iff)+

lemma unit_name_inj: "bm_ok (bm_of b part s) \<Longrightarrow> inj_on (unit_name b part s) {..<bm_bits (bm_of b part s)}"
  using bm_bits_bound [of "bm_of b part s"]
  by (cases b; auto simp: inj_on_def unit_name_def of_nat_inj_lt)

interpretation ua: bit_allocator "\<lambda>s. bm_bits (bm_of b part s)" "unit_used b part" "\<lambda>s. bm_ok (bm_of b part s)" "unit_name b part" "unit_alloc b part"
  "unit_clear b part"
proof
  fix s :: "'a fsys_scheme"
  assume ok: "bm_ok (bm_of b part s)"
  show "inj_on (unit_name b part s) {..<bm_bits (bm_of b part s)}" using unit_name_inj [OF ok] .
  show "\<exists>i s'. unit_alloc b part s = Some (unit_name b part s i, s') \<and> i < bm_bits (bm_of b part s) \<and> \<not> unit_used b part s i \<and>
      (\<forall>j < bm_bits (bm_of b part s). unit_used b part s' j \<longleftrightarrow> unit_used b part s j \<or> j = i) \<and>
      bm_ok (bm_of b part s') \<and> bm_bits (bm_of b part s') = bm_bits (bm_of b part s) \<and> unit_name b part s' = unit_name b part s"
    if "\<exists>i < bm_bits (bm_of b part s). \<not> unit_used b part s i"
    using unit_alloc_ok [OF ok that] ok by fastforce
  show "\<exists>s'. unit_clear b part (unit_name b part s i) s = Some s' \<and>
      (\<forall>j < bm_bits (bm_of b part s). unit_used b part s' j \<longleftrightarrow> unit_used b part s j \<and> j \<noteq> i) \<and>
      bm_ok (bm_of b part s') \<and> bm_bits (bm_of b part s') = bm_bits (bm_of b part s) \<and> unit_name b part s' = unit_name b part s"
    if "i < bm_bits (bm_of b part s)" for i
    using unit_clear_ok [OF ok that] ok by fastforce
next
  fix s :: "'a fsys_scheme"
  show "unit_alloc b part s = None" if "\<forall>i < bm_bits (bm_of b part s). unit_used b part s i"
    using scan_none [of "bm_of b part s" "mem s" 1] that by (simp add: unit_alloc_eq unit_used_def)
qed


section \<open>Sectors as a sequence of bytes\<close>

definition sectors_ok :: "addr \<Rightarrow> 'a fsys_scheme \<Rightarrow> bool" where
  "sectors_ok dk s \<longleftrightarrow> (\<forall>l. length (disks s dk l) = 512)"

text \<open>The byte \<open>k\<close> of the area that starts at a sector.\<close>

definition area_byte :: "addr \<Rightarrow> u32 \<Rightarrow> 'a fsys_scheme \<Rightarrow> nat \<Rightarrow> u8" where
  "area_byte dk lba s k = disks s dk (lba + of_nat (k div 512)) ! (k mod 512)"

lemma concat_sectors:
  assumes "\<And>i. i < n \<Longrightarrow> length (f i) = 512"
  shows "length (concat (map f [0..<n])) = 512 * n" "k < 512 * n \<Longrightarrow> concat (map f [0..<n]) ! k = f (k div 512) ! (k mod 512)"
proof -
  have l: "(\<And>i. i < n \<Longrightarrow> length (f i) = 512) \<Longrightarrow> length (concat (map f [0..<n])) = 512 * n" for n
    by (induction n) simp_all
  show "length (concat (map f [0..<n])) = 512 * n" using l [OF assms] .
  show "concat (map f [0..<n]) ! k = f (k div 512) ! (k mod 512)" if "k < 512 * n"
    using assms that
  proof (induction n)
    case (Suc n)
    show ?case
    proof (cases "k < 512 * n")
      case True
      then show ?thesis using Suc l [of n] by (simp add: nth_append)
    next
      case False
      then have q: "k div 512 = n" using Suc.prems(2) by (intro div_nat_eqI) simp_all
      then have "k mod 512 = k - 512 * n" using minus_mult_div_eq_mod [of k 512] by simp
      note this q
      then show ?thesis using False l [of n] Suc.prems(1) by (simp add: nth_append)
    qed
  qed simp
qed

lemma disk_read_bytes:
  assumes "sectors_ok dk s" "lba_ok lba n"
  obtains buf where "disk_read dk lba n s = Some buf" "length buf = 512 * unat n" "\<And>k. k < 512 * unat n \<Longrightarrow> buf ! k = area_byte dk lba s k"
proof -
  let ?f = "\<lambda>i. disks s dk (lba + of_nat i)"
  have "\<And>i. i < unat n \<Longrightarrow> length (?f i) = 512" using assms(1) by (simp add: sectors_ok_def)
  note c = concat_sectors [of "unat n" ?f, OF this]
  show ?thesis using that [of "concat (map ?f [0..<unat n])"] c assms(2) by (simp add: disk_read_def area_byte_def)
qed

text \<open>Writing sectors that start \<open>d\<close> sectors behind the start of an area.\<close>

lemma disk_write_bytes:
  assumes "sectors_ok dk s" "lba_ok (lba + of_nat d) n" "length buf = 512 * unat n" "d + unat n < 2 ^ 32"
  obtains D where "disk_write dk (lba + of_nat d) buf n s = Some (s\<lparr>disks := D\<rparr>)" "sectors_ok dk (s\<lparr>disks := D\<rparr>)"
    "\<forall>k. k div 512 < 2 ^ 32 \<longrightarrow> area_byte dk lba (s\<lparr>disks := D\<rparr>) k =
      (if 512 * d \<le> k \<and> k < 512 * (d + unat n) then buf ! (k - 512 * d) else area_byte dk lba s k)"
    "\<forall>dk'. dk' \<noteq> dk \<longrightarrow> D dk' = disks s dk'"
proof -
  let ?l = "lba + of_nat d"
  let ?D = "(disks s)(dk := (\<lambda>l. if l - ?l < n then take 512 (drop (512 * unat (l - ?l)) buf) else disks s dk l))"
  have w: "disk_write dk ?l buf n s = Some (s\<lparr>disks := ?D\<rparr>)" using assms(2,3) by (simp add: disk_write_def)
  have in_range: "512 * unat (l - ?l) + 512 \<le> length buf" if "l - ?l < n" for l
  proof -
    have "Suc (unat (l - ?l)) \<le> unat n" using that by (simp add: word_less_nat_alt)
    then have "512 * Suc (unat (l - ?l)) \<le> 512 * unat n" by (rule mult_le_mono2)
    then show ?thesis using assms(3) by simp
  qed
  have ok: "sectors_ok dk (s\<lparr>disks := ?D\<rparr>)" unfolding sectors_ok_def
  proof
    fix l show "length (disks (s\<lparr>disks := ?D\<rparr>) dk l) = 512"
      using in_range [of l] assms(1) by (auto simp: sectors_ok_def)
  qed
  have byte: "area_byte dk lba (s\<lparr>disks := ?D\<rparr>) k = (if 512 * d \<le> k \<and> k < 512 * (d + unat n) then buf ! (k - 512 * d) else area_byte dk lba s k)"
    if k: "k div 512 < 2 ^ 32" for k
  proof -
    let ?q = "k div 512"
    have diff: "lba + of_nat ?q - ?l < n \<longleftrightarrow> d \<le> ?q \<and> ?q < d + unat n" "d \<le> ?q \<Longrightarrow> unat (lba + of_nat ?q - ?l) = ?q - d"
    proof -
      have e: "lba + of_nat ?q - ?l = (of_nat ?q - of_nat d :: u32)" by simp
      have u: "unat (of_nat ?q :: u32) = ?q" "unat (of_nat d :: u32) = d" using k assms(4) by (simp_all add: unat_of_nat_lt)
      show two: "unat (lba + of_nat ?q - ?l) = ?q - d" if "d \<le> ?q"
        unfolding e using that u by (subst unat_diff_le) (simp_all add: word_le_nat_alt)
      have "\<not> lba + of_nat ?q - ?l < n" if "?q < d"
      proof -
        have "unat (of_nat ?q - of_nat d :: u32) = ?q + 2 ^ 32 - d" using u that by (simp add: unat_sub_if')
        moreover have "unat n \<le> ?q + 2 ^ 32 - d" using assms(4) by simp
        ultimately show ?thesis unfolding e by (simp add: word_less_nat_alt)
      qed
      then show "lba + of_nat ?q - ?l < n \<longleftrightarrow> d \<le> ?q \<and> ?q < d + unat n"
        using two by (cases "?q < d") (simp_all add: word_less_nat_alt, auto)
    qed
    have range: "512 * d \<le> k \<and> k < 512 * (d + unat n) \<longleftrightarrow> d \<le> ?q \<and> ?q < d + unat n"
      by (simp add: less_eq_div_iff_mult_less_eq div_less_iff_less_mult mult.commute)
    show ?thesis
    proof (cases "d \<le> ?q \<and> ?q < d + unat n")
      case True
      then have p: "disks (s\<lparr>disks := ?D\<rparr>) dk (lba + of_nat ?q) = take 512 (drop (512 * (?q - d)) buf)" using diff by simp
      have "k = 512 * ?q + k mod 512" by simp
      then have "k - 512 * d = 512 * (?q - d) + k mod 512" using True by (simp add: diff_mult_distrib2)
      moreover have "512 * (?q - d) + 512 \<le> length buf" using in_range [of "lba + of_nat ?q"] diff True by simp
      ultimately show ?thesis using range True p by (simp add: area_byte_def)
    next
      case False
      then show ?thesis using diff(1) range by (auto simp: area_byte_def)
    qed
  qed
  show ?thesis using that [OF w ok] byte by simp
qed


section \<open>The inode table\<close>

text \<open>The 608 sectors of the table exist and lie in the partition.\<close>

definition table_ok :: "addr \<Rightarrow> 'a fsys_scheme \<Rightarrow> bool" where
  "table_ok part s \<longleftrightarrow> sectors_ok (my_disk (parts s part)) s \<and> unat (inode_table_lba (sb (parts s part))) + 607 \<le> unat max_lba \<and>
     unat (inode_table_lba (sb (parts s part))) + 607 \<le> unat (start_lba (parts s part) + sec_cnt (parts s part))"

abbreviation table_byte :: "addr \<Rightarrow> 'a fsys_scheme \<Rightarrow> nat \<Rightarrow> u8" where
  "table_byte part s \<equiv> area_byte (my_disk (parts s part)) (inode_table_lba (sb (parts s part))) s"

definition position_of :: "addr \<Rightarrow> nat \<Rightarrow> 'a fsys_scheme \<Rightarrow> inode_position" where
  "position_of part n s = \<lparr>two_sec = 512 < 76 * n mod 512 + 76, sec_lba = inode_table_lba (sb (parts s part)) + of_nat (76 * n div 512), off_size = 76 * n mod 512\<rparr>"

lemma inode_locate_eq:
  assumes "unat no < 4096"
  shows "inode_locate part no s = Some (position_of part (unat no) s)"
proof -
  have u: "unat (no * 76) = 76 * unat no" using assms by (simp add: unat_word_ariths)
  have m: "unat (no * 76 mod 512) = 76 * unat no mod 512" using u by (simp add: unat_mod)
  have d: "no * 76 div 512 = of_nat (76 * unat no div 512)" using u unat_of_nat_self [of "no * 76 div 512"] by (simp add: unat_div)
  have lt: "76 * unat no mod 512 < 512" by simp
  have "unat (512 - no * 76 mod 512) = 512 - 76 * unat no mod 512" using m lt by (subst unat_diff_le) (simp_all add: word_le_nat_alt)
  then have "512 - no * 76 mod 512 < 76 \<longleftrightarrow> 512 < 76 * unat no mod 512 + 76" using lt by (simp add: word_less_nat_alt) linarith
  then show ?thesis using assms m d by (simp add: inode_locate_def Let_def position_of_def word_less_nat_alt)
qed

lemma area_shift: "area_byte dk (lba + of_nat d) s k = area_byte dk lba s (512 * d + k)"
  by (simp add: area_byte_def add.assoc)

text \<open>The sectors of an inode can be read and written.\<close>

lemma position_ok:
  assumes "table_ok part s" "n < 4096"
  defines "pos \<equiv> position_of part n s" and "c \<equiv> (if 512 < 76 * n mod 512 + 76 then 2 else 1 :: u32)"
  shows "lba_ok (sec_lba pos) c" "sec_lba pos \<le> start_lba (parts s part) + sec_cnt (parts s part)" "off_size pos + 76 \<le> 512 * unat c"
    "512 * (76 * n div 512) + off_size pos = 76 * n" "76 * n div 512 + unat c < 2 ^ 32"
proof -
  let ?t = "inode_table_lba (sb (parts s part))"
  have "76 * n < 608 * 512" using assms(2) by simp
  then have "76 * n div 512 < 608" by (rule less_mult_imp_div_less)
  then have d: "76 * n div 512 \<le> 607" by simp
  have u: "unat (sec_lba pos) = unat ?t + 76 * n div 512"
    using d assms(1) unat_lt_32(1) [of max_lba] unfolding pos_def position_of_def table_ok_def
    by (simp add: unat_add_lt unat_of_nat_lt del: unat_lt_32)
  have c: "unat c = 1 \<or> unat c = 2" by (simp add: c_def)
  then have "(unat c + 255) div 256 = 1" by auto
  then show "lba_ok (sec_lba pos) c" using u d assms(1) by (simp add: lba_ok_def table_ok_def word_le_nat_alt c_def)
  show "sec_lba pos \<le> start_lba (parts s part) + sec_cnt (parts s part)" using u d assms(1) by (simp add: table_ok_def word_le_nat_alt)
  show "off_size pos + 76 \<le> 512 * unat c" by (auto simp: pos_def position_of_def c_def)
  show "512 * (76 * n div 512) + off_size pos = 76 * n" unfolding pos_def position_of_def inode_position.select_convs by (rule mult_div_mod_eq)
  show "76 * n div 512 + unat c < 2 ^ 32" using d c by auto
qed

lemma inode_load_area:
  assumes "table_ok part s" "n < 4096"
  shows "inode_load part (position_of part n s) s = Some (bytes_inode (map (table_byte part s) [76 * n..<76 * n + 76]))"
proof -
  let ?pos = "position_of part n s" and ?c = "if 512 < 76 * n mod 512 + 76 then 2 else 1 :: u32" and ?dk = "my_disk (parts s part)"
  note p = position_ok [OF assms]
  have ok: "sectors_ok ?dk s" using assms(1) by (simp add: table_ok_def)
  obtain buf where b: "disk_read ?dk (sec_lba ?pos) ?c s = Some buf" "length buf = 512 * unat ?c"
    "\<And>k. k < 512 * unat ?c \<Longrightarrow> buf ! k = area_byte ?dk (sec_lba ?pos) s k" using disk_read_bytes [OF ok p(1)] by metis
  have lba: "sec_lba ?pos = inode_table_lba (sb (parts s part)) + of_nat (76 * n div 512)" by (simp add: position_of_def)
  have "take 76 (drop (off_size ?pos) buf) = map (table_byte part s) [76 * n..<76 * n + 76]"
  proof (rule nth_equalityI)
    show "length (take 76 (drop (off_size ?pos) buf)) = length (map (table_byte part s) [76 * n..<76 * n + 76])" using b(2) p(3) by simp
    fix k assume "k < length (take 76 (drop (off_size ?pos) buf))"
    then have k: "k < 76" by simp
    then have "buf ! (off_size ?pos + k) = table_byte part s (512 * (76 * n div 512) + (off_size ?pos + k))"
      using b(3) [of "off_size ?pos + k"] p(3) unfolding lba area_shift by simp
    then show "take 76 (drop (off_size ?pos) buf) ! k = map (table_byte part s) [76 * n..<76 * n + 76] ! k"
      using k b(2) p(3,4) by (simp add: add.assoc [symmetric])
  qed
  moreover have "two_sec ?pos \<longleftrightarrow> 512 < 76 * n mod 512 + 76" by (simp add: position_of_def)
  ultimately show ?thesis using b(1) by (simp add: inode_load_def)
qed


lemma inode_splice_area:
  assumes ok: "table_ok part s" and n: "n < 4096" and xs: "length xs = 76" and bs: "1024 \<le> buf_size"
  obtains D where "inode_splice part (position_of part n s) xs buf_size s = Some (s\<lparr>disks := D\<rparr>)" "table_ok part (s\<lparr>disks := D\<rparr>)"
    "\<And>k. k < 608 * 512 \<Longrightarrow> table_byte part (s\<lparr>disks := D\<rparr>) k = (if 76 * n \<le> k \<and> k < 76 * n + 76 then xs ! (k - 76 * n) else table_byte part s k)"
proof -
  let ?pos = "position_of part n s" and ?c = "if 512 < 76 * n mod 512 + 76 then 2 else 1 :: u32" and ?dk = "my_disk (parts s part)"
  let ?t = "inode_table_lba (sb (parts s part))" and ?d = "76 * n div 512"
  note p = position_ok [OF ok n]
  have sec: "sectors_ok ?dk s" using ok by (simp add: table_ok_def)
  have lba: "sec_lba ?pos = ?t + of_nat ?d" "two_sec ?pos \<longleftrightarrow> 512 < 76 * n mod 512 + 76" by (simp_all add: position_of_def)
  obtain b where b: "disk_read ?dk (sec_lba ?pos) ?c s = Some b" "length b = 512 * unat ?c"
    "\<And>k. k < 512 * unat ?c \<Longrightarrow> b ! k = area_byte ?dk (sec_lba ?pos) s k" using disk_read_bytes [OF sec p(1)] by metis
  let ?w = "take (off_size ?pos) b @ xs @ drop (off_size ?pos + 76) b"
  have put: "put_at (off_size ?pos) xs b = Some ?w" "length ?w = 512 * unat ?c" using p(3) b(2) xs by (simp_all add: put_at_def)
  have w: "?w ! k = (if off_size ?pos \<le> k \<and> k < off_size ?pos + 76 then xs ! (k - off_size ?pos) else b ! k)" if "k < 512 * unat ?c" for k
    using that p(3) b(2) xs by (auto simp: nth_append)
  obtain D where D: "disk_write ?dk (?t + of_nat ?d) ?w ?c s = Some (s\<lparr>disks := D\<rparr>)" "sectors_ok ?dk (s\<lparr>disks := D\<rparr>)"
    "\<forall>k. k div 512 < 2 ^ 32 \<longrightarrow> area_byte ?dk ?t (s\<lparr>disks := D\<rparr>) k =
      (if 512 * ?d \<le> k \<and> k < 512 * (?d + unat ?c) then ?w ! (k - 512 * ?d) else area_byte ?dk ?t s k)"
    "\<forall>dk'. dk' \<noteq> ?dk \<longrightarrow> D dk' = disks s dk'"
    by (rule disk_write_bytes [OF sec p(1) [unfolded lba(1)] put(2) p(5)])
  have "512 * unat ?c \<le> buf_size" using bs by simp
  then have "inode_splice part ?pos xs buf_size s = Some (s\<lparr>disks := D\<rparr>)"
    using b(1) put(1) D(1) lba by (simp add: inode_splice_def)
  moreover have "table_ok part (s\<lparr>disks := D\<rparr>)" using ok D(2) by (simp add: table_ok_def)
  moreover have "table_byte part (s\<lparr>disks := D\<rparr>) k = (if 76 * n \<le> k \<and> k < 76 * n + 76 then xs ! (k - 76 * n) else table_byte part s k)" if k: "k < 608 * 512" for k
  proof -
    have q: "k div 512 < 2 ^ 32" using less_mult_imp_div_less [OF k] by simp
    show ?thesis
    proof (cases "512 * ?d \<le> k \<and> k < 512 * (?d + unat ?c)")
      case True
      define j where "j = k - 512 * ?d"
      have j: "k = 512 * ?d + j" "j < 512 * unat ?c" using True by (auto simp: j_def distrib_left)
      have iff: "76 * n \<le> k \<and> k < 76 * n + 76 \<longleftrightarrow> off_size ?pos \<le> j \<and> j < off_size ?pos + 76" "k - 76 * n = j - off_size ?pos"
        using p(4) unfolding j(1) by linarith+
      have "b ! j = table_byte part s k" using b(3) [OF j(2)] unfolding lba(1) area_shift j(1) .
      moreover have "area_byte ?dk ?t (s\<lparr>disks := D\<rparr>) k = ?w ! j" using D(3) q True unfolding j_def by (simp only: simp_thms if_True)
      ultimately show ?thesis unfolding w [OF j(2)] iff by simp
    next
      case False
      then have "\<not> (76 * n \<le> k \<and> k < 76 * n + 76)" using p(3,4) by (simp add: distrib_left) linarith
      moreover have "area_byte ?dk ?t (s\<lparr>disks := D\<rparr>) k = table_byte part s k" using D(3) q False by (simp only: simp_thms if_False)
      ultimately show ?thesis by auto
    qed
  qed
  ultimately show ?thesis using that by blast
qed

section \<open>Claims\<close>

text \<open>
  C15. Inodes on disk. \<open>inode_sync\<close> with a buffer of two sectors returns; afterwards the slot of the table with the number \<open>i_no mod 256\<close> holds the inode
  with its memory-only fields cleared, every other slot is as before, also where slots share a sector, and nothing but the disk has changed. For numbers below 256
  the slot is the one from which \<open>inode_open\<close> loads the inode; the inode 256 overwrites the root directory.
\<close>

theorem inode_sync_slot:
  assumes "table_ok part s" "length (i_sectors i) = 13" "1024 \<le> buf_size"
  shows "\<exists>D. inode_sync part i buf_size s = Some (s\<lparr>disks := D\<rparr>) \<and>
    (\<forall>n < 4096. \<exists>pos. inode_locate part (of_nat n) (s\<lparr>disks := D\<rparr>) = Some pos \<and>
      inode_load part pos (s\<lparr>disks := D\<rparr>) = (if n = unat (i_no i) mod 256 then Some (i\<lparr>i_open_cnts := 0, write_deny := False\<rparr>) else inode_load part pos s))"
proof -
  let ?i = "i\<lparr>i_open_cnts := 0, write_deny := False\<rparr>" and ?k = "unat (i_no i) mod 256"
  have k: "unat (ucast (ucast (i_no i) :: u8) :: u32) = ?k" "?k < 4096"
    using mod_less_divisor [of 256 "unat (i_no i)"] by (simp_all add: unsigned_ucast_eq take_bit_eq_mod unat_mod)
  have len: "length (inode_bytes ?i) = 76" using assms(2) by (simp add: inode_bytes_length)
  obtain D where D: "inode_splice part (position_of part ?k s) (inode_bytes ?i) buf_size s = Some (s\<lparr>disks := D\<rparr>)" "table_ok part (s\<lparr>disks := D\<rparr>)"
    "\<And>j. j < 608 * 512 \<Longrightarrow> table_byte part (s\<lparr>disks := D\<rparr>) j = (if 76 * ?k \<le> j \<and> j < 76 * ?k + 76 then inode_bytes ?i ! (j - 76 * ?k) else table_byte part s j)"
    using inode_splice_area [OF assms(1) k(2) len assms(3)] by metis
  have "inode_sync part i buf_size s = Some (s\<lparr>disks := D\<rparr>)"
    using D(1) inode_locate_eq [of "ucast (ucast (i_no i) :: u8)" part s] k position_ok(2) [OF assms(1) k(2)] by (simp add: inode_sync_def Let_def)
  moreover have "\<exists>pos. inode_locate part (of_nat n) (s\<lparr>disks := D\<rparr>) = Some pos \<and>
      inode_load part pos (s\<lparr>disks := D\<rparr>) = (if n = ?k then Some ?i else inode_load part pos s)" if n: "n < 4096" for n
  proof -
    have u: "unat (of_nat n :: u32) = n" using n by (simp add: unat_of_nat_lt)
    have pos: "position_of part n (s\<lparr>disks := D\<rparr>) = position_of part n s" by (simp add: position_of_def)
    have "map (table_byte part (s\<lparr>disks := D\<rparr>)) [76 * n..<76 * n + 76] = (if n = ?k then inode_bytes ?i else map (table_byte part s) [76 * n..<76 * n + 76])"
    proof (rule nth_equalityI)
      fix j assume "j < length (map (table_byte part (s\<lparr>disks := D\<rparr>)) [76 * n..<76 * n + 76])"
      then have j: "j < 76" "76 * n + j < 608 * 512" using n by auto
      have "76 * ?k \<le> 76 * n + j \<and> 76 * n + j < 76 * ?k + 76 \<longleftrightarrow> n = ?k" using j(1) by auto
      then show "map (table_byte part (s\<lparr>disks := D\<rparr>)) [76 * n..<76 * n + 76] ! j =
          (if n = ?k then inode_bytes ?i else map (table_byte part s) [76 * n..<76 * n + 76]) ! j"
        using D(3) [OF j(2)] j(1) by auto
    qed (use len in simp)
    then have "inode_load part (position_of part n s) (s\<lparr>disks := D\<rparr>) = (if n = ?k then Some ?i else inode_load part (position_of part n s) s)"
      using inode_load_area [OF D(2) n] inode_load_area [OF assms(1) n] bytes_inode_inverse [of ?i "[]"] assms(2) unfolding pos by simp
    then show ?thesis using inode_locate_eq [of "of_nat n" part "s\<lparr>disks := D\<rparr>"] u n pos by (intro exI [of _ "position_of part n s"]) simp
  qed
  ultimately show ?thesis by blast
qed


text \<open>A partition of 16384 sectors from sector 2048 on, with empty bitmaps and an empty disk.\<close>

definition bare_sb :: super_block where
  "bare_sb = \<lparr>magic = 0x19590318, sb_sec_cnt = 16384, inode_cnt = 4096, part_lba_base = 2048, block_bitmap_lba = 2050, block_bitmap_sects = 4,
     inode_bitmap_lba = 2054, inode_bitmap_sects = 1, inode_table_lba = 2055, inode_table_sects = 608, data_start_lba = 2663, root_inode_no = 0, dir_entry_size = 24\<rparr>"

definition bare_part :: partition where
  "bare_part = \<lparr>start_lba = 2048, sec_cnt = 16384, my_disk = 0xc0009000, sb = bare_sb, block_bitmap = \<lparr>btmp_bytes_len = 2048, bits = 0xc0300000\<rparr>,
     inode_bitmap = \<lparr>btmp_bytes_len = 512, bits = 0xc0301000\<rparr>\<rparr>"

definition bare_fs :: fsys where
  "bare_fs = consys.extend (bare_console\<lparr>mem := (\<lambda>_. 0)\<rparr>) (fsys.fields (\<lambda>_. inode_init 0) (\<lambda>_. \<lparr>dir_inode = 0, dir_pos = 0, dir_buf = replicate 512 0\<rparr>)
     (\<lambda>_. bare_part) 0xc0200000 0xc0008000 (replicate 32 \<lparr>fd_pos = 0, fd_flag = 0, fd_inode = 0\<rparr>) (\<lambda>_ _. replicate 512 0))"

lemma bare_fs_sel [simp]:
  "inodes bare_fs = (\<lambda>_. inode_init 0)" "parts bare_fs = (\<lambda>_. bare_part)" "cur_part bare_fs = 0xc0200000" "disks bare_fs = (\<lambda>_ _. replicate 512 0)"
  "file_table bare_fs = replicate 32 \<lparr>fd_pos = 0, fd_flag = 0, fd_inode = 0\<rparr>" "mem bare_fs = (\<lambda>_. 0)" "root_dir bare_fs = 0xc0008000"
  by (simp_all add: bare_fs_def fsys.defs consys.defs)

lemma bare_fs_table: "table_ok part bare_fs"
  by (simp add: table_ok_def sectors_ok_def bare_part_def bare_sb_def max_lba_def)

theorem inode_sync_slot_witness:
  "\<exists>s' pos. inode_sync 0xc0200000 (inode_init 7\<lparr>i_size := 300, i_open_cnts := 2\<rparr>) 1024 bare_fs = Some s' \<and> inode_locate 0xc0200000 7 s' = Some pos \<and>
    inode_load 0xc0200000 pos s' = Some (inode_init 7\<lparr>i_size := 300\<rparr>)"
proof -
  have "length (i_sectors (inode_init 7\<lparr>i_size := 300, i_open_cnts := 2\<rparr>)) = 13" by (simp add: inode_init_def)
  from inode_sync_slot [OF bare_fs_table [of "0xc0200000"] this, of 1024] obtain D where
    D: "inode_sync 0xc0200000 (inode_init 7\<lparr>i_size := 300, i_open_cnts := 2\<rparr>) 1024 bare_fs = Some (bare_fs\<lparr>disks := D\<rparr>)"
    "\<forall>n < 4096. \<exists>pos. inode_locate 0xc0200000 (of_nat n) (bare_fs\<lparr>disks := D\<rparr>) = Some pos \<and> inode_load 0xc0200000 pos (bare_fs\<lparr>disks := D\<rparr>) =
      (if n = unat (i_no (inode_init 7\<lparr>i_size := 300, i_open_cnts := 2\<rparr>)) mod 256
       then Some (inode_init 7\<lparr>i_size := 300, i_open_cnts := 2\<rparr>\<lparr>i_open_cnts := 0, write_deny := False\<rparr>) else inode_load 0xc0200000 pos bare_fs)" by auto
  from D(2) [rule_format, of 7] show ?thesis using D(1) by (auto simp: inode_init_def)
qed

text \<open>
  C16. Allocation on a partition. As long as a bitmap of the partition has \<open>n\<close> free bits, \<open>n\<close> calls of \<open>inode_bitmap_alloc\<close> or of \<open>block_bitmap_alloc\<close> all return, with \<open>n\<close>
  different inode numbers or block addresses that were free before, and afterwards exactly these are in use in addition.
\<close>

theorem fs_units_distinct:
  assumes "bm_ok (bm_of b part s)" "n \<le> card (vacant (\<lambda>s. bm_bits (bm_of b part s)) (unit_used b part) s)"
  shows "\<exists>us s'. alloc_many (case b of INODE_BITMAP \<Rightarrow> inode_bitmap_alloc part | BLOCK_BITMAP \<Rightarrow> block_bitmap_alloc part) n s = Some (us, s') \<and>
    length us = n \<and> distinct us \<and> (\<forall>u \<in> set us. \<exists>i < bm_bits (bm_of b part s). u = unit_name b part s i \<and> \<not> unit_used b part s i) \<and>
    (\<forall>j < bm_bits (bm_of b part s). unit_used b part s' j \<longleftrightarrow> unit_used b part s j \<or> unit_name b part s j \<in> set us)"
proof -
  have e: "unit_alloc b part = (case b of INODE_BITMAP \<Rightarrow> inode_bitmap_alloc part | BLOCK_BITMAP \<Rightarrow> block_bitmap_alloc part)"
    by (cases b) (simp_all add: unit_alloc_def)
  let ?v = "vacant (\<lambda>s. bm_bits (bm_of b part s)) (unit_used b part)"
  obtain "is" s' where a: "alloc_many (unit_alloc b part) n s = Some (map (unit_name b part s) is, s')" "length is = n"
    "distinct (map (unit_name b part s) is)" "set is \<subseteq> ?v s" "?v s' = ?v s - set is" "bm_bits (bm_of b part s') = bm_bits (bm_of b part s)"
    using ua.allocs_distinct [OF assms] by blast
  have "unit_used b part s' j \<longleftrightarrow> unit_used b part s j \<or> unit_name b part s j \<in> set (map (unit_name b part s) is)"
    if j: "j < bm_bits (bm_of b part s)" for j
  proof -
    have "unit_name b part s j \<in> unit_name b part s ` set is \<longleftrightarrow> j \<in> set is"
      using unit_name_inj [OF assms(1)] j a(4) by (auto simp: inj_on_def vacant_def subset_iff)
    moreover have "j \<in> ?v s' \<longleftrightarrow> j \<in> ?v s - set is" using a(5) by simp
    ultimately show ?thesis using j a(6) by (auto simp: vacant_def)
  qed
  moreover have "\<exists>i < bm_bits (bm_of b part s). u = unit_name b part s i \<and> \<not> unit_used b part s i" if "u \<in> set (map (unit_name b part s) is)" for u
    using that a(4) by (auto simp: vacant_def)
  ultimately show ?thesis using a(1-3) unfolding e by (intro exI [of _ "map (unit_name b part s) is"] exI [of _ s']) simp
qed

theorem fs_units_distinct_witness:
  "\<exists>us s'. alloc_many (block_bitmap_alloc 0xc0200000) 20 bare_fs = Some (us, s') \<and> distinct us \<and> length us = 20"
proof -
  have b: "bm_of BLOCK_BITMAP 0xc0200000 bare_fs = \<lparr>btmp_bytes_len = 2048, bits = 0xc0300000\<rparr>" by (simp add: bm_of_def bare_part_def)
  have "bm_ok (bm_of BLOCK_BITMAP 0xc0200000 bare_fs)" unfolding b by (simp add: bm_ok_def)
  moreover have "vacant (\<lambda>s. bm_bits (bm_of BLOCK_BITMAP 0xc0200000 s)) (unit_used BLOCK_BITMAP 0xc0200000) bare_fs = {..<16384}"
    unfolding vacant_def b unit_used_def by (auto simp: used_def bm_bits_def)
  ultimately show ?thesis using fs_units_distinct [of BLOCK_BITMAP "0xc0200000" bare_fs 20] by auto
qed

end
