(* ===== verification/Blocks.thy ===== *)
theory Blocks
  imports Inode
begin

text \<open>
  The data blocks of a mounted partition. \<open>fs_layout\<close> states what formatting a partition establishes: the block bitmap and all data blocks
  lie on the disk, the sectors of the block bitmap are below the data blocks, and every sector has 512 bytes. The lemmas show that allocating a block and writing the
  bitmap back, which directories and files both do, gives an unused block and changes no data block.
\<close>

definition blocks_of :: "'a fsys_scheme \<Rightarrow> nat" where
  "blocks_of s = bm_bits (block_bitmap (parts s (cur_part s)))"

definition the_disk :: "'a fsys_scheme \<Rightarrow> addr" where
  "the_disk s = my_disk (parts s (cur_part s))"

definition fs_layout :: "'a fsys_scheme \<Rightarrow> bool" where
  "fs_layout s \<longleftrightarrow>
     (let P = parts s (cur_part s); b = sb P in
      bm_ok (block_bitmap P) \<and> dir_entry_size b = 24 \<and> sectors_ok (my_disk P) s \<and> 0 < data_start_lba b \<and>
      unat (data_start_lba b) + bm_bits (block_bitmap P) \<le> Suc (unat max_lba) \<and>
      unat (block_bitmap_lba b) + (bm_bits (block_bitmap P) + 4095) div 4096 \<le> unat (data_start_lba b))"

definition block_addr :: "'a fsys_scheme \<Rightarrow> nat \<Rightarrow> u32" where
  "block_addr s i = data_start_lba (sb (parts s (cur_part s))) + of_nat i"

definition block_used :: "'a fsys_scheme \<Rightarrow> nat \<Rightarrow> bool" where
  "block_used s i \<longleftrightarrow> used (block_bitmap (parts s (cur_part s))) (mem s) i"

text \<open>A block address that belongs to some file.\<close>

definition in_use :: "'a fsys_scheme \<Rightarrow> u32 \<Rightarrow> bool" where
  "in_use s b \<longleftrightarrow> (\<exists>i < blocks_of s. b = block_addr s i \<and> block_used s i)"

text \<open>The bytes of memory that hold the block bitmap.\<close>

definition bitmap_byte :: "'a fsys_scheme \<Rightarrow> addr \<Rightarrow> bool" where
  "bitmap_byte s a \<longleftrightarrow> (\<exists>i < blocks_of s. a = bits (block_bitmap (parts s (cur_part s))) + of_nat (i div 8))"

definition free_blocks :: "'a fsys_scheme \<Rightarrow> nat set" where
  "free_blocks s = {i. i < blocks_of s \<and> \<not> block_used s i}"

lemma finite_free_blocks [simp]: "finite (free_blocks s)"
  by (simp add: free_blocks_def)

lemma block_addr_unat:
  assumes "fs_layout s" "i < blocks_of s"
  shows "unat (block_addr s i) = unat (data_start_lba (sb (parts s (cur_part s)))) + i"
proof -
  let ?d = "data_start_lba (sb (parts s (cur_part s)))"
  have "unat ?d + i < 2 ^ 32" using assms by (simp add: fs_layout_def blocks_of_def Let_def max_lba_def)
  then have "unat (of_nat i :: u32) = i" "unat ?d + unat (of_nat i :: u32) < 2 ^ 32" by (simp_all add: unat_of_nat_lt)
  then show ?thesis by (simp add: block_addr_def unat_add_lem [THEN iffD1])
qed

lemma block_addr_ok:
  assumes "fs_layout s" "i < blocks_of s"
  shows "block_addr s i \<le> max_lba" "block_addr s i \<noteq> 0" "block_addr s i \<noteq> - 1" "data_start_lba (sb (parts s (cur_part s))) \<le> block_addr s i"
proof -
  have b: "unat (data_start_lba (sb (parts s (cur_part s)))) + i < Suc (unat max_lba)" "0 < unat (data_start_lba (sb (parts s (cur_part s))))"
    using assms by (auto simp: fs_layout_def blocks_of_def Let_def word_less_nat_alt)
  show le: "block_addr s i \<le> max_lba" using b(1) by (simp add: word_le_nat_alt block_addr_unat [OF assms])
  show "block_addr s i \<noteq> 0" using b(2) block_addr_unat [OF assms] by auto
  show "block_addr s i \<noteq> - 1" using le by (auto simp: max_lba_def word_le_nat_alt unsigned_minus_1_eq_mask mask_eq_exp_minus_1)
  show "data_start_lba (sb (parts s (cur_part s))) \<le> block_addr s i" by (simp add: word_le_nat_alt block_addr_unat [OF assms])
qed

lemma block_addr_inj: "fs_layout s \<Longrightarrow> i < blocks_of s \<Longrightarrow> j < blocks_of s \<Longrightarrow> block_addr s i = block_addr s j \<longleftrightarrow> i = j"
  by (metis add_left_cancel block_addr_unat)

lemma in_use_ok: "fs_layout s \<Longrightarrow> in_use s b \<Longrightarrow> b \<le> max_lba \<and> b \<noteq> 0 \<and> data_start_lba (sb (parts s (cur_part s))) \<le> b"
  by (auto simp: in_use_def block_addr_ok)

text \<open>Writing the sector of the bitmap that holds the bit of a block.\<close>

lemma block_sync_ok:
  assumes lay: "fs_layout s" and i: "i < blocks_of s"
  obtains D where "bitmap_sync (cur_part s) (block_addr s i - data_start_lba (sb (parts s (cur_part s)))) BLOCK_BITMAP (s\<lparr>mem := m\<rparr>) = Some (s\<lparr>mem := m, disks := D\<rparr>)"
    "\<forall>l. length (D (the_disk s) l) = 512" "\<forall>l \<ge> data_start_lba (sb (parts s (cur_part s))). D (the_disk s) l = disks s (the_disk s) l"
    "\<forall>dk. dk \<noteq> the_disk s \<longrightarrow> D dk = disks s dk"
proof -
  let ?P = "parts s (cur_part s)" and ?d = "data_start_lba (sb (parts s (cur_part s)))" and ?q = "of_nat (i div 4096) :: u32"
  have d: "block_addr s i - ?d = of_nat i" by (simp add: block_addr_def)
  have i32: "i < 2 ^ 32" using i bm_bits_bound [of "block_bitmap ?P"] lay by (simp add: fs_layout_def Let_def blocks_of_def)
  have q: "(of_nat i :: u32) div 4096 = ?q" using i32 by (simp add: unat_of_nat_lt word_arith_nat_div)
  have lt: "i div 4096 < (blocks_of s + 4095) div 4096" using i by (simp add: less_eq_div_iff_mult_less_eq div_less_iff_less_mult)
  have "unat (block_bitmap_lba (sb ?P)) + i div 4096 < unat ?d" using lay lt by (simp add: fs_layout_def Let_def blocks_of_def)
  moreover have "unat ?q = i div 4096" by (rule unat_of_nat_lt) (use i32 div_le_dividend [of i 4096] in simp)
  ultimately have q_lt: "unat (block_bitmap_lba (sb ?P)) + unat ?q < unat ?d" by simp
  have "unat (block_bitmap_lba (sb ?P)) + unat ?q < 2 ^ 32" by (rule order.strict_trans [OF q_lt]) (use unsigned_less [of ?d, where 'a = nat] in simp)
  then have u: "unat (block_bitmap_lba (sb ?P) + ?q) < unat ?d" using q_lt by (simp add: unat_add_lem [THEN iffD1])
  then have below: "block_bitmap_lba (sb ?P) + ?q < ?d" "?d \<le> max_lba"
    using lay i by (simp_all add: word_less_nat_alt word_le_nat_alt fs_layout_def Let_def blocks_of_def)
  have len: "length (mem_bytes m p 512) = 512" for p by (simp add: mem_bytes_def)
  define D where "D = (disks s)(the_disk s := (disks s (the_disk s))(block_bitmap_lba (sb ?P) + ?q := mem_bytes m (bits (block_bitmap ?P) + ?q * 512) 512))"
  show ?thesis
  proof (rule that [of D])
    show "bitmap_sync (cur_part s) (block_addr s i - ?d) BLOCK_BITMAP (s\<lparr>mem := m\<rparr>) = Some (s\<lparr>mem := m, disks := D\<rparr>)"
      unfolding bitmap_sync_def d q Let_def using below by (simp add: sector_write len D_def the_disk_def)
    show "\<forall>l. length (D (the_disk s) l) = 512" using lay len by (simp add: D_def fs_layout_def sectors_ok_def Let_def the_disk_def)
    show "\<forall>l \<ge> ?d. D (the_disk s) l = disks s (the_disk s) l" using below(1) by (auto simp: D_def)
  qed (simp add: D_def)
qed

text \<open>Allocating a block and writing its part of the bitmap to disk.\<close>

lemma block_alloc_sync:
  assumes lay: "fs_layout s" and free: "free_blocks s \<noteq> {}"
  obtains i m D where "i \<in> free_blocks s" "block_bitmap_alloc (cur_part s) s = Some (block_addr s i, s\<lparr>mem := m\<rparr>)"
    "bitmap_sync (cur_part s) (block_addr s i - data_start_lba (sb (parts s (cur_part s)))) BLOCK_BITMAP (s\<lparr>mem := m\<rparr>) = Some (s\<lparr>mem := m, disks := D\<rparr>)"
    "block_addr s i - data_start_lba (sb (parts s (cur_part s))) = of_nat i"
    "\<forall>j < blocks_of s. block_used (s\<lparr>mem := m\<rparr>) j \<longleftrightarrow> block_used s j \<or> j = i"
    "\<forall>l. length (D (the_disk s) l) = 512" "\<forall>l \<ge> data_start_lba (sb (parts s (cur_part s))). D (the_disk s) l = disks s (the_disk s) l"
    "\<forall>dk. dk \<noteq> the_disk s \<longrightarrow> D dk = disks s dk" "\<forall>a. \<not> bitmap_byte s a \<longrightarrow> m a = mem s a"
proof -
  let ?P = "parts s (cur_part s)"
  have b: "bm_of BLOCK_BITMAP (cur_part s) s = block_bitmap ?P" by (simp add: bm_of_def)
  have "\<exists>i < bm_bits (bm_of BLOCK_BITMAP (cur_part s) s). \<not> unit_used BLOCK_BITMAP (cur_part s) s i"
    using free by (auto simp: free_blocks_def blocks_of_def block_used_def unit_used_def b)
  then obtain i m where a: "unit_alloc BLOCK_BITMAP (cur_part s) s = Some (unit_name BLOCK_BITMAP (cur_part s) s i, s\<lparr>mem := m\<rparr>)"
    "i < blocks_of s" "\<not> block_used s i" "\<forall>j < blocks_of s. block_used (s\<lparr>mem := m\<rparr>) j \<longleftrightarrow> block_used s j \<or> j = i"
    "\<forall>a. a \<noteq> bits (block_bitmap ?P) + of_nat (i div 8) \<longrightarrow> m a = mem s a"
    using unit_alloc_ok [of BLOCK_BITMAP "cur_part s" s] lay by (auto simp: fs_layout_def Let_def blocks_of_def block_used_def unit_used_def b)
  have n: "unit_name BLOCK_BITMAP (cur_part s) s i = block_addr s i" by (simp add: unit_name_def block_addr_def)
  obtain D where D: "bitmap_sync (cur_part s) (block_addr s i - data_start_lba (sb ?P)) BLOCK_BITMAP (s\<lparr>mem := m\<rparr>) = Some (s\<lparr>mem := m, disks := D\<rparr>)"
    "\<forall>l. length (D (the_disk s) l) = 512" "\<forall>l \<ge> data_start_lba (sb ?P). D (the_disk s) l = disks s (the_disk s) l" "\<forall>dk. dk \<noteq> the_disk s \<longrightarrow> D dk = disks s dk"
    by (rule block_sync_ok [OF lay a(2)])
  show ?thesis
  proof (rule that [of i m D])
    show "block_bitmap_alloc (cur_part s) s = Some (block_addr s i, s\<lparr>mem := m\<rparr>)" using a(1) by (simp add: unit_alloc_def n)
    show "\<forall>a. \<not> bitmap_byte s a \<longrightarrow> m a = mem s a" using a(2,5) by (auto simp: bitmap_byte_def)
  qed (use a D in \<open>simp_all add: free_blocks_def block_addr_def\<close>)
qed

section \<open>Growth\<close>

text \<open>Between \<open>s\<close> and \<open>t\<close> the blocks in \<open>A\<close> have been allocated: the bitmap says so, and no data block, no other memory and no open file has changed.\<close>

definition grown :: "u32 set \<Rightarrow> 'a fsys_scheme \<Rightarrow> 'a fsys_scheme \<Rightarrow> bool" where
  "grown A s t \<longleftrightarrow> fs_layout t \<and> parts t = parts s \<and> cur_part t = cur_part s \<and> file_table t = file_table s \<and>
     (\<forall>j < blocks_of s. block_used t j \<longleftrightarrow> block_used s j \<or> block_addr s j \<in> A) \<and>
     (\<forall>l \<ge> data_start_lba (sb (parts s (cur_part s))). disks t (the_disk s) l = disks s (the_disk s) l) \<and>
     (\<forall>a. \<not> bitmap_byte s a \<longrightarrow> mem t a = mem s a)"

lemma grown_same: "grown A s t \<Longrightarrow> blocks_of t = blocks_of s \<and> block_addr t = block_addr s \<and> the_disk t = the_disk s \<and> bitmap_byte t = bitmap_byte s"
  by (simp add: grown_def blocks_of_def block_addr_def the_disk_def bitmap_byte_def fun_eq_iff)

lemma grown_refl: "fs_layout s \<Longrightarrow> grown {} s s"
  by (simp add: grown_def)

lemma grown_trans: "grown A s t \<Longrightarrow> grown B t u \<Longrightarrow> grown (A \<union> B) s u"
  using grown_same [of A s t] by (auto simp: grown_def)

lemma grown_inodes [simp]: "grown A s (t\<lparr>inodes := i\<rparr>) \<longleftrightarrow> grown A s t"
  by (simp add: grown_def fs_layout_def sectors_ok_def block_used_def Let_def)

lemma grown_in_use:
  assumes "fs_layout s" "grown A s t" "\<forall>b \<in> A. \<exists>i < blocks_of s. b = block_addr s i"
  shows "in_use t b \<longleftrightarrow> in_use s b \<or> b \<in> A"
proof -
  have "block_used t j \<longleftrightarrow> block_used s j \<or> block_addr s j \<in> A" if "j < blocks_of s" for j using assms(2) that by (simp add: grown_def)
  then show ?thesis using assms(3) grown_same [OF assms(2)] unfolding in_use_def by metis
qed

lemma grown_free:
  assumes "fs_layout s" "grown A s t"
  shows "free_blocks t = {i \<in> free_blocks s. block_addr s i \<notin> A}"
  using assms(2) grown_same [OF assms(2)] by (auto simp: free_blocks_def grown_def)

text \<open>One allocation, with and without writing the bitmap.\<close>

lemma alloc_grown:
  assumes "fs_layout s" "free_blocks s \<noteq> {}"
  obtains i m D where "i \<in> free_blocks s" "block_bitmap_alloc (cur_part s) s = Some (block_addr s i, s\<lparr>mem := m\<rparr>)"
    "bitmap_sync (cur_part s) (block_addr s i - data_start_lba (sb (parts s (cur_part s)))) BLOCK_BITMAP (s\<lparr>mem := m\<rparr>) = Some (s\<lparr>mem := m, disks := D\<rparr>)"
    "grown {block_addr s i} s (s\<lparr>mem := m\<rparr>)" "grown {block_addr s i} s (s\<lparr>mem := m, disks := D\<rparr>)"
proof -
  obtain i m D where a: "i \<in> free_blocks s" "block_bitmap_alloc (cur_part s) s = Some (block_addr s i, s\<lparr>mem := m\<rparr>)"
    "bitmap_sync (cur_part s) (block_addr s i - data_start_lba (sb (parts s (cur_part s)))) BLOCK_BITMAP (s\<lparr>mem := m\<rparr>) = Some (s\<lparr>mem := m, disks := D\<rparr>)"
    "\<forall>j < blocks_of s. block_used (s\<lparr>mem := m\<rparr>) j \<longleftrightarrow> block_used s j \<or> j = i"
    "\<forall>l. length (D (the_disk s) l) = 512" "\<forall>l \<ge> data_start_lba (sb (parts s (cur_part s))). D (the_disk s) l = disks s (the_disk s) l"
    "\<forall>a. \<not> bitmap_byte s a \<longrightarrow> m a = mem s a"
    using block_alloc_sync [OF assms] by metis
  have "i < blocks_of s" using a(1) by (simp add: free_blocks_def)
  then have used: "block_used (s\<lparr>mem := m\<rparr>) j \<longleftrightarrow> block_used s j \<or> block_addr s j \<in> {block_addr s i}" if "j < blocks_of s" for j
    using a(4) that block_addr_inj [OF assms(1)] by auto
  then have "grown {block_addr s i} s (s\<lparr>mem := m\<rparr>)" using a(7) assms(1) by (simp add: grown_def fs_layout_def sectors_ok_def Let_def)
  moreover have "block_used (s\<lparr>mem := m, disks := D\<rparr>) j \<longleftrightarrow> block_used (s\<lparr>mem := m\<rparr>) j" for j by (simp add: block_used_def)
  ultimately have "grown {block_addr s i} s (s\<lparr>mem := m, disks := D\<rparr>)"
    using a(5,6) assms(1) by (simp add: grown_def fs_layout_def sectors_ok_def Let_def the_disk_def)
  then show ?thesis using that a(1-3) \<open>grown {block_addr s i} s (s\<lparr>mem := m\<rparr>)\<close> by blast
qed

end
