(* ===== verification/Directory.thy ===== *)
theory Directory
  imports Blocks
begin

text \<open>
  \<^verbatim>\<open>fs/dir.c\<close>: opening and closing directories, looking up, adding and removing directory entries, and reading a directory entry by entry. A sector of a
  directory is a list of 512 bytes with 21 entries of 24 bytes. Names are lists of non-zero bytes; \<open>strcmp\<close> of a stored name with a given one is equality up to the
  terminating zero. On every formatted partition \<open>dir_entry_size\<close> is the size of the structure, 24, and other values have no meaning.

  The lemmas show that an entry that has been added is found under its name, with every other name giving the same answer as before.
\<close>

section \<open>Entries in a sector\<close>

definition entries_per_sec :: "super_block \<Rightarrow> nat option" where
  "entries_per_sec b = do {
     ASSERT (dir_entry_size b = 24);
     Some (unat (512 div dir_entry_size b)) }"

definition entry_at :: "nat \<Rightarrow> u8 list \<Rightarrow> dir_entry" where
  "entry_at k buf = bytes_entry (take 24 (drop (24 * k) buf))"

text \<open>\<open>!strcmp(p_de->filename, name)\<close>: the bytes from the name field on agree with the name and its terminating zero.\<close>

definition entry_named :: "u8 list \<Rightarrow> u8 list \<Rightarrow> nat \<Rightarrow> bool" where
  "entry_named name buf k \<longleftrightarrow> take (length name + 1) (drop (24 * k) buf) = name @ [0]"

text \<open>All block addresses of a directory; without an index block the last 128 are zero.\<close>

definition all_blocks_of :: "addr \<Rightarrow> inode \<Rightarrow> 'a fsys_scheme \<Rightarrow> u32 list option" where
  "all_blocks_of part i s =
     (if i_sectors i ! 12 \<noteq> 0 then map_option (\<lambda>ws. take 12 (i_sectors i) @ ws) (index_block part i s)
      else Some (take 12 (i_sectors i) @ replicate 128 0))"

section \<open>Opening and closing\<close>

definition open_root_dir ::
    "(addr \<Rightarrow> 'a fsys_scheme \<Rightarrow> 'a fsys_scheme option) \<Rightarrow> addr \<Rightarrow> 'a fsys_scheme \<Rightarrow> 'a fsys_scheme option" where
  "open_root_dir others part s = do {
     (p, s) \<leftarrow> inode_open others part (root_inode_no (sb (parts s part))) s;
     Some (upd_dir (root_dir s) (\<lambda>d. d\<lparr>dir_inode := p, dir_pos := 0\<rparr>) s) }"

definition dir_open ::
    "(addr \<Rightarrow> 'a fsys_scheme \<Rightarrow> 'a fsys_scheme option) \<Rightarrow> addr \<Rightarrow> u32 \<Rightarrow> 'a fsys_scheme \<Rightarrow> (addr \<times> 'a fsys_scheme) option" where
  "dir_open others part inode_no s = do {
     (pdir, s) \<leftarrow> sys_malloc others 520 s;
     ASSERT (pdir \<noteq> NULL);
     (p, s) \<leftarrow> inode_open others part inode_no s;
     Some (pdir, upd_dir pdir (\<lambda>_. \<lparr>dir_inode = p, dir_pos = 0, dir_buf = replicate 512 0\<rparr>) s) }"

definition dir_close ::
    "(addr \<Rightarrow> 'a fsys_scheme \<Rightarrow> 'a fsys_scheme option) \<Rightarrow> addr \<Rightarrow> 'a fsys_scheme \<Rightarrow> 'a fsys_scheme option" where
  "dir_close others d s =
     (if d = root_dir s then Some s
      else do {
        s \<leftarrow> inode_close others (dir_inode (dirs s d)) s;
        sys_free others d s })"

section \<open>Looking up\<close>

fun search_blocks :: "addr \<Rightarrow> u8 list \<Rightarrow> nat \<Rightarrow> u32 list \<Rightarrow> 'a fsys_scheme \<Rightarrow> dir_entry option option" where
  "search_blocks dk name cnt [] s = Some None"
| "search_blocks dk name cnt (b # bs) s =
     (if b = 0 then search_blocks dk name cnt bs s
      else do {
        buf \<leftarrow> disk_read dk b 1 s;
        (case List.find (entry_named name buf) [0..<cnt] of
           Some k \<Rightarrow> Some (Some (entry_at k buf))
         | None \<Rightarrow> search_blocks dk name cnt bs s) })"

definition search_dir_entry ::
    "(addr \<Rightarrow> 'a fsys_scheme \<Rightarrow> 'a fsys_scheme option) \<Rightarrow> addr \<Rightarrow> addr \<Rightarrow> u8 list \<Rightarrow> 'a fsys_scheme \<Rightarrow> (dir_entry option \<times> 'a fsys_scheme) option" where
  "search_dir_entry others part pdir name s = do {
     (all_blocks, s) \<leftarrow> sys_malloc others (48 + 512) s;
     (if all_blocks = NULL then Some (None, s)
      else do {
        blocks \<leftarrow> all_blocks_of part (inodes s (dir_inode (dirs s pdir))) s;
        (buf, s) \<leftarrow> sys_malloc others 512 s;
        ASSERT (buf \<noteq> NULL);
        dir_entry_cnt \<leftarrow> entries_per_sec (sb (parts s part));
        found \<leftarrow> search_blocks (my_disk (parts s part)) name dir_entry_cnt blocks s;
        s \<leftarrow> sys_free others buf s;
        s \<leftarrow> sys_free others all_blocks s;
        Some (found, s) }) }"

section \<open>Adding\<close>

definition create_dir_entry :: "u8 list \<Rightarrow> u32 \<Rightarrow> u8 \<Rightarrow> dir_entry \<Rightarrow> dir_entry option" where
  "create_dir_entry name inode_no ft p_de = do {
     ASSERT (length name \<le> MAX_FILE_NAME_LEN);
     Some \<lparr>filename = name @ drop (length name) (filename p_de), de_i_no = inode_no, f_type = ucast ft\<rparr> }"

definition blank_entry :: dir_entry where
  "blank_entry = \<lparr>filename = replicate 16 0, de_i_no = 0, f_type = 0\<rparr>"

text \<open>A new block for the directory and its entry in the bitmap on disk; \<open>None\<close> as the inner result means that no block was available.\<close>

definition block_new :: "'a fsys_scheme \<Rightarrow> (u32 option \<times> 'a fsys_scheme) option" where
  "block_new s = do {
     (block_lba, s) \<leftarrow> block_bitmap_alloc (cur_part s) s;
     (if block_lba = - 1 then Some (None, s)
      else do {
        let block_bitmap_idx = block_lba - data_start_lba (sb (parts s (cur_part s)));
        ASSERT (block_bitmap_idx \<noteq> - 1);
        s \<leftarrow> bitmap_sync (cur_part s) block_bitmap_idx BLOCK_BITMAP s;
        Some (Some block_lba, s) }) }"

definition set_sector :: "addr \<Rightarrow> nat \<Rightarrow> u32 \<Rightarrow> 'a fsys_scheme \<Rightarrow> 'a fsys_scheme" where
  "set_sector p k b = upd_inode p (\<lambda>i. i\<lparr>i_sectors := (i_sectors i)[k := b]\<rparr>)"

text \<open>The place of the first block: where the address of a block for index \<open>block_idx\<close> is recorded. The store to \<open>i_sectors[13]\<close> hits the word behind the array, which is the
  field \<open>prev\<close> of \<open>inode_tag\<close>. The index block is written from the words 12 to 139 of \<open>all_blocks\<close>. The flag tells success.\<close>

definition record_block :: "addr \<Rightarrow> u32 list \<Rightarrow> nat \<Rightarrow> u32 \<Rightarrow> 'a fsys_scheme \<Rightarrow> (u32 option \<times> 'a fsys_scheme) option" where
  "record_block p blocks block_idx block_lba s =
     (let dk = my_disk (parts s (cur_part s)) in
      if block_idx < 12 then Some (Some block_lba, set_sector p block_idx block_lba s)
      else if block_idx = 12 then do {
        let s = set_sector p 12 block_lba s;
        (block_lba2, s) \<leftarrow> block_bitmap_alloc (cur_part s) s;
        (if block_lba2 = - 1 then do {
           s \<leftarrow> block_bit_clear (cur_part s) (i_sectors (inodes s p) ! 12) s;
           Some (None, set_sector p 12 0 s) }
         else do {
           let s = set_lprev (inode_tag p) block_lba2 s;
           let block_bitmap_idx = block_lba2 - data_start_lba (sb (parts s (cur_part s)));
           ASSERT (block_bitmap_idx \<noteq> - 1);
           s \<leftarrow> bitmap_sync (cur_part s) block_bitmap_idx BLOCK_BITMAP s;
           s \<leftarrow> disk_write dk (i_sectors (inodes s p) ! 12) (words_bytes (drop 12 (blocks[12 := block_lba2]))) 1 s;
           Some (Some block_lba2, s) }) }
      else do {
        s \<leftarrow> disk_write dk (i_sectors (inodes s p) ! 12) (words_bytes (drop 12 (blocks[block_idx := block_lba]))) 1 s;
        Some (Some block_lba, s) })"

text \<open>The branch for a block that does not exist yet: the entry becomes the only one of a new block.\<close>

definition entry_in_new_block :: "addr \<Rightarrow> dir_entry \<Rightarrow> u32 list \<Rightarrow> nat \<Rightarrow> 'a fsys_scheme \<Rightarrow> (bool \<times> 'a fsys_scheme) option" where
  "entry_in_new_block p p_de blocks block_idx s = do {
     (b, s) \<leftarrow> block_new s;
     (case b of
        None \<Rightarrow> Some (False, s)
      | Some block_lba \<Rightarrow> do {
          (b, s) \<leftarrow> record_block p blocks block_idx block_lba s;
          (case b of
             None \<Rightarrow> Some (False, s)
           | Some block \<Rightarrow> do {
               s \<leftarrow> disk_write (my_disk (parts s (cur_part s))) block (entry_bytes p_de @ replicate 488 0) 1 s;
               Some (True, upd_inode p (\<lambda>i. i\<lparr>i_size := i_size i + 24\<rparr>) s) }) }) }"

fun sync_loop :: "addr \<Rightarrow> dir_entry \<Rightarrow> nat \<Rightarrow> u32 list \<Rightarrow> nat \<Rightarrow> nat \<Rightarrow> 'a fsys_scheme \<Rightarrow> (bool \<times> 'a fsys_scheme) option" where
  "sync_loop p p_de per_sec blocks block_idx 0 s = Some (False, s)"
| "sync_loop p p_de per_sec blocks block_idx (Suc n) s =
     (let dk = my_disk (parts s (cur_part s)) in
      if blocks ! block_idx = 0 then entry_in_new_block p p_de blocks block_idx s
      else do {
        io_buf \<leftarrow> disk_read dk (blocks ! block_idx) 1 s;
        (case List.find (\<lambda>k. f_type (entry_at k io_buf) = FT_UNKNOWN) [0..<per_sec] of
           Some k \<Rightarrow> do {
             io_buf \<leftarrow> put_at (24 * k) (entry_bytes p_de) io_buf;
             s \<leftarrow> disk_write dk (blocks ! block_idx) io_buf 1 s;
             Some (True, upd_inode p (\<lambda>i. i\<lparr>i_size := i_size i + 24\<rparr>) s) }
         | None \<Rightarrow> sync_loop p p_de per_sec blocks (Suc block_idx) n s) })"

text \<open>The index block is not read: \<open>all_blocks\<close> has only the direct blocks.\<close>

definition sync_dir_entry :: "addr \<Rightarrow> dir_entry \<Rightarrow> 'a fsys_scheme \<Rightarrow> (bool \<times> 'a fsys_scheme) option" where
  "sync_dir_entry parent_d p_de s = do {
     let p = dir_inode (dirs s parent_d);
     per_sec \<leftarrow> entries_per_sec (sb (parts s (cur_part s)));
     ASSERT (i_size (inodes s p) mod dir_entry_size (sb (parts s (cur_part s))) = 0);
     let all_blocks = take 12 (i_sectors (inodes s p)) @ replicate 128 0;
     sync_loop p p_de per_sec all_blocks 0 140 s }"

section \<open>Removing\<close>

text \<open>One pass over a sector: whether it holds \<open>.\<close>, the number of other entries besides \<open>..\<close>, and the entry with the inode number.\<close>

fun scan_entries :: "u32 \<Rightarrow> u8 list \<Rightarrow> nat list \<Rightarrow> bool \<times> u8 \<times> nat option \<Rightarrow> (bool \<times> u8 \<times> nat option) option" where
  "scan_entries no buf [] r = Some r"
| "scan_entries no buf (k # ks) (is_first, cnt, found) =
     (if f_type (entry_at k buf) \<noteq> FT_UNKNOWN then
        (if entry_named [46] buf k then scan_entries no buf ks (True, cnt, found)
         else if \<not> entry_named [46] buf k \<and> \<not> entry_named [46, 46] buf k then
           (if de_i_no (entry_at k buf) = no then do {
              ASSERT (found = None);
              scan_entries no buf ks (is_first, cnt + 1, Some k) }
            else scan_entries no buf ks (is_first, cnt + 1, found))
         else scan_entries no buf ks (is_first, cnt, found))
      else scan_entries no buf ks (is_first, cnt, found))"

text \<open>Giving back a block that became empty. For an indirect block the loop that counts the indirect blocks never advances its index, so the code does not come back.\<close>

definition drop_block :: "addr \<Rightarrow> addr \<Rightarrow> nat \<Rightarrow> u32 \<Rightarrow> 'a fsys_scheme \<Rightarrow> 'a fsys_scheme option" where
  "drop_block part p block_idx block s = do {
     let block_bitmap_idx = block - data_start_lba (sb (parts s part));
     s \<leftarrow> block_bit_clear part block s;
     s \<leftarrow> bitmap_sync (cur_part s) block_bitmap_idx BLOCK_BITMAP s;
     (if block_idx < 12 then Some (set_sector p block_idx 0 s) else None) }"

fun delete_loop :: "addr \<Rightarrow> addr \<Rightarrow> u32 \<Rightarrow> nat \<Rightarrow> nat \<Rightarrow> u32 list \<Rightarrow> 'a fsys_scheme \<Rightarrow> (bool \<times> 'a fsys_scheme) option" where
  "delete_loop part p inode_no per_sec block_idx [] s = Some (False, s)"
| "delete_loop part p inode_no per_sec block_idx (b # bs) s =
     (if b = 0 then delete_loop part p inode_no per_sec (Suc block_idx) bs s
      else do {
        io_buf \<leftarrow> disk_read (my_disk (parts s part)) b 1 s;
        (is_first, cnt, found) \<leftarrow> scan_entries inode_no io_buf [0..<per_sec] (False, 0, None);
        (case found of
           None \<Rightarrow> delete_loop part p inode_no per_sec (Suc block_idx) bs s
         | Some k \<Rightarrow> do {
             ASSERT (1 \<le> cnt);
             s \<leftarrow> (if cnt = 1 \<and> \<not> is_first then drop_block part p block_idx b s
                  else do {
                    io_buf \<leftarrow> put_at (24 * k) (replicate 24 0) io_buf;
                    disk_write (my_disk (parts s part)) b io_buf 1 s });
             ASSERT (24 \<le> i_size (inodes s p));
             let s = upd_inode p (\<lambda>i. i\<lparr>i_size := i_size i - 24\<rparr>) s;
             s \<leftarrow> inode_sync part (inodes s p) 1024 s;
             Some (True, s) }) })"

definition delete_dir_entry :: "addr \<Rightarrow> addr \<Rightarrow> u32 \<Rightarrow> 'a fsys_scheme \<Rightarrow> (bool \<times> 'a fsys_scheme) option" where
  "delete_dir_entry part pdir inode_no s = do {
     let p = dir_inode (dirs s pdir);
     all_blocks \<leftarrow> all_blocks_of part (inodes s p) s;
     per_sec \<leftarrow> entries_per_sec (sb (parts s part));
     delete_loop part p inode_no per_sec 0 all_blocks s }"

section \<open>Reading\<close>

text \<open>The entries of one sector; the result is the entry to return, or the position behind the entries passed over.\<close>

fun read_sector :: "u8 list \<Rightarrow> u32 \<Rightarrow> nat list \<Rightarrow> u32 \<Rightarrow> (nat + u32) option" where
  "read_sector buf pos [] cur_pos = Some (Inr cur_pos)"
| "read_sector buf pos (k # ks) cur_pos =
     (if f_type (entry_at k buf) \<noteq> 0 then
        (if cur_pos < pos then read_sector buf pos ks (cur_pos + 24)
         else do {
           ASSERT (cur_pos = pos);
           Some (Inl k) })
      else read_sector buf pos ks cur_pos)"

fun read_blocks :: "addr \<Rightarrow> nat \<Rightarrow> u32 list \<Rightarrow> u32 \<Rightarrow> 'a fsys_scheme \<Rightarrow> (dir_entry option \<times> 'a fsys_scheme) option" where
  "read_blocks d per_sec [] cur_pos s = Some (None, s)"
| "read_blocks d per_sec (b # bs) cur_pos s =
     (if i_size (inodes s (dir_inode (dirs s d))) \<le> dir_pos (dirs s d) then Some (None, s)
      else if b = 0 then read_blocks d per_sec bs cur_pos s
      else do {
        buf \<leftarrow> disk_read (my_disk (parts s (cur_part s))) b 1 s;
        let s = upd_dir d (\<lambda>x. x\<lparr>dir_buf := buf\<rparr>) s;
        r \<leftarrow> read_sector buf (dir_pos (dirs s d)) [0..<per_sec] cur_pos;
        (case r of
           Inl k \<Rightarrow> Some (Some (entry_at k buf), upd_dir d (\<lambda>x. x\<lparr>dir_pos := dir_pos x + 24\<rparr>) s)
         | Inr cur_pos \<Rightarrow> read_blocks d per_sec bs cur_pos s) })"

text \<open>The result of \<open>dir_read\<close> is a pointer to the entry in \<open>dir_buf\<close>, or \<open>NULL\<close>; here it is the entry.\<close>

definition dir_read :: "addr \<Rightarrow> 'a fsys_scheme \<Rightarrow> (dir_entry option \<times> 'a fsys_scheme) option" where
  "dir_read d s = do {
     let i = inodes s (dir_inode (dirs s d));
     all_blocks \<leftarrow> (if i_sectors i ! 12 \<noteq> 0 then all_blocks_of (cur_part s) i s else Some (take 12 (i_sectors i)));
     per_sec \<leftarrow> entries_per_sec (sb (parts s (cur_part s)));
     read_blocks d per_sec all_blocks 0 s }"

definition dir_is_empty :: "addr \<Rightarrow> 'a fsys_scheme \<Rightarrow> bool" where
  "dir_is_empty d s \<longleftrightarrow> i_size (inodes s (dir_inode (dirs s d))) = dir_entry_size (sb (parts s (cur_part s))) * 2"

definition dir_remove ::
    "(addr \<Rightarrow> 'a fsys_scheme \<Rightarrow> 'a fsys_scheme option) \<Rightarrow> addr \<Rightarrow> addr \<Rightarrow> 'a fsys_scheme \<Rightarrow> (u32 \<times> 'a fsys_scheme) option" where
  "dir_remove others parent_d child_d s = do {
     let child_inode = dir_inode (dirs s child_d);
     ASSERT (list_all (\<lambda>k. i_sectors (inodes s child_inode) ! k = 0) [1..<13]);
     (io_buf, s) \<leftarrow> sys_malloc others 1024 s;
     (if io_buf = NULL then Some (- 1, s)
      else do {
        (_, s) \<leftarrow> delete_dir_entry (cur_part s) parent_d (i_no (inodes s child_inode)) s;
        s \<leftarrow> inode_release others (cur_part s) (i_no (inodes s child_inode)) s;
        s \<leftarrow> sys_free others io_buf s;
        Some (0, s) }) }"

section \<open>Entries of a sector\<close>

text \<open>What the search gives in one sector.\<close>

definition sector_find :: "u8 list \<Rightarrow> u8 list \<Rightarrow> dir_entry option" where
  "sector_find name buf = map_option (\<lambda>k. entry_at k buf) (List.find (entry_named name buf) [0..<21])"

primrec first_some :: "('b \<Rightarrow> 'c option) \<Rightarrow> 'b list \<Rightarrow> 'c option" where
  "first_some f [] = None"
| "first_some f (x # xs) = (case f x of Some y \<Rightarrow> Some y | None \<Rightarrow> first_some f xs)"

lemma first_some_append: "first_some f (xs @ ys) = (case first_some f xs of Some y \<Rightarrow> Some y | None \<Rightarrow> first_some f ys)"
  by (induction xs) (auto split: option.split)

lemma first_some_cong: "(\<And>x. x \<in> set xs \<Longrightarrow> f x = g x) \<Longrightarrow> first_some f xs = first_some g xs"
  by (induction xs) (auto split: option.split)

lemma first_some_none: "first_some f xs = None \<longleftrightarrow> (\<forall>x \<in> set xs. f x = None)"
  by (induction xs) (auto split: option.split)

text \<open>The search over all blocks is the first success.\<close>

lemma search_blocks_first:
  assumes "\<And>b. b \<in> set bs \<Longrightarrow> b \<le> max_lba"
  shows "search_blocks dk name 21 bs s = Some (first_some (\<lambda>b. if b = 0 then None else sector_find name (disks s dk b)) bs)"
  using assms by (induction bs) (auto simp: sector_read sector_find_def split: option.split)

text \<open>A name as it can be stored: up to 16 bytes without a zero.\<close>

definition name_ok :: "u8 list \<Rightarrow> bool" where
  "name_ok name \<longleftrightarrow> name \<noteq> [] \<and> length name \<le> 16 \<and> 0 \<notin> set name"

definition holds_name :: "dir_entry \<Rightarrow> u8 list \<Rightarrow> bool" where
  "holds_name e name \<longleftrightarrow> name_ok name \<and> filename e = name @ replicate (16 - length name) 0"

text \<open>A name of full length is not terminated: the comparison goes on with the lowest byte of the inode number.\<close>

definition seen_as :: "dir_entry \<Rightarrow> u8 list \<Rightarrow> u8 list \<Rightarrow> bool" where
  "seen_as e name m \<longleftrightarrow> m = name \<and> (length name < 16 \<or> (ucast (de_i_no e) :: u8) = 0)"

lemma name_prefix:
  assumes "name_ok name" "name_ok m" "length name < 16"
  shows "take (length m + 1) (name @ replicate (16 - length name) 0 @ r) = m @ [0] \<longleftrightarrow> m = name"
proof
  assume l: "take (length m + 1) (name @ replicate (16 - length name) 0 @ r) = m @ [0]"
  consider "length m < length name" | "length m = length name" | "length name < length m" by linarith
  then show "m = name"
  proof cases
    case 1
    then have "(m @ [0]) ! length m = name ! length m" unfolding l [symmetric] by (simp add: nth_append)
    then have "name ! length m = 0" by simp
    then show ?thesis using 1 assms(1) nth_mem [OF 1] by (simp add: name_ok_def)
  next
    case 2
    then show ?thesis using arg_cong [OF l, of "take (length m)"] by simp
  next
    case 3
    then have "(m @ [0]) ! length name = 0" unfolding l [symmetric] using assms(3) by (simp add: nth_append)
    then have "m ! length name = 0" using 3 by (simp add: nth_append)
    then show ?thesis using 3 assms(2) nth_mem [OF 3] by (simp add: name_ok_def)
  qed
next
  assume "m = name"
  then show "take (length m + 1) (name @ replicate (16 - length name) 0 @ r) = m @ [0]" using assms(3) by (cases "16 - length name") simp_all
qed

lemma entry_seen:
  assumes "holds_name e name" "name_ok m"
  shows "take (length m + 1) (entry_bytes e) = m @ [0] \<longleftrightarrow> seen_as e name m"
proof (cases "length name < 16")
  case True
  then show ?thesis using assms name_prefix [of name m] by (simp add: entry_bytes_def holds_name_def seen_as_def)
next
  case False
  then have n: "length name = 16" "filename e = name" "0 \<notin> set name" using assms(1) by (auto simp: holds_name_def name_ok_def)
  have w: "words_bytes [de_i_no e, f_type e] = ucast (de_i_no e) # tl (words_bytes [de_i_no e, f_type e])" by (simp add: words_bytes_def le32_def)
  have "length m \<le> 16" using assms(2) by (simp add: name_ok_def)
  then consider "length m < 16" | "length m = 16" by linarith
  then show ?thesis
  proof cases
    case 1
    then have "take (length m + 1) (entry_bytes e) ! length m = name ! length m" using n by (simp add: entry_bytes_def nth_append)
    moreover have "name ! length m \<noteq> 0" using n 1 nth_mem [of "length m" name] by force
    ultimately have "take (length m + 1) (entry_bytes e) \<noteq> m @ [0]" by (metis nth_append_length)
    then show ?thesis using 1 n by (auto simp: seen_as_def)
  next
    case 2
    have "take (length m + 1) (entry_bytes e) = name @ [ucast (de_i_no e)]"
      unfolding entry_bytes_def n(2) using 2 n(1) by (subst w) simp
    then show ?thesis using 2 n(1) by (auto simp: seen_as_def)
  qed
qed

lemma find_unique: "x \<in> set xs \<Longrightarrow> (\<And>y. y \<in> set xs \<Longrightarrow> P y \<longleftrightarrow> y = x) \<Longrightarrow> List.find P xs = Some x"
  by (induction xs) auto

text \<open>Storing an entry over one that holds no name.\<close>

lemma sector_find_put:
  assumes e: "holds_name e name" and m: "name_ok m" and k: "k < 21" and l: "length buf = 512" and z: "buf ! (24 * k) = 0"
    and put: "put_at (24 * k) (entry_bytes e) buf = Some buf'"
  shows "sector_find m buf = None \<Longrightarrow> seen_as e name m \<Longrightarrow> sector_find m buf' = Some e"
    "\<not> seen_as e name m \<Longrightarrow> sector_find m buf' = sector_find m buf"
proof -
  have le: "length (entry_bytes e) = 24" using e by (simp add: entry_bytes_length holds_name_def name_ok_def)
  have m17: "length m + 1 \<le> 17" "m \<noteq> []" "0 \<notin> set m" using m by (auto simp: name_ok_def)
  have other: "take n (drop (24 * j) buf') = take n (drop (24 * j) buf)" if "j \<noteq> k" "n \<le> 24" for j n
  proof -
    have "24 * j + n \<le> 24 * k \<or> 24 * k + 24 \<le> 24 * j" using that by arith
    then show ?thesis using put_at_other [OF put, of "24 * j" n] le by simp
  qed
  have at: "take 24 (drop (24 * k) buf') = entry_bytes e" using put_at_get [OF put] le by simp
  have named_k: "entry_named m buf' k \<longleftrightarrow> seen_as e name m"
  proof -
    have "take (length m + 1) (drop (24 * k) buf') = take (length m + 1) (take 24 (drop (24 * k) buf'))" using m17(1) by simp
    then show ?thesis unfolding entry_named_def at using entry_seen [OF e m] by simp
  qed
  have not_k: "\<not> entry_named m buf k"
  proof
    assume "entry_named m buf k"
    then have "(m @ [0]) ! 0 = take (length m + 1) (drop (24 * k) buf) ! 0" by (simp add: entry_named_def)
    then have "m ! 0 = 0" using m17(2) z k l by (simp add: nth_append)
    then show False using m17(2,3) nth_mem [of 0 m] by simp
  qed
  have same: "entry_named m buf' j \<longleftrightarrow> entry_named m buf j" "entry_at j buf' = entry_at j buf" if "j \<noteq> k" for j
    using other [OF that, of "length m + 1"] other [OF that, of 24] m17(1) by (simp_all add: entry_named_def entry_at_def)
  have new: "entry_at k buf' = e" unfolding entry_at_def at using bytes_entry_inverse [of e "[]"] e by (simp add: holds_name_def name_ok_def)
  show "sector_find m buf' = Some e" if none: "sector_find m buf = None" and seen: "seen_as e name m"
  proof -
    have "List.find (entry_named m buf') [0..<21] = Some k"
    proof (rule find_unique)
      fix j :: nat assume "j \<in> set [0..<21]"
      then show "entry_named m buf' j \<longleftrightarrow> j = k" using none seen named_k same(1) by (cases "j = k") (auto simp: sector_find_def find_None_iff)
    qed (use k in simp)
    then show ?thesis using new by (simp add: sector_find_def)
  qed
  show "sector_find m buf' = sector_find m buf" if seen: "\<not> seen_as e name m"
  proof -
    have "List.find (entry_named m buf') [0..<21] = List.find (entry_named m buf) [0..<21]"
      using seen named_k not_k same(1) by (intro find_cong) (rule refl, metis)
    moreover have "entry_at j buf' = entry_at j buf" if "List.find (entry_named m buf) [0..<21] = Some j" for j
      using that not_k same(2) by (metis find_Some_iff)
    ultimately show ?thesis by (cases "List.find (entry_named m buf) [0..<21]") (simp_all add: sector_find_def)
  qed
qed

section \<open>Adding an entry\<close>

text \<open>What the directory with the inode at \<open>p\<close> gives for a name, as \<open>search_dir_entry\<close> computes it.\<close>

definition dir_find :: "addr \<Rightarrow> u8 list \<Rightarrow> 'a fsys_scheme \<Rightarrow> dir_entry option option" where
  "dir_find p name s = do {
     blocks \<leftarrow> all_blocks_of (cur_part s) (inodes s p) s;
     search_blocks (the_disk s) name 21 blocks s }"

text \<open>A directory with at most 12 blocks, all of them in use, in which entries without a type hold no name either.\<close>

definition dir_ok :: "addr \<Rightarrow> 'a fsys_scheme \<Rightarrow> bool" where
  "dir_ok p s \<longleftrightarrow> length (i_sectors (inodes s p)) = 13 \<and> i_sectors (inodes s p) ! 12 = 0 \<and> i_size (inodes s p) mod 24 = 0 \<and>
     (\<forall>b \<in> set (i_sectors (inodes s p)). b \<noteq> 0 \<longrightarrow> in_use s b \<and>
        (\<forall>k < 21. f_type (entry_at k (disks s (the_disk s) b)) = FT_UNKNOWN \<longrightarrow> disks s (the_disk s) b ! (24 * k) = 0))"

definition direct_blocks :: "addr \<Rightarrow> 'a fsys_scheme \<Rightarrow> u32 list" where
  "direct_blocks p s = take 12 (i_sectors (inodes s p)) @ replicate 128 0"

lemma zero_sector_find: "name_ok m \<Longrightarrow> sector_find m (replicate 512 0) = None"
  by (auto simp: sector_find_def find_None_iff entry_named_def name_ok_def take_Cons' neq_Nil_conv)

lemma new_sector: "holds_name e name \<Longrightarrow> put_at 0 (entry_bytes e) (replicate 512 0) = Some (entry_bytes e @ replicate 488 0)"
  by (simp add: put_at_def entry_bytes_length holds_name_def name_ok_def)

lemma first_some_map: "map f xs = map g ys \<Longrightarrow> first_some f xs = first_some g ys"
  by (induction xs arbitrary: ys) (auto simp: map_eq_Cons_conv split: option.split)

lemma first_some_one: "b \<in> set xs \<Longrightarrow> f b = Some y \<Longrightarrow> (\<And>x. x \<in> set xs \<Longrightarrow> x \<noteq> b \<Longrightarrow> f x = None) \<Longrightarrow> first_some f xs = Some y"
proof (induction xs)
  case (Cons a xs)
  then show ?case by (cases "a = b") (auto split: option.split)
qed simp

text \<open>The two ways in which the sectors of a directory may change: an entry is stored in a block of the directory, or a new block takes the place of a zero.\<close>

lemma first_some_stored:
  assumes e: "holds_name e name" "name_ok m" and l: "length (D b) = 512" and k: "k < 21" "D b ! (24 * k) = 0" "put_at (24 * k) (entry_bytes e) (D b) = Some buf"
    and b: "b \<in> set bs" "b \<noteq> 0" and none: "first_some (\<lambda>b. if b = 0 then None else sector_find name (D b)) bs = None"
  shows "first_some (\<lambda>x. if x = 0 then None else sector_find m ((D(b := buf)) x)) bs =
    (if seen_as e name m then Some e else first_some (\<lambda>b. if b = 0 then None else sector_find m (D b)) bs)"
proof (cases "seen_as e name m")
  case True
  then have m: "m = name" by (simp add: seen_as_def)
  have "sector_find name (D x) = None" if "x \<in> set bs" "x \<noteq> 0" for x using none that by (auto simp: first_some_none)
  then show ?thesis using True b sector_find_put [OF e k(1) l k(2,3)] by (auto simp: m intro!: first_some_one [of b])
next
  case False
  then show ?thesis using sector_find_put [OF e k(1) l k(2,3)] by (auto intro!: first_some_cong)
qed

lemma first_some_new:
  assumes e: "holds_name e name" "name_ok m" and j: "j < length bs" "bs ! j = 0" and b: "b \<noteq> 0" and D: "D' b = entry_bytes e @ replicate 488 0"
    "\<And>x. x \<in> set bs \<Longrightarrow> x \<noteq> 0 \<Longrightarrow> D' x = D x" and none: "first_some (\<lambda>b. if b = 0 then None else sector_find name (D b)) bs = None"
  shows "first_some (\<lambda>x. if x = 0 then None else sector_find m (D' x)) (bs[j := b]) =
    (if seen_as e name m then Some e else first_some (\<lambda>b. if b = 0 then None else sector_find m (D b)) bs)"
proof -
  have new: "sector_find m (D' b) = (if seen_as e name m then Some e else None)"
    using sector_find_put [OF e, of 0 "replicate 512 0" "D' b"] zero_sector_find [OF e(2)] new_sector [OF e(1)] by (simp add: D(1))
  show ?thesis
  proof (cases "seen_as e name m")
    case True
    then have m: "m = name" by (simp add: seen_as_def)
    have "first_some (\<lambda>x. if x = 0 then None else sector_find m (D' x)) (bs[j := b]) = Some e"
    proof (rule first_some_one [of b])
      fix x assume x: "x \<in> set (bs[j := b])" "x \<noteq> b"
      then have "x \<in> set bs" using set_update_subset_insert [of bs j b] by blast
      then show "(if x = 0 then None else sector_find m (D' x)) = None" using none D(2) [of x] by (auto simp: first_some_none m)
    qed (use j b new True in \<open>auto simp: set_update_memI\<close>)
    then show ?thesis using True by simp
  next
    case False
    have "map (\<lambda>x. if x = 0 then None else sector_find m (D' x)) (bs[j := b]) = map (\<lambda>b. if b = 0 then None else sector_find m (D b)) bs"
    proof (rule nth_equalityI)
      fix i assume "i < length (map (\<lambda>x. if x = 0 then None else sector_find m (D' x)) (bs[j := b]))"
      then show "map (\<lambda>x. if x = 0 then None else sector_find m (D' x)) (bs[j := b]) ! i = map (\<lambda>b. if b = 0 then None else sector_find m (D b)) bs ! i"
        using j new False D(2) [of "bs ! i"] by (cases "i = j") simp_all
    qed simp
    from first_some_map [OF this] show ?thesis using False by simp
  qed
qed

text \<open>The walk over the blocks stops at the first one that is missing or has a free entry.\<close>

lemma sync_loop_stops:
  assumes "\<And>j. j < 12 \<Longrightarrow> bl ! j \<le> max_lba" "bl ! 12 = 0" "idx \<le> 12" "12 < idx + n"
  shows "\<exists>j \<le> 12. bl ! j = 0 \<and> sync_loop p e 21 bl idx n s = entry_in_new_block p e bl j s \<or>
    j < 12 \<and> bl ! j \<noteq> 0 \<and> (\<exists>k < 21. f_type (entry_at k (disks s (the_disk s) (bl ! j))) = FT_UNKNOWN \<and>
      sync_loop p e 21 bl idx n s = do {
        io_buf \<leftarrow> put_at (24 * k) (entry_bytes e) (disks s (the_disk s) (bl ! j));
        s \<leftarrow> disk_write (the_disk s) (bl ! j) io_buf 1 s;
        Some (True, upd_inode p (\<lambda>i. i\<lparr>i_size := i_size i + 24\<rparr>) s) })"
  using assms(3,4)
proof (induction n arbitrary: idx)
  case (Suc n)
  show ?case
  proof (cases "bl ! idx = 0")
    case True
    then show ?thesis using Suc.prems(1) by (intro exI [of _ idx]) simp
  next
    case False
    then have lt: "idx < 12" using Suc.prems(1) assms(2) by (cases "idx = 12") auto
    have rd: "disk_read (my_disk (parts s (cur_part s))) (bl ! idx) 1 s = Some (disks s (the_disk s) (bl ! idx))"
      using sector_read [OF assms(1) [OF lt]] by (simp add: the_disk_def)
    show ?thesis
    proof (cases "List.find (\<lambda>k. f_type (entry_at k (disks s (the_disk s) (bl ! idx))) = FT_UNKNOWN) [0..<21]")
      case None
      then have "sync_loop p e 21 bl idx (Suc n) s = sync_loop p e 21 bl (Suc idx) n s" using False rd by simp
      then show ?thesis using Suc.IH [of "Suc idx"] Suc.prems(2) lt by simp
    next
      case (Some k)
      then have "k < 21" "f_type (entry_at k (disks s (the_disk s) (bl ! idx))) = FT_UNKNOWN" by (auto simp: find_Some_iff)
      then have "\<exists>k < 21. f_type (entry_at k (disks s (the_disk s) (bl ! idx))) = FT_UNKNOWN \<and>
          sync_loop p e 21 bl idx (Suc n) s = do {
            io_buf \<leftarrow> put_at (24 * k) (entry_bytes e) (disks s (the_disk s) (bl ! idx));
            s \<leftarrow> disk_write (the_disk s) (bl ! idx) io_buf 1 s;
            Some (True, upd_inode p (\<lambda>i. i\<lparr>i_size := i_size i + 24\<rparr>) s) }"
        using False rd Some by (intro exI [of _ k]) (simp add: the_disk_def Let_def)
      then show ?thesis using False lt by (intro exI [of _ idx]) simp
    qed
  qed
qed simp

lemma index_not_minus_1:
  assumes "fs_layout s" "i < blocks_of s"
  shows "block_addr s i - data_start_lba (sb (parts s (cur_part s))) \<noteq> - 1"
proof
  assume "block_addr s i - data_start_lba (sb (parts s (cur_part s))) = - 1"
  then have "unat (of_nat i :: u32) = 2 ^ 32 - 1" by (simp add: block_addr_def unsigned_minus_1_eq_mask mask_eq_exp_minus_1)
  moreover have "i < 2 ^ 31" using assms bm_bits_bound by (fastforce simp: fs_layout_def Let_def blocks_of_def)
  ultimately show False by (simp add: unat_of_nat_lt)
qed

lemma block_new_ok:
  assumes "fs_layout s" "free_blocks s \<noteq> {}"
  obtains i m D where "i \<in> free_blocks s" "block_new s = Some (Some (block_addr s i), s\<lparr>mem := m, disks := D\<rparr>)"
    "\<forall>j < blocks_of s. block_used (s\<lparr>mem := m\<rparr>) j \<longleftrightarrow> block_used s j \<or> j = i"
    "\<forall>l. length (D (the_disk s) l) = 512" "\<forall>l \<ge> data_start_lba (sb (parts s (cur_part s))). D (the_disk s) l = disks s (the_disk s) l"
proof -
  obtain i m D where a: "i \<in> free_blocks s" "block_bitmap_alloc (cur_part s) s = Some (block_addr s i, s\<lparr>mem := m\<rparr>)"
    "bitmap_sync (cur_part s) (block_addr s i - data_start_lba (sb (parts s (cur_part s)))) BLOCK_BITMAP (s\<lparr>mem := m\<rparr>) = Some (s\<lparr>mem := m, disks := D\<rparr>)"
    "block_addr s i - data_start_lba (sb (parts s (cur_part s))) = of_nat i"
    "\<forall>j < blocks_of s. block_used (s\<lparr>mem := m\<rparr>) j \<longleftrightarrow> block_used s j \<or> j = i"
    "\<forall>l. length (D (the_disk s) l) = 512" "\<forall>l \<ge> data_start_lba (sb (parts s (cur_part s))). D (the_disk s) l = disks s (the_disk s) l"
    using block_alloc_sync [OF assms] by metis
  have i: "i < blocks_of s" using a(1) by (simp add: free_blocks_def)
  have "block_new s = Some (Some (block_addr s i), s\<lparr>mem := m, disks := D\<rparr>)"
    using a(2,3) block_addr_ok(3) [OF assms(1) i] index_not_minus_1 [OF assms(1) i] by (simp add: block_new_def)
  then show ?thesis using that a by blast
qed

lemma fs_layout_upd: "fs_layout s \<Longrightarrow> \<forall>l. length (D (the_disk s) l) = 512 \<Longrightarrow> fs_layout (s\<lparr>mem := m, disks := D\<rparr>)"
  by (simp add: fs_layout_def Let_def sectors_ok_def the_disk_def)

lemma set_sector_sel [simp]:
  "i_sectors (inodes (set_sector p k b s) p) = (i_sectors (inodes s p))[k := b]" "parts (set_sector p k b s) = parts s" "cur_part (set_sector p k b s) = cur_part s"
  "disks (set_sector p k b s) = disks s" "mem (set_sector p k b s) = mem s"
  by (simp_all add: set_sector_def upd_inode_def)

lemma set_lprev_sel [simp]:
  "parts (set_lprev q b s) = parts s" "cur_part (set_lprev q b s) = cur_part s" "disks (set_lprev q b s) = disks s" "mem (set_lprev q b s) = mem s"
  "inodes (set_lprev q b s) = inodes s"
  by (simp_all add: set_lprev_def)

lemma free_not_in_use: "fs_layout s \<Longrightarrow> i \<in> free_blocks s \<Longrightarrow> \<not> in_use s (block_addr s i)"
  using block_addr_inj [of s i] by (auto simp: in_use_def free_blocks_def)

lemma entry_in_direct_block:
  assumes lay: "fs_layout s" and free: "free_blocks s \<noteq> {}" and j: "j < 12" and sec: "length (i_sectors (inodes s p)) = 13" "i_sectors (inodes s p) ! 12 = 0"
    and e: "length (entry_bytes e) = 24"
  shows "\<exists>b s'. entry_in_new_block p e (direct_blocks p s) j s = Some (True, s') \<and>
    all_blocks_of (cur_part s') (inodes s' p) s' = Some ((direct_blocks p s)[j := b]) \<and> b \<noteq> 0 \<and> b \<le> max_lba \<and> the_disk s' = the_disk s \<and>
    disks s' (the_disk s) b = entry_bytes e @ replicate 488 0 \<and> (\<forall>x. in_use s x \<longrightarrow> disks s' (the_disk s) x = disks s (the_disk s) x)"
proof -
  obtain i m D where a: "i \<in> free_blocks s" "block_new s = Some (Some (block_addr s i), s\<lparr>mem := m, disks := D\<rparr>)"
    "\<forall>l. length (D (the_disk s) l) = 512" "\<forall>l \<ge> data_start_lba (sb (parts s (cur_part s))). D (the_disk s) l = disks s (the_disk s) l"
    using block_new_ok [OF lay free] by metis
  let ?b = "block_addr s i" and ?buf = "entry_bytes e @ replicate 488 0"
  have i: "i < blocks_of s" using a(1) by (simp add: free_blocks_def)
  note b = block_addr_ok [OF lay i]
  let ?s = "set_sector p j ?b (s\<lparr>mem := m, disks := D\<rparr>)"
  have "record_block p (direct_blocks p s) j ?b (s\<lparr>mem := m, disks := D\<rparr>) = Some (Some ?b, ?s)" using j by (simp add: record_block_def)
  moreover have "disk_write (the_disk s) ?b ?buf 1 ?s = Some (?s\<lparr>disks := D(the_disk s := (D (the_disk s))(?b := ?buf))\<rparr>)"
    using sector_write [OF b(1), of ?buf "the_disk s" ?s] e by simp
  ultimately have "entry_in_new_block p e (direct_blocks p s) j s =
      Some (True, upd_inode p (\<lambda>i. i\<lparr>i_size := i_size i + 24\<rparr>) (?s\<lparr>disks := D(the_disk s := (D (the_disk s))(?b := ?buf))\<rparr>))"
    using a(2) by (simp add: entry_in_new_block_def the_disk_def)
  moreover have "(direct_blocks p s)[j := ?b] = take 12 ((i_sectors (inodes s p))[j := ?b]) @ replicate 128 0"
    using j sec(1) by (simp add: direct_blocks_def list_update_append take_update_swap)
  moreover have "D (the_disk s) x = disks s (the_disk s) x \<and> x \<noteq> ?b" if "in_use s x" for x
    using a(4) in_use_ok [OF lay that] free_not_in_use [OF lay a(1)] that by blast
  ultimately show ?thesis using b j sec by (intro exI [of _ ?b]) (simp add: all_blocks_of_def upd_inode_def the_disk_def)
qed

lemma disk_write_set_lprev: "disk_write dk l buf n (set_lprev q x s) = map_option (set_lprev q x) (disk_write dk l buf n s)"
  by (auto simp: disk_write_def set_lprev_def ASSERT_def intro!: fsys.equality cong: if_cong)

lemma bitmap_sync_set_lprev: "bitmap_sync part k b (set_lprev q x s) = map_option (set_lprev q x) (bitmap_sync part k b s)"
  by (cases b) (simp_all add: bitmap_sync_def disk_write_set_lprev Let_def)

lemma entry_in_index_block:
  assumes lay: "fs_layout s" and free: "2 \<le> card (free_blocks s)" and sec: "length (i_sectors (inodes s p)) = 13" "i_sectors (inodes s p) ! 12 = 0"
    and e: "length (entry_bytes e) = 24"
  shows "\<exists>b s'. entry_in_new_block p e (direct_blocks p s) 12 s = Some (True, s') \<and>
    all_blocks_of (cur_part s') (inodes s' p) s' = Some ((direct_blocks p s)[12 := b]) \<and> b \<noteq> 0 \<and> b \<le> max_lba \<and> the_disk s' = the_disk s \<and>
    disks s' (the_disk s) b = entry_bytes e @ replicate 488 0 \<and> (\<forall>x. in_use s x \<longrightarrow> disks s' (the_disk s) x = disks s (the_disk s) x)"
proof -
  let ?dk = "the_disk s" and ?d = "data_start_lba (sb (parts s (cur_part s)))" and ?buf = "entry_bytes e @ replicate 488 0"
  have "free_blocks s \<noteq> {}" using free by auto
  then obtain i m D where a: "i \<in> free_blocks s" "block_new s = Some (Some (block_addr s i), s\<lparr>mem := m, disks := D\<rparr>)"
    "\<forall>j < blocks_of s. block_used (s\<lparr>mem := m\<rparr>) j \<longleftrightarrow> block_used s j \<or> j = i"
    "\<forall>l. length (D ?dk l) = 512" "\<forall>l \<ge> ?d. D ?dk l = disks s ?dk l"
    using block_new_ok [OF lay] by metis
  let ?ib = "block_addr s i"
  define t where "t = set_sector p 12 ?ib (s\<lparr>mem := m, disks := D\<rparr>)"
  have t: "blocks_of t = blocks_of s" "block_addr t = block_addr s" "the_disk t = ?dk" "parts t = parts s" "cur_part t = cur_part s" "disks t = D"
    "i_sectors (inodes t p) = (i_sectors (inodes s p))[12 := ?ib]"
    by (simp_all add: t_def blocks_of_def block_addr_def the_disk_def fun_eq_iff)
  have tu: "block_used t j \<longleftrightarrow> block_used (s\<lparr>mem := m\<rparr>) j" for j by (simp add: t_def block_used_def)
  have lay_t: "fs_layout t" using lay a(4) by (simp add: t_def fs_layout_def sectors_ok_def Let_def the_disk_def)
  have free_t: "free_blocks t = free_blocks s - {i}" using a(3) by (auto simp: free_blocks_def t tu)
  then have "card (free_blocks t) \<noteq> 0" using free a(1) by (simp add: card_Diff_singleton)
  then have "free_blocks t \<noteq> {}" by auto
  then obtain j m' D' where c: "j \<in> free_blocks t" "block_bitmap_alloc (cur_part t) t = Some (block_addr t j, t\<lparr>mem := m'\<rparr>)"
    "bitmap_sync (cur_part t) (block_addr t j - data_start_lba (sb (parts t (cur_part t)))) BLOCK_BITMAP (t\<lparr>mem := m'\<rparr>) = Some (t\<lparr>mem := m', disks := D'\<rparr>)"
    "\<forall>l. length (D' (the_disk t) l) = 512" "\<forall>l \<ge> data_start_lba (sb (parts t (cur_part t))). D' (the_disk t) l = disks t (the_disk t) l"
    using block_alloc_sync [OF lay_t] by metis
  let ?b = "block_addr s j" and ?ws = "drop 12 ((direct_blocks p s)[12 := block_addr s j])"
  have ij: "i < blocks_of s" "j < blocks_of s" "i \<noteq> j" "j \<in> free_blocks s" using a(1) c(1) free_t by (auto simp: free_blocks_def)
  note ib = block_addr_ok [OF lay ij(1)] and b = block_addr_ok [OF lay ij(2)]
  have ne: "?b \<noteq> ?ib" using block_addr_inj [OF lay] ij(1-3) by simp
  have ws: "length ?ws = 128" "length (words_bytes ?ws) = 512" "take 12 (i_sectors (inodes s p)) @ ?ws = (direct_blocks p s)[12 := ?b]"
    using sec(1) by (simp_all add: direct_blocks_def list_update_append)
  define u where "u = set_lprev (inode_tag p) ?b (t\<lparr>mem := m', disks := D'\<rparr>)"
  have u: "parts u = parts s" "cur_part u = cur_part s" "disks u = D'" "i_sectors (inodes u p) = (i_sectors (inodes s p))[12 := ?ib]" by (simp_all add: u_def t)
  have sync: "bitmap_sync (cur_part s) (?b - ?d) BLOCK_BITMAP (set_lprev (inode_tag p) ?b (t\<lparr>mem := m'\<rparr>)) = Some u"
    using bitmap_sync_set_lprev [of "cur_part s" "?b - ?d" BLOCK_BITMAP "inode_tag p" ?b "t\<lparr>mem := m'\<rparr>"] c(3) by (simp add: t u_def)
  have w1: "disk_write ?dk ?ib (words_bytes ?ws) 1 u = Some (u\<lparr>disks := D'(?dk := (D' ?dk)(?ib := words_bytes ?ws))\<rparr>)"
    using sector_write [OF ib(1) ws(2), of ?dk u] u(3) by simp
  define v where "v = u\<lparr>disks := D'(?dk := (D' ?dk)(?ib := words_bytes ?ws))\<rparr>"
  have "?b - ?d \<noteq> - 1" using index_not_minus_1 [OF lay ij(2)] .
  then have rec: "record_block p (direct_blocks p s) 12 ?ib (s\<lparr>mem := m, disks := D\<rparr>) = Some (Some ?b, v)"
    using c(2) b(3) sync w1 u sec(1) by (simp add: record_block_def t_def [symmetric] t v_def the_disk_def [symmetric])
  have w2: "disk_write ?dk ?b ?buf 1 v = Some (v\<lparr>disks := (disks v)(?dk := (disks v ?dk)(?b := ?buf))\<rparr>)"
    using sector_write [OF b(1), of ?buf ?dk v] e by simp
  have v_disk: "the_disk v = ?dk" by (simp add: v_def the_disk_def u)
  define s' where "s' = upd_inode p (\<lambda>i. i\<lparr>i_size := i_size i + 24\<rparr>) (v\<lparr>disks := (disks v)(?dk := (disks v ?dk)(?b := ?buf))\<rparr>)"
  have "entry_in_new_block p e (direct_blocks p s) 12 s = Some (True, s')"
    using a(2) rec w2 v_disk by (simp add: entry_in_new_block_def s'_def the_disk_def [symmetric])
  moreover have s': "cur_part s' = cur_part s" "parts s' = parts s" "the_disk s' = ?dk" "i_sectors (inodes s' p) = (i_sectors (inodes s p))[12 := ?ib]"
    "disks s' ?dk = (D' ?dk)(?ib := words_bytes ?ws, ?b := ?buf)"
    using u by (simp_all add: s'_def v_def upd_inode_def the_disk_def)
  moreover have "all_blocks_of (cur_part s') (inodes s' p) s' = Some ((direct_blocks p s)[12 := ?b])"
    using ib(1,2) sector_read [OF ib(1), of ?dk s'] ne ws sec(1) s' by (simp add: all_blocks_of_def index_block_def the_disk_def [symmetric])
  moreover have "D' ?dk x = disks s ?dk x \<and> x \<noteq> ?b \<and> x \<noteq> ?ib" if "in_use s x" for x
    using a(5) c(5) in_use_ok [OF lay that] free_not_in_use [OF lay a(1)] free_not_in_use [OF lay ij(4)] that by (simp add: t) blast
  ultimately show ?thesis using b ne by (intro exI [of _ ?b] exI [of _ s']) simp
qed

lemma dir_find_blocks:
  assumes "all_blocks_of (cur_part s) (inodes s p) s = Some bs" "\<And>b. b \<in> set bs \<Longrightarrow> b \<le> max_lba"
  shows "dir_find p m s = Some (first_some (\<lambda>b. if b = 0 then None else sector_find m (disks s (the_disk s) b)) bs)"
  using assms by (simp add: dir_find_def search_blocks_first)

lemma direct_blocks_ok:
  assumes "fs_layout s" "dir_ok p s" "b \<in> set (direct_blocks p s)"
  shows "b \<noteq> 0 \<Longrightarrow> in_use s b" "b \<le> max_lba"
proof -
  have "b \<in> set (i_sectors (inodes s p)) \<or> b = 0" using assms(3) by (auto simp: direct_blocks_def dest: in_set_takeD)
  then show "b \<noteq> 0 \<Longrightarrow> in_use s b" using assms(2) by (auto simp: dir_ok_def)
  then show "b \<le> max_lba" using in_use_ok [OF assms(1)] by (cases "b = 0") auto
qed

lemma dir_find_direct:
  assumes "fs_layout s" "dir_ok p s"
  shows "dir_find p m s = Some (first_some (\<lambda>b. if b = 0 then None else sector_find m (disks s (the_disk s) b)) (direct_blocks p s))"
  using dir_find_blocks [of s p "direct_blocks p s" m] direct_blocks_ok(2) [OF assms] assms(2) by (simp add: all_blocks_of_def direct_blocks_def dir_ok_def)

lemma direct_blocks_length: "dir_ok p s \<Longrightarrow> length (direct_blocks p s) = 140" "dir_ok p s \<Longrightarrow> direct_blocks p s ! 12 = 0"
  by (simp_all add: direct_blocks_def dir_ok_def nth_append)

text \<open>What adding an entry does to the answers of the directory.\<close>

definition entry_added :: "addr \<Rightarrow> dir_entry \<Rightarrow> u8 list \<Rightarrow> 'a fsys_scheme \<Rightarrow> 'a fsys_scheme \<Rightarrow> bool" where
  "entry_added p e name s s' \<longleftrightarrow> (\<forall>m. name_ok m \<longrightarrow> dir_find p m s' = (if seen_as e name m then Some (Some e) else dir_find p m s))"

lemma added_in_new_block:
  assumes lay: "fs_layout s" and ok: "dir_ok p s" and free: "2 \<le> card (free_blocks s)" and e: "holds_name e name" and none: "dir_find p name s = Some None"
    and j: "j \<le> 12" "direct_blocks p s ! j = 0"
  shows "\<exists>s'. entry_in_new_block p e (direct_blocks p s) j s = Some (True, s') \<and> entry_added p e name s s'"
proof -
  let ?bl = "direct_blocks p s" and ?D = "disks s (the_disk s)" and ?find = "\<lambda>m D. first_some (\<lambda>b. if b = 0 then None else sector_find m (D b))"
  have sec: "length (i_sectors (inodes s p)) = 13" "i_sectors (inodes s p) ! 12 = 0" using ok by (simp_all add: dir_ok_def)
  have le: "length (entry_bytes e) = 24" using e by (simp add: entry_bytes_length holds_name_def name_ok_def)
  note bl = direct_blocks_ok [OF lay ok] and old = dir_find_direct [OF lay ok] and len = direct_blocks_length [OF ok]
  have none': "?find name ?D ?bl = None" using none old by simp
  have "free_blocks s \<noteq> {}" using free by auto
  then obtain b s' where s': "entry_in_new_block p e ?bl j s = Some (True, s')" "all_blocks_of (cur_part s') (inodes s' p) s' = Some (?bl[j := b])"
    "b \<noteq> 0" "b \<le> max_lba" "the_disk s' = the_disk s" "disks s' (the_disk s) b = entry_bytes e @ replicate 488 0"
    "\<forall>x. in_use s x \<longrightarrow> disks s' (the_disk s) x = ?D x"
    using entry_in_direct_block [OF lay _ _ sec le, of j] entry_in_index_block [OF lay free sec le] j(1) by (cases "j = 12") force+
  have small: "x \<le> max_lba" if "x \<in> set (?bl[j := b])" for x using that bl(2) s'(4) set_update_subset_insert [of ?bl j b] by blast
  have "dir_find p m s' = Some (?find m (disks s' (the_disk s)) (?bl[j := b]))" for m
    using dir_find_blocks [OF s'(2) small] unfolding s'(5) .
  moreover have "?find m (disks s' (the_disk s)) (?bl[j := b]) = (if seen_as e name m then Some e else ?find m ?D ?bl)" if "name_ok m" for m
    by (rule first_some_new [where D' = "disks s' (the_disk s)" and D = ?D, OF e that _ j(2) s'(3,6) _ none']) (use s'(7) bl(1) j(1) len(1) in simp_all)
  ultimately show ?thesis using s'(1) old by (auto simp: entry_added_def)
qed

lemma added_in_old_block:
  assumes lay: "fs_layout s" and ok: "dir_ok p s" and e: "holds_name e name" and none: "dir_find p name s = Some None"
    and j: "j \<le> 12" "direct_blocks p s ! j \<noteq> 0" and k: "k < 21" "f_type (entry_at k (disks s (the_disk s) (direct_blocks p s ! j))) = FT_UNKNOWN"
  shows "\<exists>s'. do {
        io_buf \<leftarrow> put_at (24 * k) (entry_bytes e) (disks s (the_disk s) (direct_blocks p s ! j));
        s \<leftarrow> disk_write (the_disk s) (direct_blocks p s ! j) io_buf 1 s;
        Some (True, upd_inode p (\<lambda>i. i\<lparr>i_size := i_size i + 24\<rparr>) s) } = Some (True, s') \<and> entry_added p e name s s'"
proof -
  let ?bl = "direct_blocks p s" and ?D = "disks s (the_disk s)" and ?find = "\<lambda>m D. first_some (\<lambda>b. if b = 0 then None else sector_find m (D b))"
  let ?b = "direct_blocks p s ! j"
  have le: "length (entry_bytes e) = 24" using e by (simp add: entry_bytes_length holds_name_def name_ok_def)
  have ds: "length (?D b) = 512" for b using lay by (simp add: fs_layout_def Let_def sectors_ok_def the_disk_def)
  note bl = direct_blocks_ok [OF lay ok] and old = dir_find_direct [OF lay ok] and len = direct_blocks_length [OF ok]
  have none': "?find name ?D ?bl = None" using none old by simp
  have b: "?b \<in> set ?bl" "?b \<le> max_lba" using j(1) len(1) bl(2) nth_mem [of j ?bl] by auto
  then have "?b \<in> set (i_sectors (inodes s p))" using j(2) by (auto simp: direct_blocks_def dest: in_set_takeD)
  then have z: "?D ?b ! (24 * k) = 0" using ok j(2) k by (simp add: dir_ok_def)
  obtain buf where buf: "put_at (24 * k) (entry_bytes e) (?D ?b) = Some buf" using ds le k(1) by (simp add: put_at_def)
  have "length buf = 512" using put_at_length [OF buf] ds by simp
  then obtain s' where s': "disk_write (the_disk s) ?b buf 1 s = Some s'" "disks s' (the_disk s) = ?D(?b := buf)" "parts s' = parts s" "cur_part s' = cur_part s"
    "inodes s' = inodes s"
    using sector_write [OF b(2), of buf "the_disk s" s] by simp
  let ?s = "upd_inode p (\<lambda>i. i\<lparr>i_size := i_size i + 24\<rparr>) s'"
  have "all_blocks_of (cur_part ?s) (inodes ?s p) ?s = Some ?bl" using s'(5) ok by (simp add: all_blocks_of_def direct_blocks_def upd_inode_def dir_ok_def)
  moreover have disk: "disks ?s (the_disk ?s) = ?D(?b := buf)" using s'(2-4) by (simp add: the_disk_def upd_inode_def)
  ultimately have "dir_find p m ?s = Some (?find m (?D(?b := buf)) ?bl)" for m
    using dir_find_blocks [of ?s p ?bl m] bl(2) unfolding disk by blast
  moreover have "?find m (?D(?b := buf)) ?bl = (if seen_as e name m then Some e else ?find m ?D ?bl)" if "name_ok m" for m
    using first_some_stored [OF e that ds k(1) z buf b(1) j(2) none'] .
  ultimately show ?thesis using buf s'(1) old by (auto simp: entry_added_def)
qed

section \<open>Claims\<close>


text \<open>The bare partition with the first block in use: a directory that occupies it.\<close>

definition bare_dir :: fsys where
  "bare_dir = bare_fs\<lparr>mem := (\<lambda>_. 0)(0xc0300000 := 1), inodes := (\<lambda>_. inode_init 0\<lparr>i_sectors := 2663 # replicate 12 0\<rparr>)\<rparr>"

lemma bare_dir_sel [simp]:
  "inodes bare_dir = (\<lambda>_. inode_init 0\<lparr>i_sectors := 2663 # replicate 12 0\<rparr>)" "parts bare_dir = (\<lambda>_. bare_part)" "cur_part bare_dir = 0xc0200000"
  "disks bare_dir = (\<lambda>_ _. replicate 512 0)" "mem bare_dir = (\<lambda>_. 0)(0xc0300000 := 1)" "dirs bare_dir = dirs bare_fs"
  by (simp_all add: bare_dir_def)

lemma bare_dir_layout: "fs_layout bare_dir"
  by (simp add: fs_layout_def sectors_ok_def bare_part_def bare_sb_def bm_ok_def bm_bits_def max_lba_def)

lemma bare_dir_block: "in_use bare_dir 2663"
  by (auto simp: in_use_def block_addr_def block_used_def blocks_of_def bare_part_def bare_sb_def bm_bits_def used_def intro!: exI [of _ 0])

lemma bare_dir_free: "2 \<le> card (free_blocks bare_dir)"
proof -
  have "{1, 2} \<subseteq> free_blocks bare_dir"
    by (auto simp: free_blocks_def block_used_def blocks_of_def bare_part_def bm_bits_def used_def)
  from card_mono [OF _ this] show ?thesis by simp
qed


end
