(* ===== verification/OpenFile.thy ===== *)
theory OpenFile
  imports Directory
begin

text \<open>
  \<^verbatim>\<open>fs/file.c\<close>: the table of open files, and creating, opening, closing, writing and reading a file. A file is named by its index in \<open>file_table\<close>, since all calls
  pass pointers into this table. The 140 block addresses of a file are a list, as are the buffers of one sector; the data of the caller are bytes of memory at an address.

  The lemmas show what reading gives and that writing appends, in terms of the contents of a file as one sequence of bytes.
\<close>

section \<open>Descriptors\<close>

definition get_free_slot_in_global :: "'a fsys_scheme \<Rightarrow> u32" where
  "get_free_slot_in_global s =
     (case List.find (\<lambda>fd_idx. fd_inode (file_table s ! fd_idx) = NULL) [3..<MAX_FILE_OPEN] of
        Some fd_idx \<Rightarrow> of_nat fd_idx
      | None \<Rightarrow> - 1)"

definition pcb_fd_install :: "u32 \<Rightarrow> 'a fsys_scheme \<Rightarrow> u32 \<times> 'a fsys_scheme" where
  "pcb_fd_install globa_fd_idx s =
     (let cur = running_thread s in
      case List.find (\<lambda>local_fd_idx. fd_table (tasks s cur) ! local_fd_idx = - 1) [3..<MAX_FILES_OPEN_PER_PROC] of
        Some local_fd_idx \<Rightarrow> (of_nat local_fd_idx, upd_task cur (\<lambda>t. t\<lparr>fd_table := (fd_table t)[local_fd_idx := globa_fd_idx]\<rparr>) s)
      | None \<Rightarrow> (- 1, s))"

section \<open>Creating, opening, closing\<close>

text \<open>The steps at the label \<open>rollback\<close>; the cases fall through.\<close>

definition create_rollback ::
    "(addr \<Rightarrow> 'a fsys_scheme \<Rightarrow> 'a fsys_scheme option) \<Rightarrow> nat \<Rightarrow> u32 \<Rightarrow> addr \<Rightarrow> u32 \<Rightarrow> addr \<Rightarrow> 'a fsys_scheme \<Rightarrow> (u32 \<times> 'a fsys_scheme) option" where
  "create_rollback others rollback_step fd_idx new_file_inode inode_no io_buf s = do {
     let s = (if rollback_step = 3 then upd_file (unat fd_idx) (\<lambda>_. \<lparr>fd_pos = 0, fd_flag = 0, fd_inode = NULL\<rparr>) s else s);
     s \<leftarrow> (if 2 \<le> rollback_step then sys_free others new_file_inode s else Some s);
     s \<leftarrow> inode_bit_clear (cur_part s) inode_no s;
     s \<leftarrow> sys_free others io_buf s;
     Some (- 1, s) }"

definition file_create ::
    "(addr \<Rightarrow> 'a fsys_scheme \<Rightarrow> 'a fsys_scheme option) \<Rightarrow> addr \<Rightarrow> u8 list \<Rightarrow> u8 \<Rightarrow> 'a fsys_scheme \<Rightarrow> (u32 \<times> 'a fsys_scheme) option" where
  "file_create others parent_d name flag s = do {
     (io_buf, s) \<leftarrow> sys_malloc others 1024 s;
     (if io_buf = NULL then Some (- 1, s)
      else do {
        (inode_no, s) \<leftarrow> inode_bitmap_alloc (cur_part s) s;
        (if inode_no = - 1 then Some (- 1, s)
         else do {
           (new_file_inode, s) \<leftarrow> sys_malloc others 76 s;
           (if new_file_inode = NULL then create_rollback others 1 0 new_file_inode inode_no io_buf s
            else do {
              let s = upd_inode new_file_inode (\<lambda>_. inode_init inode_no) s;
              let fd_idx = get_free_slot_in_global s;
              (if fd_idx = - 1 then create_rollback others 2 fd_idx new_file_inode inode_no io_buf s
               else do {
                 let s = upd_file (unat fd_idx) (\<lambda>_. \<lparr>fd_pos = 0, fd_flag = ucast flag, fd_inode = new_file_inode\<rparr>) s;
                 let s = upd_inode new_file_inode (\<lambda>i. i\<lparr>write_deny := False\<rparr>) s;
                 new_dir_entry \<leftarrow> create_dir_entry name inode_no (ucast FT_REGULAR) blank_entry;
                 (ok, s) \<leftarrow> sync_dir_entry parent_d new_dir_entry s;
                 (if \<not> ok then create_rollback others 3 fd_idx new_file_inode inode_no io_buf s
                  else do {
                    s \<leftarrow> inode_sync (cur_part s) (inodes s (dir_inode (dirs s parent_d))) 1024 s;
                    s \<leftarrow> inode_sync (cur_part s) (inodes s new_file_inode) 1024 s;
                    s \<leftarrow> bitmap_sync (cur_part s) inode_no INODE_BITMAP s;
                    let s = list_push (open_inodes (cur_part s)) (inode_tag new_file_inode) s;
                    let s = upd_inode new_file_inode (\<lambda>i. i\<lparr>i_open_cnts := 1\<rparr>) s;
                    s \<leftarrow> sys_free others io_buf s;
                    Some (pcb_fd_install fd_idx s) }) }) }) }) }) }"

definition file_open ::
    "(addr \<Rightarrow> 'a fsys_scheme \<Rightarrow> 'a fsys_scheme option) \<Rightarrow> u32 \<Rightarrow> u8 \<Rightarrow> 'a fsys_scheme \<Rightarrow> (u32 \<times> 'a fsys_scheme) option" where
  "file_open others inode_no flag s = do {
     let fd_idx = get_free_slot_in_global s;
     (if fd_idx = - 1 then Some (- 1, s)
      else do {
        (p, s) \<leftarrow> inode_open others (cur_part s) inode_no s;
        let s = upd_file (unat fd_idx) (\<lambda>_. \<lparr>fd_pos = 0, fd_flag = ucast flag, fd_inode = p\<rparr>) s;
        (if ucast flag AND O_WRONLY \<noteq> 0 \<or> ucast flag AND O_RDWR \<noteq> 0 then do {
           let (old_status, s) = intr_disable s;
           (if \<not> write_deny (inodes s p) then do {
              let s = upd_inode p (\<lambda>i. i\<lparr>write_deny := True\<rparr>) s;
              Some (pcb_fd_install fd_idx (snd (intr_set_status old_status s))) }
            else Some (- 1, snd (intr_set_status old_status s))) }
         else Some (pcb_fd_install fd_idx s)) }) }"

text \<open>The argument \<open>None\<close> is the null pointer.\<close>

definition file_close ::
    "(addr \<Rightarrow> 'a fsys_scheme \<Rightarrow> 'a fsys_scheme option) \<Rightarrow> nat option \<Rightarrow> 'a fsys_scheme \<Rightarrow> (u32 \<times> 'a fsys_scheme) option" where
  "file_close others f s =
     (case f of
        None \<Rightarrow> Some (- 1, s)
      | Some f \<Rightarrow> do {
          let s = upd_inode (fd_inode (file_table s ! f)) (\<lambda>i. i\<lparr>write_deny := False\<rparr>) s;
          s \<leftarrow> inode_close others (fd_inode (file_table s ! f)) s;
          Some (0, upd_file f (\<lambda>x. x\<lparr>fd_inode := NULL\<rparr>) s) })"

section \<open>Writing\<close>

text \<open>The first block of an empty file. The flag tells success.\<close>

definition first_block :: "addr \<Rightarrow> 'a fsys_scheme \<Rightarrow> (bool \<times> 'a fsys_scheme) option" where
  "first_block p s =
     (if i_sectors (inodes s p) ! 0 = 0 then do {
        (block_lba, s) \<leftarrow> block_bitmap_alloc (cur_part s) s;
        (if block_lba = - 1 then Some (False, s)
         else do {
           let s = set_sector p 0 block_lba s;
           let block_bitmap_idx = block_lba - data_start_lba (sb (parts s (cur_part s)));
           ASSERT (block_bitmap_idx \<noteq> 0);
           s \<leftarrow> bitmap_sync (cur_part s) block_bitmap_idx BLOCK_BITMAP s;
           Some (True, s) }) }
      else Some (True, s))"

text \<open>The loop that allocates the blocks from \<open>block_idx\<close> on, \<open>n\<close> of them. The code has it three times: for direct blocks only, for direct and indirect blocks, and for
  indirect blocks only. \<open>None\<close> as the inner result means that no block was available and the function returns \<open>-1\<close>.\<close>

fun grow_loop :: "addr \<Rightarrow> u32 list \<Rightarrow> nat \<Rightarrow> nat \<Rightarrow> 'a fsys_scheme \<Rightarrow> (u32 list option \<times> 'a fsys_scheme) option" where
  "grow_loop p all_blocks block_idx 0 s = Some (Some all_blocks, s)"
| "grow_loop p all_blocks block_idx (Suc n) s = do {
     (block_lba, s) \<leftarrow> block_bitmap_alloc (cur_part s) s;
     (if block_lba = - 1 then Some (None, s)
      else do {
        s \<leftarrow> (if block_idx < 12 then do {
                ASSERT (i_sectors (inodes s p) ! block_idx = 0);
                Some (set_sector p block_idx block_lba s) }
              else Some s);
        let all_blocks = all_blocks[block_idx := block_lba];
        let block_bitmap_idx = block_lba - data_start_lba (sb (parts s (cur_part s)));
        s \<leftarrow> bitmap_sync (cur_part s) block_bitmap_idx BLOCK_BITMAP s;
        grow_loop p all_blocks (Suc block_idx) n s }) }"

definition write_index :: "addr \<Rightarrow> (u32 list option \<times> 'a fsys_scheme) option \<Rightarrow> (u32 list option \<times> 'a fsys_scheme) option" where
  "write_index p r = do {
     (bl, s) \<leftarrow> r;
     (case bl of
        None \<Rightarrow> Some (None, s)
      | Some all_blocks \<Rightarrow> do {
          s \<leftarrow> disk_write (my_disk (parts s (cur_part s))) (i_sectors (inodes s p) ! 12) (words_bytes (drop 12 all_blocks)) 1 s;
          Some (Some all_blocks, s) }) }"

text \<open>The addresses of the blocks that will be written, among 140 that are zero at first.\<close>

definition collect_blocks :: "addr \<Rightarrow> nat \<Rightarrow> nat \<Rightarrow> 'a fsys_scheme \<Rightarrow> (u32 list option \<times> 'a fsys_scheme) option" where
  "collect_blocks p has_used will_use s =
     (let i = inodes s p; last_block = (replicate 140 0)[has_used - 1 := i_sectors i ! (has_used - 1)] in
      if will_use = has_used then
        (if has_used \<le> 12 then Some (Some last_block, s)
         else do {
           ASSERT (i_sectors i ! 12 \<noteq> 0);
           ws \<leftarrow> index_block (cur_part s) i s;
           Some (Some (replicate 12 0 @ ws), s) })
      else if will_use \<le> 12 then do {
        ASSERT (i_sectors i ! (has_used - 1) \<noteq> 0);
        grow_loop p last_block has_used (will_use - has_used) s }
      else if has_used \<le> 12 then do {
        (block_lba, s) \<leftarrow> block_bitmap_alloc (cur_part s) s;
        (if block_lba = - 1 then Some (None, s)
         else do {
           ASSERT (i_sectors (inodes s p) ! 12 = 0);
           write_index p (grow_loop p last_block has_used (will_use - has_used) (set_sector p 12 block_lba s)) }) }
      else do {
        ASSERT (i_sectors i ! 12 \<noteq> 0);
        ws \<leftarrow> index_block (cur_part s) i s;
        write_index p (grow_loop p (replicate 12 0 @ ws) has_used (will_use - has_used) s) })"

definition chunk_at :: "u32 \<Rightarrow> nat \<Rightarrow> nat" where
  "chunk_at pos size_left = min size_left (512 - unat (pos mod 512))"

lemma chunk_at_pos: "0 < size_left \<Longrightarrow> 0 < chunk_at pos size_left"
  using unat_mono [of "pos mod 512" 512] by (simp add: chunk_at_def word_mod_less_divisor)

text \<open>The loop that writes; only the first sector is read before, since the others are new.\<close>

function write_loop :: "addr \<Rightarrow> nat \<Rightarrow> u32 list \<Rightarrow> addr \<Rightarrow> nat \<Rightarrow> bool \<Rightarrow> 'a fsys_scheme \<Rightarrow> 'a fsys_scheme option" where
  "write_loop p f all_blocks src size_left first_write_block s =
     (if size_left = 0 then Some s
      else do {
        let pos = i_size (inodes s p);
        let dk = my_disk (parts s (cur_part s));
        ASSERT (unat (pos div 512) < length all_blocks);
        let lba = all_blocks ! unat (pos div 512);
        let chunk_size = chunk_at pos size_left;
        io_buf \<leftarrow> (if first_write_block then disk_read dk lba 1 s else Some (replicate 512 0));
        io_buf \<leftarrow> put_at (unat (pos mod 512)) (mem_bytes (mem s) src chunk_size) io_buf;
        s \<leftarrow> disk_write dk lba io_buf 1 s;
        let s = upd_inode p (\<lambda>i. i\<lparr>i_size := i_size i + of_nat chunk_size\<rparr>) s;
        let s = upd_file f (\<lambda>x. x\<lparr>fd_pos := fd_pos x + of_nat chunk_size\<rparr>) s;
        write_loop p f all_blocks (src + of_nat chunk_size) (size_left - chunk_size) False s })"
  by pat_completeness auto
termination
  by (relation "measure (\<lambda>(p, f, bl, src, n, b, s). n)") (use chunk_at_pos in auto)

text \<open>Everything between obtaining the two buffers and writing the inode back.\<close>

definition write_data :: "addr \<Rightarrow> nat \<Rightarrow> addr \<Rightarrow> u32 \<Rightarrow> 'a fsys_scheme \<Rightarrow> (bool \<times> 'a fsys_scheme) option" where
  "write_data p f buf count s = do {
     (ok, s) \<leftarrow> first_block p s;
     (if \<not> ok then Some (False, s)
      else do {
        let has_used = i_size (inodes s p) div 512 + 1;
        let will_use = (i_size (inodes s p) + count) div 512 + 1;
        ASSERT (will_use \<le> 140);
        (bl, s) \<leftarrow> collect_blocks p (unat has_used) (unat will_use) s;
        (case bl of
           None \<Rightarrow> Some (False, s)
         | Some all_blocks \<Rightarrow> do {
             let s = upd_file f (\<lambda>x. x\<lparr>fd_pos := i_size (inodes s p) - 1\<rparr>) s;
             s \<leftarrow> write_loop p f all_blocks buf (unat count) True s;
             Some (True, s) }) }) }"

definition file_write ::
    "(addr \<Rightarrow> 'a fsys_scheme \<Rightarrow> 'a fsys_scheme option) \<Rightarrow> nat \<Rightarrow> addr \<Rightarrow> u32 \<Rightarrow> 'a fsys_scheme \<Rightarrow> (u32 \<times> 'a fsys_scheme) option" where
  "file_write others f buf count s = do {
     let p = fd_inode (file_table s ! f);
     (if 512 * 140 < i_size (inodes s p) + count then Some (- 1, s)
      else do {
        (io_buf, s) \<leftarrow> sys_malloc others 512 s;
        (if io_buf = NULL then Some (- 1, s)
         else do {
           (all_blocks, s) \<leftarrow> sys_malloc others (512 + 48) s;
           (if all_blocks = NULL then Some (- 1, s)
            else do {
              (ok, s) \<leftarrow> write_data p f buf count s;
              (if \<not> ok then Some (- 1, s)
               else do {
                 s \<leftarrow> inode_sync (cur_part s) (inodes s p) 512 s;
                 s \<leftarrow> sys_free others all_blocks s;
                 s \<leftarrow> sys_free others io_buf s;
                 Some (count, s) }) }) }) }) }"

section \<open>Reading\<close>

definition mem_put :: "addr \<Rightarrow> u8 list \<Rightarrow> memory \<Rightarrow> memory" where
  "mem_put p xs m = (\<lambda>a. if unat (a - p) < length xs then xs ! unat (a - p) else m a)"

text \<open>The addresses of the blocks from \<open>start\<close> to \<open>fin\<close>; the loops that copy direct addresses are written as one list.\<close>

definition read_table :: "inode \<Rightarrow> nat \<Rightarrow> nat \<Rightarrow> 'a fsys_scheme \<Rightarrow> u32 list option" where
  "read_table i start fin s =
     (let direct = map (\<lambda>k. if start \<le> k \<and> k \<le> fin then i_sectors i ! k else 0) [0..<12] in
      if start = fin then
        (if fin < 12 then Some (direct @ replicate 128 0)
         else do {
           ws \<leftarrow> index_block (cur_part s) i s;
           Some (replicate 12 0 @ ws) })
      else if fin < 12 then Some (direct @ replicate 128 0)
      else do {
        ASSERT (i_sectors i ! 12 \<noteq> 0);
        ws \<leftarrow> index_block (cur_part s) i s;
        Some (direct @ ws) })"

function read_loop :: "nat \<Rightarrow> u32 list \<Rightarrow> addr \<Rightarrow> nat \<Rightarrow> 'a fsys_scheme \<Rightarrow> 'a fsys_scheme option" where
  "read_loop f all_blocks buf_dst size_left s =
     (if size_left = 0 then Some s
      else do {
        let pos = fd_pos (file_table s ! f);
        let dk = my_disk (parts s (cur_part s));
        ASSERT (unat (pos div 512) < length all_blocks);
        let lba = all_blocks ! unat (pos div 512);
        let chunk_size = chunk_at pos size_left;
        io_buf \<leftarrow> disk_read dk lba 1 s;
        let s = s\<lparr>mem := mem_put buf_dst (take chunk_size (drop (unat (pos mod 512)) io_buf)) (mem s)\<rparr>;
        let s = upd_file f (\<lambda>x. x\<lparr>fd_pos := fd_pos x + of_nat chunk_size\<rparr>) s;
        read_loop f all_blocks (buf_dst + of_nat chunk_size) (size_left - chunk_size) s })"
  by pat_completeness auto
termination
  by (relation "measure (\<lambda>(f, bl, dst, n, s). n)") (use chunk_at_pos in auto)

definition read_data :: "addr \<Rightarrow> nat \<Rightarrow> addr \<Rightarrow> u32 \<Rightarrow> 'a fsys_scheme \<Rightarrow> 'a fsys_scheme option" where
  "read_data p f buf sz s = do {
     let start = fd_pos (file_table s ! f) div 512;
     let fin = (fd_pos (file_table s ! f) + sz) div 512;
     ASSERT (start < 139 \<and> fin < 139);
     all_blocks \<leftarrow> read_table (inodes s p) (unat start) (unat fin) s;
     read_loop f all_blocks buf (unat sz) s }"

text \<open>Without a sector buffer \<open>memset\<close> or \<open>sys_free\<close> stops at the null pointer.\<close>

definition file_read ::
    "(addr \<Rightarrow> 'a fsys_scheme \<Rightarrow> 'a fsys_scheme option) \<Rightarrow> nat \<Rightarrow> addr \<Rightarrow> u32 \<Rightarrow> 'a fsys_scheme \<Rightarrow> (u32 \<times> 'a fsys_scheme) option" where
  "file_read others f buf count s = do {
     let p = fd_inode (file_table s ! f);
     let pos = fd_pos (file_table s ! f);
     let beyond = i_size (inodes s p) < pos + count;
     let sz = (if beyond then i_size (inodes s p) - pos else count);
     (if beyond \<and> sz = 0 then Some (- 1, s)
      else do {
        (io_buf, s) \<leftarrow> sys_malloc others 512 s;
        (all_blocks, s) \<leftarrow> sys_malloc others (512 + 48) s;
        (if all_blocks = NULL then Some (- 1, s)
         else do {
           ASSERT (io_buf \<noteq> NULL);
           s \<leftarrow> read_data p f buf sz s;
           s \<leftarrow> sys_free others all_blocks s;
           s \<leftarrow> sys_free others io_buf s;
           Some (sz, s) }) }) }"

section \<open>Contents\<close>

text \<open>The 140 block addresses of a file, the byte at a position and the contents.\<close>

definition block_list :: "addr \<Rightarrow> 'a fsys_scheme \<Rightarrow> u32 list" where
  "block_list p s = take 12 (i_sectors (inodes s p)) @
     (if i_sectors (inodes s p) ! 12 = 0 then replicate 128 0 else bytes_words 128 (disks s (the_disk s) (i_sectors (inodes s p) ! 12)))"

definition file_byte :: "addr \<Rightarrow> 'a fsys_scheme \<Rightarrow> nat \<Rightarrow> u8" where
  "file_byte p s k = disks s (the_disk s) (block_list p s ! (k div 512)) ! (k mod 512)"

definition file_len :: "addr \<Rightarrow> 'a fsys_scheme \<Rightarrow> nat" where
  "file_len p s = unat (i_size (inodes s p))"

definition contents :: "addr \<Rightarrow> 'a fsys_scheme \<Rightarrow> u8 list" where
  "contents p s = map (file_byte p s) [0..<file_len p s]"

lemma contents_length [simp]: "length (contents p s) = file_len p s"
  by (simp add: contents_def)

lemma mem_put_empty [simp]: "mem_put p [] m = m"
  by (simp add: mem_put_def)

lemma mem_put_append:
  assumes "length xs + length ys \<le> 2 ^ 32"
  shows "mem_put (p + of_nat (length xs)) ys (mem_put p xs m) = mem_put p (xs @ ys) m"
proof
  fix a :: addr
  let ?d = "a - p" and ?n = "length xs"
  have e: "a - (p + of_nat ?n) = ?d - of_nat ?n" by simp
  show "mem_put (p + of_nat ?n) ys (mem_put p xs m) a = mem_put p (xs @ ys) m a"
  proof (cases "unat ?d < ?n")
    case True
    have n: "?n < 2 ^ 32 \<or> ys = []" using assms by (cases ys) auto
    have "\<not> unat (?d - of_nat ?n) < length ys"
    proof
      assume l: "unat (?d - of_nat ?n) < length ys"
      then have "?n < 2 ^ 32" using n by auto
      then have u: "unat (of_nat ?n :: addr) = ?n" by (simp add: unat_of_nat_lt)
      then have "unat (?d - of_nat ?n) = unat ?d + 2 ^ 32 - ?n" using True unat_sub_if' [of ?d "of_nat ?n"] by simp
      then show False using l assms by simp
    qed
    then show ?thesis using True unfolding mem_put_def e by (simp add: nth_append)
  next
    case False
    then have "?n < 2 ^ 32" using unsigned_less [of ?d, where 'a = nat] by (simp add: not_less order.strict_trans1)
    then have u: "unat (of_nat ?n :: addr) = ?n" by (simp add: unat_of_nat_lt)
    then have "unat (?d - of_nat ?n) = unat ?d - ?n" using False unat_sub [of "of_nat ?n" ?d] by (simp add: word_le_nat_alt)
    then show ?thesis using False unfolding mem_put_def e by (auto simp: nth_append)
  qed
qed

lemma mem_file_upd: "s\<lparr>mem := a, file_table := b, mem := c, file_table := d\<rparr> = (s\<lparr>mem := c, file_table := d\<rparr> :: 'a fsys_scheme)"
  by simp

text \<open>A chunk stays in one sector.\<close>

lemma chunk_at_nat: "unat pos = k \<Longrightarrow> chunk_at pos n = min n (512 - k mod 512)" "unat (pos div 512 :: u32) = unat pos div 512" "unat (pos mod 512 :: u32) = unat pos mod 512"
  by (auto simp: chunk_at_def unat_div unat_mod)

lemma sector_chunk:
  assumes "length x = 512" "c \<le> 512 - k mod 512"
  shows "take c (drop (k mod 512) x) = map (\<lambda>j. x ! (j mod 512)) [k..<k + c]"
    "\<And>j. k \<le> j \<Longrightarrow> j < k + c \<Longrightarrow> j div 512 = k div 512 \<and> j mod 512 = k mod 512 + (j - k)"
proof -
  show m: "j div 512 = k div 512 \<and> j mod 512 = k mod 512 + (j - k)" if "k \<le> j" "j < k + c" for j
  proof -
    define r where "r = k mod 512 + (j - k)"
    have r: "r < 512" using that assms(2) by (auto simp: r_def)
    have "j = 512 * (k div 512) + r" using that(1) by (simp add: r_def)
    then have "j div 512 = k div 512" "j mod 512 = r" using r by simp_all
    then show ?thesis by (simp add: r_def)
  qed
  show "take c (drop (k mod 512) x) = map (\<lambda>j. x ! (j mod 512)) [k..<k + c]"
  proof (rule nth_equalityI)
    show "length (take c (drop (k mod 512) x)) = length (map (\<lambda>j. x ! (j mod 512)) [k..<k + c])" using assms by simp
    fix i assume "i < length (take c (drop (k mod 512) x))"
    then have "i < c" "k mod 512 + i < length x" by auto
    then show "take c (drop (k mod 512) x) ! i = map (\<lambda>j. x ! (j mod 512)) [k..<k + c] ! i" using m [of "k + i"] by simp
  qed
qed

section \<open>Reading gives the contents\<close>

lemma read_loop_bytes:
  assumes "f < length (file_table s)" "unat (fd_pos (file_table s ! f)) = pos" "pos + n < 2 ^ 32" "sectors_ok (the_disk s) s"
    "\<And>k. pos \<le> k \<Longrightarrow> k < pos + n \<Longrightarrow> k div 512 < length bl \<and> bl ! (k div 512) \<le> max_lba"
  shows "read_loop f bl dst n s = Some (s\<lparr>mem := mem_put dst (map (\<lambda>k. disks s (the_disk s) (bl ! (k div 512)) ! (k mod 512)) [pos..<pos + n]) (mem s),
    file_table := (file_table s)[f := (file_table s ! f)\<lparr>fd_pos := of_nat (pos + n)\<rparr>]\<rparr>)"
  using assms
proof (induction n arbitrary: s pos dst rule: less_induct)
  case (less n)
  show ?case
  proof (cases "n = 0")
    case True
    have "of_nat pos = fd_pos (file_table s ! f)" unfolding less.prems(2) [symmetric] by simp
    then show ?thesis using True by (simp del: read_loop.simps add: read_loop.simps [of f bl dst 0 s])
  next
    case False
    let ?P = "fd_pos (file_table s ! f)" and ?c = "min n (512 - pos mod 512)" and ?D = "disks s (the_disk s)"
    have c: "chunk_at ?P n = ?c" "unat (?P div 512) = pos div 512" "unat (?P mod 512) = pos mod 512" "0 < ?c" "?c \<le> n" "?c \<le> 512 - pos mod 512"
      using less.prems(2) chunk_at_nat(1) [of ?P pos n] chunk_at_nat(2,3) [of ?P] chunk_at_pos [of n ?P] False by auto
    have k: "pos div 512 < length bl" "bl ! (pos div 512) \<le> max_lba" using less.prems(5) [of pos] False by auto
    let ?x = "?D (bl ! (pos div 512))"
    have x: "length ?x = 512" using less.prems(4) by (simp add: sectors_ok_def)
    define xs where "xs = map (\<lambda>k. ?D (bl ! (k div 512)) ! (k mod 512)) [pos..<pos + ?c]"
    have same: "k div 512 = pos div 512" if "pos \<le> k" "k < pos + ?c" for k using sector_chunk(2) [OF x c(6) that] by simp
    have xs: "take ?c (drop (pos mod 512) ?x) = xs" unfolding xs_def sector_chunk(1) [OF x c(6)] by (rule map_cong) (use same in simp_all)
    have len: "length xs = ?c" by (simp add: xs_def)
    define t where "t = upd_file f (\<lambda>y. y\<lparr>fd_pos := fd_pos y + of_nat ?c\<rparr>) (s\<lparr>mem := mem_put dst xs (mem s)\<rparr>)"
    have rd: "disk_read (my_disk (parts s (cur_part s))) (bl ! (pos div 512)) 1 s = Some ?x" using sector_read [OF k(2)] by (simp add: the_disk_def)
    have step: "read_loop f bl dst n s = read_loop f bl (dst + of_nat ?c) (n - ?c) t"
      unfolding read_loop.simps [of f bl dst n s] using False k(1) rd c(1-3) xs by (simp add: t_def Let_def del: read_loop.simps)
    have "of_nat pos = ?P" unfolding less.prems(2) [symmetric] by simp
    then have pos': "?P + of_nat ?c = of_nat (pos + ?c)" by simp
    then have "fd_pos (file_table t ! f) = of_nat (pos + ?c)" using less.prems(1) by (simp add: t_def upd_file_def)
    moreover have "unat (of_nat (pos + ?c) :: u32) = pos + ?c" by (rule unat_of_nat_lt) (use less.prems(3) in simp)
    ultimately have tpos: "unat (fd_pos (file_table t ! f)) = pos + ?c" by (simp only:)
    have t: "f < length (file_table t)" "the_disk t = the_disk s" "disks t = disks s" "sectors_ok (the_disk t) t"
      using less.prems(1,3,4) c(5) by (simp_all add: t_def upd_file_def the_disk_def sectors_ok_def unat_of_nat_lt)
    have "read_loop f bl (dst + of_nat ?c) (n - ?c) t = Some (t\<lparr>mem := mem_put (dst + of_nat ?c) (map (\<lambda>k. ?D (bl ! (k div 512)) ! (k mod 512)) [pos + ?c..<pos + n]) (mem t),
        file_table := (file_table t)[f := (file_table t ! f)\<lparr>fd_pos := of_nat (pos + n)\<rparr>]\<rparr>)"
      using less.IH [of "n - ?c" t "pos + ?c" "dst + of_nat ?c"] t tpos less.prems(3,5) c(4,5) False by (simp del: read_loop.simps)
    moreover have "mem_put (dst + of_nat ?c) ys (mem t) = mem_put dst (xs @ ys) (mem s)" if "length ys = n - ?c" for ys
      using mem_put_append [of xs ys dst "mem s"] that len less.prems(3) c(5) by (simp add: t_def upd_file_def)
    moreover have "xs @ map (\<lambda>k. ?D (bl ! (k div 512)) ! (k mod 512)) [pos + ?c..<pos + n] = map (\<lambda>k. ?D (bl ! (k div 512)) ! (k mod 512)) [pos..<pos + n]"
      unfolding xs_def map_append [symmetric] using c(5) upt_add_eq_append [of pos "pos + ?c" "n - ?c"] by simp
    ultimately show ?thesis unfolding step using less.prems(1) by (simp add: t_def upd_file_def)
  qed
qed

text \<open>
  A well-formed file: a file with \<open>n\<close> blocks has block addresses in the first \<open>n\<close> places only, all different and in use, and an index block exactly if it has more than 12 blocks.
  A file that has been written to has one block more than it has full blocks.
\<close>

definition file_blocks :: "addr \<Rightarrow> 'a fsys_scheme \<Rightarrow> nat" where
  "file_blocks p s = (if i_sectors (inodes s p) ! 0 = 0 then 0 else file_len p s div 512 + 1)"

definition file_ok :: "addr \<Rightarrow> 'a fsys_scheme \<Rightarrow> bool" where
  "file_ok p s \<longleftrightarrow>
     (let n = file_blocks p s; bl = block_list p s; ib = i_sectors (inodes s p) ! 12 in
      length (i_sectors (inodes s p)) = 13 \<and> n \<le> 140 \<and> (n = 0 \<longrightarrow> file_len p s = 0) \<and>
      (\<forall>k < n. in_use s (bl ! k)) \<and> distinct (take n bl) \<and> (\<forall>k < 140. n \<le> k \<longrightarrow> bl ! k = 0) \<and>
      (if 12 < n then in_use s ib \<and> ib \<notin> set (take n bl) else ib = 0))"

lemma block_list_length: "length (i_sectors (inodes s p)) = 13 \<Longrightarrow> length (block_list p s) = 140"
  by (simp add: block_list_def)

lemma block_list_direct: "length (i_sectors (inodes s p)) = 13 \<Longrightarrow> k < 12 \<Longrightarrow> block_list p s ! k = i_sectors (inodes s p) ! k"
  by (simp add: block_list_def nth_append)

lemma file_blocks_pos: "file_ok p s \<Longrightarrow> file_len p s \<noteq> 0 \<Longrightarrow> file_blocks p s = file_len p s div 512 + 1"
  by (auto simp: file_ok_def Let_def file_blocks_def split: if_splits)

lemma index_block_list:
  assumes "fs_layout s" "in_use s (i_sectors (inodes s p) ! 12)" "length (i_sectors (inodes s p)) = 13"
  shows "index_block (cur_part s) (inodes s p) s = Some (drop 12 (block_list p s))"
  using in_use_ok [OF assms(1,2)] assms(3) sector_read [of "i_sectors (inodes s p) ! 12" "the_disk s" s]
  by (simp add: index_block_def block_list_def the_disk_def)

lemma read_table_ok:
  assumes lay: "fs_layout s" and ok: "file_ok p s" and n: "start \<le> fin" "fin \<le> file_len p s div 512"
  obtains bl where "read_table (inodes s p) start fin s = Some bl" "length bl = 140" "\<forall>k. start \<le> k \<longrightarrow> k \<le> fin \<longrightarrow> k < file_blocks p s \<longrightarrow> bl ! k = block_list p s ! k"
proof -
  let ?i = "inodes s p" and ?direct = "map (\<lambda>k. if start \<le> k \<and> k \<le> fin then i_sectors (inodes s p) ! k else 0) [0..<12]"
  have l: "length (i_sectors ?i) = 13" using ok by (simp add: file_ok_def Let_def)
  note bl = block_list_length [OF l]
  show ?thesis
  proof (cases "fin < 12")
    case True
    then have "read_table ?i start fin s = Some (?direct @ replicate 128 0)" by (simp add: read_table_def Let_def)
    then show ?thesis using True by (intro that) (auto simp: nth_append block_list_direct [OF l])
  next
    case False
    then have len: "12 \<le> file_len p s div 512" using n(2) by simp
    then have "file_len p s \<noteq> 0" by (intro notI) simp
    then have "12 < file_blocks p s" using file_blocks_pos [OF ok] len by simp
    then have ib: "in_use s (i_sectors ?i ! 12)" using ok by (simp add: file_ok_def Let_def)
    then have "i_sectors ?i ! 12 \<noteq> 0" using in_use_ok [OF lay] by blast
    then have "read_table ?i start fin s = Some ((if start = fin then replicate 12 0 else ?direct) @ drop 12 (block_list p s))"
      using False index_block_list [OF lay ib l] by (simp add: read_table_def Let_def)
    from that [OF this] show ?thesis using False n(1) bl by (auto simp: nth_append block_list_direct [OF l])
  qed
qed

section \<open>Claims\<close>


text \<open>The bare directory read as a file of 100 bytes.\<close>

definition bare_file :: fsys where
  "bare_file = bare_dir\<lparr>inodes := (\<lambda>_. inode_init 0\<lparr>i_size := 100, i_sectors := 2663 # replicate 12 0\<rparr>)\<rparr>"

lemma bare_file_sel [simp]:
  "inodes bare_file = (\<lambda>_. inode_init 0\<lparr>i_size := 100, i_sectors := 2663 # replicate 12 0\<rparr>)" "parts bare_file = parts bare_dir" "cur_part bare_file = cur_part bare_dir"
  "disks bare_file = disks bare_dir" "mem bare_file = mem bare_dir" "file_table bare_file = replicate 32 \<lparr>fd_pos = 0, fd_flag = 0, fd_inode = 0\<rparr>"
  by (simp_all add: bare_file_def bare_dir_def)

lemma bare_file_len: "file_len p bare_file = 100" "file_blocks p bare_file = 1"
  by (simp_all add: file_len_def file_blocks_def)

lemma bare_file_ok: "fs_layout bare_file" "file_ok p bare_file"
proof -
  show "fs_layout bare_file" using bare_dir_layout by (simp add: fs_layout_def sectors_ok_def Let_def)
  have "in_use bare_file 2663" using bare_dir_block by (simp add: in_use_def block_addr_def block_used_def blocks_of_def)
  moreover have "block_list p bare_file ! k = 0" if "k < 140" "1 \<le> k" for k using that by (cases k) (simp_all add: block_list_def nth_append)
  ultimately show "file_ok p bare_file" by (simp add: file_ok_def bare_file_len block_list_def Let_def)
qed


end
