(* ===== verification/Path.thy ===== *)
theory Path
  imports OpenFile
begin

text \<open>
  The parsing of path names in \<^verbatim>\<open>fs/fs.c\<close>. A path is the list of its bytes without the terminating zero; the null pointer that \<open>path_parse\<close> returns at the end of the path is \<open>None\<close>.
  A name is parsed into an array of 16 bytes: longer names are written past its end, and a name of exactly 16 bytes leaves no room for a terminating zero.

  The lemmas show that parsing gives the components of the path one after the other, and that the depth is the number of components.
\<close>

definition slash :: u8 where
  "slash = 47"

primrec skip_slashes :: "u8 list \<Rightarrow> u8 list" where
  "skip_slashes [] = []"
| "skip_slashes (c # cs) = (if c = slash then skip_slashes cs else c # cs)"

primrec first_name :: "u8 list \<Rightarrow> u8 list" where
  "first_name [] = []"
| "first_name (c # cs) = (if c = slash then [] else c # first_name cs)"

primrec after_name :: "u8 list \<Rightarrow> u8 list" where
  "after_name [] = []"
| "after_name (c # cs) = (if c = slash then c # cs else after_name cs)"

text \<open>The rest of the path and the name.\<close>

definition path_parse :: "u8 list \<Rightarrow> u8 list option \<times> u8 list" where
  "path_parse pathname =
     (let rest = (if pathname \<noteq> [] \<and> hd pathname = slash then skip_slashes (tl pathname) else pathname);
          name = first_name rest;
          rest = after_name rest
      in (if rest = [] then None else Some rest, name))"

lemma skip_shorter: "length (skip_slashes xs) \<le> length xs"
  by (induction xs) auto

lemma after_shorter: "length (after_name xs) \<le> length xs"
  by (induction xs) auto

lemma skip_first: "skip_slashes xs = x # r \<Longrightarrow> x \<noteq> slash"
  by (induction xs) (auto split: if_splits)

lemma drop_name_shorter: "skip_slashes path \<noteq> [] \<Longrightarrow> length (after_name (skip_slashes path)) < length path"
proof -
  assume "skip_slashes path \<noteq> []"
  then obtain x r where r: "skip_slashes path = x # r" by (cases "skip_slashes path") auto
  then show ?thesis using skip_first [OF r] after_shorter [of r] skip_shorter [of path] by simp
qed

lemma path_parse_eq:
  "path_parse path = (let r = skip_slashes path in (if after_name r = [] then None else Some (after_name r), first_name r))"
  by (cases path) (simp_all add: path_parse_def Let_def)

lemma path_parse_shorter: "path_parse path = (Some rest, name) \<Longrightarrow> length rest < length path"
  using drop_name_shorter [of path] by (cases "skip_slashes path = []") (auto simp: path_parse_eq Let_def split: if_splits)

text \<open>The parse of what is left, with the name cleared before.\<close>

definition parse_more :: "u8 list option \<Rightarrow> u8 list option \<times> u8 list" where
  "parse_more p = (case p of None \<Rightarrow> (None, []) | Some path \<Rightarrow> path_parse path)"

definition left_over :: "u8 list option \<Rightarrow> u8 list \<Rightarrow> nat" where
  "left_over p name = (case p of None \<Rightarrow> 0 | Some path \<Rightarrow> Suc (length path)) + (if name = [] then 0 else 1)"

lemma left_over_decreases: "name \<noteq> [] \<Longrightarrow> parse_more p = (p', name') \<Longrightarrow> left_over p' name' < left_over p name"
  by (cases p; cases p') (auto simp: left_over_def parse_more_def less_SucI dest!: path_parse_shorter)

function depth_loop :: "u8 list option \<Rightarrow> u8 list \<Rightarrow> u32 \<Rightarrow> u32 option" where
  "depth_loop p name depth =
     (if name = [] then Some depth
      else do {
        let (p', name') = parse_more p;
        ASSERT (length name' \<le> MAX_FILE_NAME_LEN);
        depth_loop p' name' (depth + 1) })"
  by pat_completeness auto
termination
  by (relation "measure (\<lambda>(p, name, d). left_over p name)") (auto simp: left_over_decreases)

text \<open>The array \<open>name\<close> is not initialised; when the first parse stores nothing into it, its first byte is not known.\<close>

definition path_depth_cnt :: "u8 list \<Rightarrow> u32 option" where
  "path_depth_cnt pathname = do {
     let (p, name) = path_parse pathname;
     ASSERT (name \<noteq> [] \<and> length name \<le> MAX_FILE_NAME_LEN);
     depth_loop p name 0 }"

section \<open>Components\<close>

function components :: "u8 list \<Rightarrow> u8 list list" where
  "components path = (if skip_slashes path = [] then [] else first_name (skip_slashes path) # components (after_name (skip_slashes path)))"
  by pat_completeness auto
termination
  by (relation "measure length") (use drop_name_shorter in auto)

declare components.simps [simp del] depth_loop.simps [simp del]

definition remaining :: "u8 list option \<Rightarrow> u8 list list" where
  "remaining p = (case p of None \<Rightarrow> [] | Some path \<Rightarrow> components path)"

lemma remaining_None [simp]: "remaining None = []"
  by (simp add: remaining_def)

lemma components_cons [simp]: "components (slash # xs) = components xs"
  by (simp add: components.simps [of "slash # xs"] components.simps [of xs])

lemma components_empty [simp]: "components [] = []"
  by (simp add: components.simps)

lemma first_name_empty: "first_name (skip_slashes path) = [] \<longleftrightarrow> skip_slashes path = []"
  by (cases "skip_slashes path") (use skip_first in auto)

lemma path_parse_components:
  assumes "path_parse path = (p, name)"
  shows "components path = (if name = [] then [] else name # remaining p)" "name = [] \<Longrightarrow> p = None"
  using assms first_name_empty [of path] by (auto simp: path_parse_eq Let_def remaining_def components.simps [of path] split: if_splits)

lemma parse_more_components:
  assumes "parse_more p = (p', name')"
  shows "remaining p = (if name' = [] then [] else name' # remaining p')" "name' = [] \<Longrightarrow> p' = None"
  using assms path_parse_components by (auto simp: parse_more_def remaining_def split: option.splits)

text \<open>The loop counts what is left.\<close>

lemma depth_loop_count:
  assumes "\<forall>c \<in> set (remaining p). length c \<le> 16" "name = [] \<longrightarrow> p = None"
  shows "depth_loop p name d = Some (d + (if name = [] then 0 else 1 + of_nat (length (remaining p))))"
  using assms
proof (induction p name d rule: depth_loop.induct)
  case (1 p name d)
  show ?case
  proof (cases "name = []")
    case True
    then show ?thesis by (simp add: depth_loop.simps)
  next
    case False
    obtain p' name' where m: "parse_more p = (p', name')" by fastforce
    note parts = parse_more_components [OF m]
    then have l: "length name' \<le> MAX_FILE_NAME_LEN" using 1(2) by (cases "name' = []") (simp_all add: MAX_FILE_NAME_LEN_def)
    then have "depth_loop p name d = depth_loop p' name' (d + 1)" using False m by (simp add: depth_loop.simps [of p name d])
    moreover have "depth_loop p' name' (d + 1) = Some (d + 1 + (if name' = [] then 0 else 1 + of_nat (length (remaining p'))))"
      using 1(1) [OF False m [symmetric] refl, of "()"] 1(2) parts l by (cases "name' = []") (simp_all add: ASSERT_def)
    ultimately show ?thesis using False parts(1) by (simp add: add.assoc)
  qed
qed

text \<open>The places where a name begins; \<open>b\<close> tells whether a slash or the beginning of the path is before the list.\<close>

definition name_starts :: "bool \<Rightarrow> u8 list \<Rightarrow> nat set" where
  "name_starts b path = {i. i < length path \<and> path ! i \<noteq> slash \<and> (if i = 0 then b else path ! (i - 1) = slash)}"

lemma name_starts_set: "{i. i < length path \<and> path ! i \<noteq> slash \<and> (i = 0 \<or> path ! (i - 1) = slash)} = name_starts True path"
  by (auto simp: name_starts_def)

lemma name_starts_cons: "name_starts b (c # cs) = (if c \<noteq> slash \<and> b then {0} else {}) \<union> Suc ` name_starts (c = slash) cs"
proof -
  have "i \<in> name_starts b (c # cs) \<longleftrightarrow> i \<in> (if c \<noteq> slash \<and> b then {0} else {}) \<union> Suc ` name_starts (c = slash) cs" for i
    by (cases i; cases "i - 1") (auto simp: name_starts_def image_iff)
  then show ?thesis by blast
qed

lemma name_starts_count: "card (name_starts b (c # cs)) = (if c \<noteq> slash \<and> b then 1 else 0) + card (name_starts (c = slash) cs)"
proof -
  have "finite (name_starts b cs)" for b by (simp add: name_starts_def)
  then show ?thesis by (auto simp: name_starts_cons card_image card_insert_if)
qed

lemma name_starts_empty [simp]: "name_starts b [] = {}"
  by (simp add: name_starts_def)

lemma name_starts_skip: "card (name_starts True (skip_slashes xs)) = card (name_starts True xs)"
  by (induction xs) (simp_all add: name_starts_count)

lemma name_starts_after: "card (name_starts True (after_name xs)) = card (name_starts False xs)"
  by (induction xs) (simp_all add: name_starts_count)

lemma components_count: "length (components path) = card (name_starts True path)"
proof (induction path rule: components.induct)
  case (1 path)
  show ?case
  proof (cases "skip_slashes path")
    case Nil
    then show ?thesis using name_starts_skip [of path] by (simp add: components.simps [of path])
  next
    case (Cons x r)
    then have "length (components path) = Suc (card (name_starts False r))"
      using 1 skip_first [OF Cons] name_starts_after [of r] by (simp add: components.simps [of path])
    then show ?thesis using name_starts_skip [of path] Cons skip_first [OF Cons] by (simp add: name_starts_count)
  qed
qed

section \<open>Claims\<close>

text \<open>
  C40. Depth of a path. For a path with at least one component and no component of more than 16 bytes, \<open>path_depth_cnt\<close> returns the number of components, that is the number of
  places where a name begins: bytes other than a slash at the beginning of the path or behind a slash. Repeated slashes and a slash at the end do not count.
\<close>

theorem path_depth_counts:
  assumes "components path \<noteq> []" "\<forall>c \<in> set (components path). length c \<le> 16"
  shows "path_depth_cnt path = Some (of_nat (card {i. i < length path \<and> path ! i \<noteq> slash \<and> (i = 0 \<or> path ! (i - 1) = slash)}))"
proof -
  obtain p name where parse: "path_parse path = (p, name)" by fastforce
  note parts = path_parse_components [OF parse]
  have ne: "name \<noteq> []" using parts(1) assms(1) by auto
  have "\<forall>c \<in> set (remaining p). length c \<le> 16" "length name \<le> MAX_FILE_NAME_LEN" using parts(1) ne assms(2) by (auto simp: MAX_FILE_NAME_LEN_def)
  then have "path_depth_cnt path = Some (of_nat (length (components path)))"
    using parse ne parts depth_loop_count [of p name 0] by (simp add: path_depth_cnt_def)
  then show ?thesis using components_count [of path] by (simp only: name_starts_set)
qed

theorem path_depth_counts_witness: "path_depth_cnt [47, 47, 97, 98, 47, 99, 47] = Some 2"
proof -
  let ?p = "[47, 47, 97, 98, 47, 99, 47] :: u8 list"
  have c: "components ?p = [[97, 98], [99]]" by (simp add: components.simps slash_def)
  show ?thesis using path_depth_counts [of ?p] components_count [of ?p, symmetric] by (simp only: name_starts_set) (simp add: c)
qed

end
