(* ===== verification/Fs.thy ===== *)
theory Fs
  imports Path
begin

text \<open>
  \<^verbatim>\<open>fs/fs.c\<close>: formatting and mounting a partition, walking along a path, and the system calls on files and directories. The arguments \<open>others\<close> and the treatment of buffers
  and messages are as in the other theories of the file system; a path is a list of bytes. The results \<open>-1\<close> and \<open>NULL\<close> are those of the code.

  The lemmas show the layout of a formatted partition, and the bounds of positions in a file.
\<close>

section \<open>Formatting\<close>

text \<open>The super block of a partition and the number of its data blocks.\<close>

definition block_bitmap_bit_len :: "u32 \<Rightarrow> u32" where
  "block_bitmap_bit_len sects =
     (let inode_bitmap_s = DIV_ROUND_UP MAX_FILES_PER_PART BITS_PER_SECTOR;
          inode_table_s = DIV_ROUND_UP (76 * MAX_FILES_PER_PART) 512;
          used_sects = 1 + 1 + inode_bitmap_s + inode_table_s;
          free_sects = sects - used_sects
      in free_sects - DIV_ROUND_UP free_sects BITS_PER_SECTOR)"

definition format_sb :: "partition \<Rightarrow> super_block" where
  "format_sb part =
     (let inode_bitmap_s = DIV_ROUND_UP MAX_FILES_PER_PART BITS_PER_SECTOR;
          inode_table_s = DIV_ROUND_UP (76 * MAX_FILES_PER_PART) 512;
          block_bitmap_s = DIV_ROUND_UP (block_bitmap_bit_len (sec_cnt part)) BITS_PER_SECTOR;
          bb_lba = start_lba part + 2;
          ib_lba = bb_lba + block_bitmap_s;
          it_lba = ib_lba + inode_bitmap_s
      in \<lparr>magic = 0x19590318, sb_sec_cnt = sec_cnt part, inode_cnt = MAX_FILES_PER_PART, part_lba_base = start_lba part,
          block_bitmap_lba = bb_lba, block_bitmap_sects = block_bitmap_s, inode_bitmap_lba = ib_lba, inode_bitmap_sects = inode_bitmap_s,
          inode_table_lba = it_lba, inode_table_sects = inode_table_s, data_start_lba = it_lba + inode_table_s, root_inode_no = 0, dir_entry_size = 24\<rparr>)"

text \<open>Clearing the lowest \<open>n\<close> bits of a byte, one after the other.\<close>

primrec clear_bits :: "nat \<Rightarrow> u8 \<Rightarrow> u8" where
  "clear_bits 0 b = b"
| "clear_bits (Suc n) b = clear_bits n b AND NOT (push_bit n 1)"

definition block_bitmap_image :: "u32 \<Rightarrow> u8 list \<Rightarrow> u8 list option" where
  "block_bitmap_image bit_len buf = do {
     buf \<leftarrow> put_at 0 [hd buf OR 1] buf;
     let last_byte = unat (bit_len div 8);
     let last_bit = unat (bit_len mod 8);
     let last_size = 512 - last_byte mod 512;
     buf \<leftarrow> put_at last_byte (replicate last_size 0xff) buf;
     put_at last_byte [clear_bits (Suc last_bit) (buf ! last_byte)] buf }"

definition dot_entries :: "u32 \<Rightarrow> u32 \<Rightarrow> u8 list" where
  "dot_entries self parent =
     entry_bytes \<lparr>filename = 46 # replicate 15 0, de_i_no = self, f_type = FT_DIRECTORY\<rparr> @
     entry_bytes \<lparr>filename = 46 # 46 # replicate 14 0, de_i_no = parent, f_type = FT_DIRECTORY\<rparr>"

text \<open>The five areas of a partition in the order in which they are written, with a buffer of \<open>n\<close> zero bytes for all but the super block. The padding of the super block, a local
  variable, is not initialised: it is the parameter \<open>pad\<close>.\<close>

definition format_super :: "u8 list \<Rightarrow> addr \<Rightarrow> 'a fsys_scheme \<Rightarrow> 'a fsys_scheme option" where
  "format_super pad part s = disk_write (my_disk (parts s part)) (start_lba (parts s part) + 1) (sb_bytes (format_sb (parts s part)) pad) 1 s"

definition format_areas :: "nat \<Rightarrow> addr \<Rightarrow> 'a fsys_scheme \<Rightarrow> 'a fsys_scheme option" where
  "format_areas n part s = do {
     let b = format_sb (parts s part);
     let dk = my_disk (parts s part);
     let zeros = replicate n 0;
     image \<leftarrow> block_bitmap_image (block_bitmap_bit_len (sec_cnt (parts s part))) zeros;
     s \<leftarrow> disk_write dk (block_bitmap_lba b) image (block_bitmap_sects b) s;
     image \<leftarrow> put_at 0 [1] zeros;
     s \<leftarrow> disk_write dk (inode_bitmap_lba b) image (inode_bitmap_sects b) s;
     image \<leftarrow> put_at 0 (inode_bytes (inode_init 0\<lparr>i_size := dir_entry_size b * 2, i_sectors := data_start_lba b # replicate 12 0\<rparr>)) zeros;
     s \<leftarrow> disk_write dk (inode_table_lba b) image (inode_table_sects b) s;
     image \<leftarrow> put_at 0 (dot_entries 0 0) zeros;
     disk_write dk (data_start_lba b) image 1 s }"

definition format_buf_size :: "super_block \<Rightarrow> u32" where
  "format_buf_size b =
     (let n = (if inode_bitmap_sects b \<le> block_bitmap_sects b then block_bitmap_sects b else inode_bitmap_sects b)
      in (if inode_table_sects b \<le> n then n else inode_table_sects b) * 512)"

definition partition_format ::
    "(addr \<Rightarrow> 'a fsys_scheme \<Rightarrow> 'a fsys_scheme option) \<Rightarrow> u8 list \<Rightarrow> addr \<Rightarrow> 'a fsys_scheme \<Rightarrow> 'a fsys_scheme option" where
  "partition_format others pad part s = do {
     s \<leftarrow> format_super pad part s;
     let buf_size = format_buf_size (format_sb (parts s part));
     (buf, s) \<leftarrow> sys_malloc others buf_size s;
     ASSERT (buf \<noteq> NULL);
     s \<leftarrow> format_areas (unat buf_size) part s;
     sys_free others buf s }"

section \<open>Mounting\<close>

text \<open>The link cell of a partition is at offset 12, its name at offset 20.\<close>

definition mount_partition ::
    "(addr \<Rightarrow> 'a fsys_scheme \<Rightarrow> 'a fsys_scheme option) \<Rightarrow> addr \<Rightarrow> u32 \<Rightarrow> 'a fsys_scheme \<Rightarrow> (bool \<times> 'a fsys_scheme) option" where
  "mount_partition others pelem arg s = do {
     let part = pelem - 12;
     c \<leftarrow> strcmp (part + 20) arg (mem s);
     (if c = 0 then do {
        let s = s\<lparr>cur_part := part\<rparr>;
        let dk = my_disk (parts s part);
        (sb_buf, s) \<leftarrow> sys_malloc others 512 s;
        (sb_ptr, s) \<leftarrow> sys_malloc others 512 s;
        ASSERT (sb_ptr \<noteq> NULL);
        ASSERT (sb_buf \<noteq> NULL);
        sec \<leftarrow> disk_read dk (start_lba (parts s part) + 1) 1 s;
        let b = bytes_sb sec;
        let s = upd_part part (\<lambda>p. p\<lparr>sb := b\<rparr>) s;
        (bb, s) \<leftarrow> sys_malloc others (block_bitmap_sects b * 512) s;
        ASSERT (bb \<noteq> NULL);
        let s = upd_part part (\<lambda>p. p\<lparr>block_bitmap := \<lparr>btmp_bytes_len = block_bitmap_sects b * 512, bits = bb\<rparr>\<rparr>) s;
        image \<leftarrow> disk_read dk (block_bitmap_lba b) (block_bitmap_sects b) s;
        let s = s\<lparr>mem := mem_put bb image (mem s)\<rparr>;
        (ib, s) \<leftarrow> sys_malloc others (inode_bitmap_sects b * 512) s;
        ASSERT (ib \<noteq> NULL);
        let s = upd_part part (\<lambda>p. p\<lparr>inode_bitmap := \<lparr>btmp_bytes_len = inode_bitmap_sects b * 512, bits = ib\<rparr>\<rparr>) s;
        image \<leftarrow> disk_read dk (inode_bitmap_lba b) (inode_bitmap_sects b) s;
        let s = s\<lparr>mem := mem_put ib image (mem s)\<rparr>;
        Some (True, list_init (open_inodes part) s) }
      else Some (False, s)) }"

section \<open>Walking along a path\<close>

text \<open>The result of the loop: \<open>Inl\<close> for a return from inside it, with the inode number; \<open>Inr\<close> for its end, with the entry found last and the inode number of the parent.\<close>

function search_loop ::
    "(addr \<Rightarrow> 'a fsys_scheme \<Rightarrow> 'a fsys_scheme option) \<Rightarrow> u8 list option \<Rightarrow> u8 list \<Rightarrow> addr \<Rightarrow> u32 \<Rightarrow> dir_entry option \<Rightarrow> path_search_record \<Rightarrow> 'a fsys_scheme \<Rightarrow>
     ((u32 + (dir_entry option \<times> u32)) \<times> path_search_record \<times> 'a fsys_scheme) option" where
  "search_loop others sub_path name parent_d parent_inode_no dir_e r s =
     (if name = [] then Some (Inr (dir_e, parent_inode_no), r, s)
      else do {
        ASSERT (length name < MAX_FILE_NAME_LEN);
        ASSERT (length (searched_path r) < 512);
        let r = r\<lparr>searched_path := searched_path r @ [slash] @ name\<rparr>;
        (found, s) \<leftarrow> search_dir_entry others (cur_part s) parent_d name s;
        (case found of
           None \<Rightarrow> Some (Inl (- 1), r, s)
         | Some e \<Rightarrow> do {
             let (sub_path', name') = parse_more sub_path;
             ASSERT (length name' \<le> MAX_FILE_NAME_LEN);
             (if f_type e = FT_DIRECTORY then do {
                let parent_inode_no = i_no (inodes s (dir_inode (dirs s parent_d)));
                s \<leftarrow> dir_close others parent_d s;
                (parent_d, s) \<leftarrow> dir_open others (cur_part s) (de_i_no e) s;
                search_loop others sub_path' name' parent_d parent_inode_no (Some e) (r\<lparr>parent_dir := parent_d\<rparr>) s }
              else if f_type e = FT_REGULAR then Some (Inl (de_i_no e), r\<lparr>file_type := FT_REGULAR\<rparr>, s)
              else search_loop others sub_path' name' parent_d parent_inode_no (Some e) r s) }) })"
  by pat_completeness auto
termination
  by (relation "measure (\<lambda>(others, p, name, d, no, e, r, s). left_over p name)") (auto simp: left_over_decreases)

declare search_loop.simps [simp del]

definition root_paths :: "u8 list set" where
  "root_paths = {[47], [47, 46], [47, 46, 46]}"

definition search_file ::
    "(addr \<Rightarrow> 'a fsys_scheme \<Rightarrow> 'a fsys_scheme option) \<Rightarrow> u8 list \<Rightarrow> path_search_record \<Rightarrow> 'a fsys_scheme \<Rightarrow> (u32 \<times> path_search_record \<times> 'a fsys_scheme) option" where
  "search_file others pathname r s =
     (if pathname \<in> root_paths then Some (0, \<lparr>searched_path = [], parent_dir = root_dir s, file_type = FT_DIRECTORY\<rparr>, s)
      else do {
        ASSERT (pathname \<noteq> [] \<and> hd pathname = slash \<and> 1 < length pathname \<and> length pathname < MAX_PATH_LEN);
        let r = r\<lparr>parent_dir := root_dir s, file_type := FT_UNKNOWN\<rparr>;
        let (sub_path, name) = path_parse pathname;
        ASSERT (length name \<le> MAX_FILE_NAME_LEN);
        (res, r, s) \<leftarrow> search_loop others sub_path name (root_dir s) 0 None r s;
        (case res of
           Inl no \<Rightarrow> Some (no, r, s)
         | Inr (dir_e, parent_inode_no) \<Rightarrow> do {
             s \<leftarrow> dir_close others (parent_dir r) s;
             (d, s) \<leftarrow> dir_open others (cur_part s) parent_inode_no s;
             e \<leftarrow> dir_e;
             Some (de_i_no e, r\<lparr>parent_dir := d, file_type := FT_DIRECTORY\<rparr>, s) }) })"

definition empty_record :: path_search_record where
  "empty_record = \<lparr>searched_path = [], parent_dir = NULL, file_type = 0\<rparr>"

text \<open>\<open>strrchr(path, '/') + 1\<close>\<close>

definition last_name :: "u8 list \<Rightarrow> u8 list option" where
  "last_name path = do {
     ASSERT (slash \<in> set path);
     Some (rev (first_name (rev path))) }"

section \<open>Files\<close>

definition sys_open ::
    "(addr \<Rightarrow> 'a fsys_scheme \<Rightarrow> 'a fsys_scheme option) \<Rightarrow> u8 list \<Rightarrow> u8 \<Rightarrow> 'a fsys_scheme \<Rightarrow> (u32 \<times> 'a fsys_scheme) option" where
  "sys_open others pathname flags s = do {
     ASSERT (pathname \<noteq> []);
     (if last pathname = slash then Some (- 1, s)
      else do {
        ASSERT (flags \<le> 7);
        pathname_depth \<leftarrow> path_depth_cnt pathname;
        (inode_no, r, s) \<leftarrow> search_file others pathname empty_record s;
        let found = (inode_no \<noteq> - 1);
        (if file_type r = FT_DIRECTORY then do {
           s \<leftarrow> dir_close others (parent_dir r) s;
           Some (- 1, s) }
         else do {
           path_searched_depth \<leftarrow> path_depth_cnt (searched_path r);
           (if pathname_depth \<noteq> path_searched_depth then do {
              s \<leftarrow> dir_close others (parent_dir r) s;
              Some (- 1, s) }
            else if \<not> found \<and> \<not> ucast flags AND O_CREAT \<noteq> 0 then do {
              s \<leftarrow> dir_close others (parent_dir r) s;
              Some (- 1, s) }
            else if found \<and> ucast flags AND O_CREAT \<noteq> 0 then do {
              s \<leftarrow> dir_close others (parent_dir r) s;
              Some (- 1, s) }
            else if ucast flags AND O_CREAT = O_CREAT then do {
              name \<leftarrow> last_name pathname;
              (fd, s) \<leftarrow> file_create others (parent_dir r) name flags s;
              s \<leftarrow> dir_close others (parent_dir r) s;
              Some (fd, s) }
            else file_open others inode_no flags s) }) }) }"

definition fd_local2global :: "u32 \<Rightarrow> 'a fsys_scheme \<Rightarrow> nat option" where
  "fd_local2global local_fd s = do {
     ASSERT (unat local_fd < MAX_FILES_OPEN_PER_PROC);
     let global_fd = fd_table (tasks s (running_thread s)) ! unat local_fd;
     ASSERT (0 \<le> sint global_fd \<and> sint global_fd < int MAX_FILE_OPEN);
     Some (unat global_fd) }"

definition sys_close ::
    "(addr \<Rightarrow> 'a fsys_scheme \<Rightarrow> 'a fsys_scheme option) \<Rightarrow> u32 \<Rightarrow> 'a fsys_scheme \<Rightarrow> (u32 \<times> 'a fsys_scheme) option" where
  "sys_close others fd s =
     (if 2 < sint fd then do {
        g \<leftarrow> fd_local2global fd s;
        (ret, s) \<leftarrow> file_close others (Some g) s;
        Some (ret, upd_task (running_thread s) (\<lambda>t. t\<lparr>fd_table := (fd_table t)[unat fd := - 1]\<rparr>) s) }
      else Some (- 1, s))"

text \<open>Text for the screen is copied to an array of 1024 bytes that is cleared before, at the address \<open>tmp_buf\<close>.\<close>

definition sys_write ::
    "(addr \<Rightarrow> 'a fsys_scheme \<Rightarrow> 'a fsys_scheme option) \<Rightarrow> addr \<Rightarrow> u32 \<Rightarrow> addr \<Rightarrow> u32 \<Rightarrow> 'a fsys_scheme \<Rightarrow> (u32 \<times> 'a fsys_scheme) option" where
  "sys_write others tmp_buf fd buf count s =
     (if sint fd < 0 then Some (- 1, s)
      else if fd = 1 then do {
        ASSERT (tmp_buf \<noteq> NULL \<and> buf \<noteq> NULL \<and> count < 1024);
        let s = s\<lparr>mem := mem_put tmp_buf (replicate 1024 0) (mem s)\<rparr>;
        let s = s\<lparr>mem := mem_put tmp_buf (mem_bytes (mem s) buf (unat count)) (mem s)\<rparr>;
        s \<leftarrow> console_put_str others tmp_buf s;
        Some (count, s) }
      else do {
        g \<leftarrow> fd_local2global fd s;
        (if fd_flag (file_table s ! g) AND O_WRONLY \<noteq> 0 \<or> fd_flag (file_table s ! g) AND O_RDWR \<noteq> 0 then file_write others g buf count s
         else Some (- 1, s)) })"

definition sys_read ::
    "(addr \<Rightarrow> 'a fsys_scheme \<Rightarrow> 'a fsys_scheme option) \<Rightarrow> u32 \<Rightarrow> addr \<Rightarrow> u32 \<Rightarrow> 'a fsys_scheme \<Rightarrow> (u32 \<times> 'a fsys_scheme) option" where
  "sys_read others fd buf count s =
     (if sint fd < 0 then Some (- 1, s)
      else do {
        ASSERT (buf \<noteq> NULL);
        g \<leftarrow> fd_local2global fd s;
        file_read others g buf count s })"

definition sys_lseek :: "u32 \<Rightarrow> u32 \<Rightarrow> u8 \<Rightarrow> 'a fsys_scheme \<Rightarrow> (u32 \<times> 'a fsys_scheme) option" where
  "sys_lseek fd offset whence s =
     (if sint fd < 0 then Some (- 1, s)
      else do {
        ASSERT (0 < whence \<and> whence < 4);
        g \<leftarrow> fd_local2global fd s;
        let pf = file_table s ! g;
        let file_size = i_size (inodes s (fd_inode pf));
        let new_pos = (if whence = SEEK_SET then offset else if whence = SEEK_CUR then fd_pos pf + offset else file_size + offset);
        (if sint new_pos < 0 \<or> sint (file_size - 1) < sint new_pos then Some (- 1, s)
         else Some (new_pos, upd_file g (\<lambda>f. f\<lparr>fd_pos := new_pos\<rparr>) s)) })"

definition sys_unlink ::
    "(addr \<Rightarrow> 'a fsys_scheme \<Rightarrow> 'a fsys_scheme option) \<Rightarrow> u8 list \<Rightarrow> 'a fsys_scheme \<Rightarrow> (u32 \<times> 'a fsys_scheme) option" where
  "sys_unlink others pathname s = do {
     ASSERT (length pathname < MAX_PATH_LEN);
     (inode_no, r, s) \<leftarrow> search_file others pathname empty_record s;
     ASSERT (inode_no \<noteq> 0);
     (if inode_no = - 1 then do {
        s \<leftarrow> dir_close others (parent_dir r) s;
        Some (- 1, s) }
      else if file_type r = FT_DIRECTORY then do {
        s \<leftarrow> dir_close others (parent_dir r) s;
        Some (- 1, s) }
      else if list_ex (\<lambda>f. fd_inode f \<noteq> NULL \<and> inode_no = i_no (inodes s (fd_inode f))) (file_table s) then do {
        s \<leftarrow> dir_close others (parent_dir r) s;
        Some (- 1, s) }
      else do {
        (io_buf, s) \<leftarrow> sys_malloc others 1024 s;
        (if io_buf = NULL then do {
           s \<leftarrow> dir_close others (parent_dir r) s;
           Some (- 1, s) }
         else do {
           (_, s) \<leftarrow> delete_dir_entry (cur_part s) (parent_dir r) inode_no s;
           s \<leftarrow> inode_release others (cur_part s) inode_no s;
           s \<leftarrow> sys_free others io_buf s;
           s \<leftarrow> dir_close others (parent_dir r) s;
           Some (0, s) }) }) }"

section \<open>Directories\<close>

text \<open>The steps at the label \<open>rollback\<close> of \<open>sys_mkdir\<close>; the cases fall through.\<close>

definition mkdir_rollback ::
    "(addr \<Rightarrow> 'a fsys_scheme \<Rightarrow> 'a fsys_scheme option) \<Rightarrow> nat \<Rightarrow> u32 \<Rightarrow> addr \<Rightarrow> addr \<Rightarrow> 'a fsys_scheme \<Rightarrow> (u32 \<times> 'a fsys_scheme) option" where
  "mkdir_rollback others rollback_step inode_no parent_d io_buf s = do {
     s \<leftarrow> (if rollback_step = 2 then inode_bit_clear (cur_part s) inode_no s else Some s);
     s \<leftarrow> dir_close others parent_d s;
     s \<leftarrow> sys_free others io_buf s;
     Some (- 1, s) }"

text \<open>From the allocation of an inode number on.\<close>

definition mkdir_new ::
    "(addr \<Rightarrow> 'a fsys_scheme \<Rightarrow> 'a fsys_scheme option) \<Rightarrow> u8 list \<Rightarrow> addr \<Rightarrow> addr \<Rightarrow> 'a fsys_scheme \<Rightarrow> (u32 \<times> 'a fsys_scheme) option" where
  "mkdir_new others dirname parent_d io_buf s = do {
     (inode_no, s) \<leftarrow> inode_bitmap_alloc (cur_part s) s;
     (if inode_no = - 1 then mkdir_rollback others 1 inode_no parent_d io_buf s
      else do {
        let new_dir_inode = inode_init inode_no;
        (block_lba, s) \<leftarrow> block_bitmap_alloc (cur_part s) s;
        (if block_lba = - 1 then mkdir_rollback others 2 inode_no parent_d io_buf s
         else do {
           let new_dir_inode = new_dir_inode\<lparr>i_sectors := (i_sectors new_dir_inode)[0 := block_lba]\<rparr>;
           let block_bitmap_idx = block_lba - data_start_lba (sb (parts s (cur_part s)));
           ASSERT (block_bitmap_idx \<noteq> 0);
           s \<leftarrow> bitmap_sync (cur_part s) block_bitmap_idx BLOCK_BITMAP s;
           let parent_no = i_no (inodes s (dir_inode (dirs s parent_d)));
           s \<leftarrow> disk_write (my_disk (parts s (cur_part s))) block_lba (dot_entries inode_no parent_no @ replicate 976 0) 1 s;
           let new_dir_inode = new_dir_inode\<lparr>i_size := 2 * dir_entry_size (sb (parts s (cur_part s)))\<rparr>;
           new_dir_entry \<leftarrow> create_dir_entry dirname inode_no (ucast FT_DIRECTORY) blank_entry;
           (ok, s) \<leftarrow> sync_dir_entry parent_d new_dir_entry s;
           (if \<not> ok then mkdir_rollback others 2 inode_no parent_d io_buf s
            else do {
              s \<leftarrow> inode_sync (cur_part s) (inodes s (dir_inode (dirs s parent_d))) 1024 s;
              s \<leftarrow> inode_sync (cur_part s) new_dir_inode 1024 s;
              s \<leftarrow> bitmap_sync (cur_part s) inode_no INODE_BITMAP s;
              s \<leftarrow> sys_free others io_buf s;
              s \<leftarrow> dir_close others parent_d s;
              Some (0, s) }) }) }) }"

definition sys_mkdir ::
    "(addr \<Rightarrow> 'a fsys_scheme \<Rightarrow> 'a fsys_scheme option) \<Rightarrow> u8 list \<Rightarrow> 'a fsys_scheme \<Rightarrow> (u32 \<times> 'a fsys_scheme) option" where
  "sys_mkdir others pathname s = do {
     (io_buf, s) \<leftarrow> sys_malloc others 1024 s;
     (if io_buf = NULL then Some (- 1, s)
      else do {
        (inode_no, r, s) \<leftarrow> search_file others pathname empty_record s;
        (if inode_no \<noteq> - 1 then mkdir_rollback others 1 inode_no (parent_dir r) io_buf s
         else do {
           pathname_depth \<leftarrow> path_depth_cnt pathname;
           path_searched_depth \<leftarrow> path_depth_cnt (searched_path r);
           (if pathname_depth \<noteq> path_searched_depth then mkdir_rollback others 1 inode_no (parent_dir r) io_buf s
            else do {
              dirname \<leftarrow> last_name (searched_path r);
              mkdir_new others dirname (parent_dir r) io_buf s }) }) }) }"

text \<open>The second disjunct of the test for the root directory, \<open>name[0] == '.'\<close>, is never true.\<close>

definition sys_opendir ::
    "(addr \<Rightarrow> 'a fsys_scheme \<Rightarrow> 'a fsys_scheme option) \<Rightarrow> u8 list \<Rightarrow> 'a fsys_scheme \<Rightarrow> (addr \<times> 'a fsys_scheme) option" where
  "sys_opendir others name s = do {
     ASSERT (length name < MAX_PATH_LEN);
     (if name \<noteq> [] \<and> hd name = slash \<and> (tl name = [] \<or> hd name = 46) then Some (root_dir s, s)
      else do {
        (inode_no, r, s) \<leftarrow> search_file others name empty_record s;
        (ret, s) \<leftarrow> (if inode_no \<noteq> - 1 \<and> file_type r \<noteq> FT_REGULAR \<and> file_type r = FT_DIRECTORY
                    then dir_open others (cur_part s) inode_no s else Some (NULL, s));
        s \<leftarrow> dir_close others (parent_dir r) s;
        Some (ret, s) }) }"

definition sys_closedir ::
    "(addr \<Rightarrow> 'a fsys_scheme \<Rightarrow> 'a fsys_scheme option) \<Rightarrow> addr \<Rightarrow> 'a fsys_scheme \<Rightarrow> (u32 \<times> 'a fsys_scheme) option" where
  "sys_closedir others d s =
     (if d \<noteq> NULL then do {
        s \<leftarrow> dir_close others d s;
        Some (0, s) }
      else Some (- 1, s))"

definition sys_readdir :: "addr \<Rightarrow> 'a fsys_scheme \<Rightarrow> (dir_entry option \<times> 'a fsys_scheme) option" where
  "sys_readdir d s = do {
     ASSERT (d \<noteq> NULL);
     dir_read d s }"

definition sys_rewinddir :: "addr \<Rightarrow> 'a fsys_scheme \<Rightarrow> 'a fsys_scheme" where
  "sys_rewinddir d s = upd_dir d (\<lambda>x. x\<lparr>dir_pos := 0\<rparr>) s"

definition sys_rmdir ::
    "(addr \<Rightarrow> 'a fsys_scheme \<Rightarrow> 'a fsys_scheme option) \<Rightarrow> u8 list \<Rightarrow> 'a fsys_scheme \<Rightarrow> (u32 \<times> 'a fsys_scheme) option" where
  "sys_rmdir others pathname s = do {
     (inode_no, r, s) \<leftarrow> search_file others pathname empty_record s;
     ASSERT (inode_no \<noteq> 0);
     (retval, s) \<leftarrow> (if inode_no = - 1 \<or> file_type r = FT_REGULAR then Some (- 1, s)
        else do {
          (d, s) \<leftarrow> dir_open others (cur_part s) inode_no s;
          (retval, s) \<leftarrow> (if \<not> dir_is_empty d s then Some (- 1, s)
             else do {
               (res, s) \<leftarrow> dir_remove others (parent_dir r) d s;
               Some (if res = 0 then 0 else - 1, s) });
          s \<leftarrow> dir_close others d s;
          Some (retval, s) });
     s \<leftarrow> dir_close others (parent_dir r) s;
     Some (retval, s) }"

section \<open>The working directory\<close>

definition get_parent_dir_inode_nr ::
    "(addr \<Rightarrow> 'a fsys_scheme \<Rightarrow> 'a fsys_scheme option) \<Rightarrow> u32 \<Rightarrow> 'a fsys_scheme \<Rightarrow> (u32 \<times> 'a fsys_scheme) option" where
  "get_parent_dir_inode_nr others child_inode_nr s = do {
     (p, s) \<leftarrow> inode_open others (cur_part s) child_inode_nr s;
     let block_lba = i_sectors (inodes s p) ! 0;
     ASSERT (data_start_lba (sb (parts s (cur_part s))) \<le> block_lba);
     s \<leftarrow> inode_close others p s;
     io_buf \<leftarrow> disk_read (my_disk (parts s (cur_part s))) block_lba 1 s;
     ASSERT (de_i_no (entry_at 1 io_buf) < 4096 \<and> f_type (entry_at 1 io_buf) = FT_DIRECTORY);
     Some (de_i_no (entry_at 1 io_buf), s) }"

text \<open>The name of the entry with an inode number, read up to the first zero byte.\<close>

fun child_name_in :: "addr \<Rightarrow> u32 \<Rightarrow> nat \<Rightarrow> u32 list \<Rightarrow> 'a fsys_scheme \<Rightarrow> u8 list option option" where
  "child_name_in dk no cnt [] s = Some None"
| "child_name_in dk no cnt (b # bs) s =
     (if b \<noteq> 0 then do {
        io_buf \<leftarrow> disk_read dk b 1 s;
        (case List.find (\<lambda>k. de_i_no (entry_at k io_buf) = no) [0..<cnt] of
           Some k \<Rightarrow> Some (Some (takeWhile (\<lambda>c. c \<noteq> 0) (drop (24 * k) io_buf)))
         | None \<Rightarrow> child_name_in dk no cnt bs s) }
      else child_name_in dk no cnt bs s)"

text \<open>The path is the result on success; the array for it has 512 bytes.\<close>

definition get_child_dir_name ::
    "(addr \<Rightarrow> 'a fsys_scheme \<Rightarrow> 'a fsys_scheme option) \<Rightarrow> u32 \<Rightarrow> u32 \<Rightarrow> u8 list \<Rightarrow> 'a fsys_scheme \<Rightarrow> (u8 list option \<times> 'a fsys_scheme) option" where
  "get_child_dir_name others p_inode_nr c_inode_nr path s = do {
     (p, s) \<leftarrow> inode_open others (cur_part s) p_inode_nr s;
     let i = inodes s p;
     all_blocks \<leftarrow> (if i_sectors i ! 12 \<noteq> 0 then all_blocks_of (cur_part s) i s else Some (take 12 (i_sectors i)));
     s \<leftarrow> inode_close others p s;
     per_sec \<leftarrow> entries_per_sec (sb (parts s (cur_part s)));
     r \<leftarrow> child_name_in (my_disk (parts s (cur_part s))) c_inode_nr per_sec all_blocks s;
     (case r of
        None \<Rightarrow> Some (None, s)
      | Some name \<Rightarrow> do {
          ASSERT (length path + 1 + length name < MAX_PATH_LEN);
          Some (Some (path @ [slash] @ name), s) }) }"

partial_function (option) cwd_loop ::
    "(addr \<Rightarrow> 'a fsys_scheme \<Rightarrow> 'a fsys_scheme option) \<Rightarrow> u32 \<Rightarrow> u8 list \<Rightarrow> 'a fsys_scheme \<Rightarrow> (u8 list option \<times> 'a fsys_scheme) option" where
  "cwd_loop others child_inode_nr full_path_reverse s =
     (if child_inode_nr = 0 then Some (Some full_path_reverse, s)
      else do {
        (parent_inode_nr, s) \<leftarrow> get_parent_dir_inode_nr others child_inode_nr s;
        (r, s) \<leftarrow> get_child_dir_name others parent_inode_nr child_inode_nr full_path_reverse s;
        (case r of
           None \<Rightarrow> Some (None, s)
         | Some path \<Rightarrow> cwd_loop others parent_inode_nr path s) })"

text \<open>The loop that moves the last component of the one string to the end of the other.\<close>

function reverse_path :: "u8 list \<Rightarrow> u8 list \<Rightarrow> u8 list" where
  "reverse_path full_path_reverse buf =
     (if slash \<in> set full_path_reverse then
        reverse_path (rev (tl (after_name (rev full_path_reverse)))) (buf @ [slash] @ rev (first_name (rev full_path_reverse)))
      else buf)"
  by pat_completeness auto
termination
proof (relation "measure (\<lambda>(a, b). length a)")
  fix a b :: "u8 list"
  assume "slash \<in> set a"
  then have "a \<noteq> []" by auto
  then have "length (tl (after_name (rev a))) < length a" using after_shorter [of "rev a"] by (cases "after_name (rev a)") auto
  then show "((rev (tl (after_name (rev a))), b @ [slash] @ rev (first_name (rev a))), a, b) \<in> measure (\<lambda>(a, b). length a)" by simp
qed simp

declare reverse_path.simps [simp del]

definition sys_getcwd ::
    "(addr \<Rightarrow> 'a fsys_scheme \<Rightarrow> 'a fsys_scheme option) \<Rightarrow> addr \<Rightarrow> u32 \<Rightarrow> 'a fsys_scheme \<Rightarrow> (addr \<times> 'a fsys_scheme) option" where
  "sys_getcwd others buf sz s = do {
     ASSERT (buf \<noteq> NULL);
     (io_buf, s) \<leftarrow> sys_malloc others 512 s;
     (if io_buf = NULL then Some (NULL, s)
      else do {
        let child_inode_nr = cwd_inode_nr (tasks s (running_thread s));
        ASSERT (0 \<le> sint child_inode_nr \<and> sint child_inode_nr < 4096);
        (if child_inode_nr = 0 then Some (buf, s\<lparr>mem := mem_put buf [slash, 0] (mem s)\<rparr>)
         else do {
           let s = s\<lparr>mem := mem_put buf (replicate (unat sz) 0) (mem s)\<rparr>;
           (r, s) \<leftarrow> cwd_loop others child_inode_nr [] s;
           (case r of
              None \<Rightarrow> do {
                s \<leftarrow> sys_free others io_buf s;
                Some (NULL, s) }
            | Some full_path_reverse \<Rightarrow> do {
                ASSERT (length full_path_reverse \<le> unat sz);
                let s = s\<lparr>mem := mem_put buf (reverse_path full_path_reverse [] @ [0]) (mem s)\<rparr>;
                s \<leftarrow> sys_free others io_buf s;
                Some (buf, s) }) }) }) }"

definition sys_chdir ::
    "(addr \<Rightarrow> 'a fsys_scheme \<Rightarrow> 'a fsys_scheme option) \<Rightarrow> u8 list \<Rightarrow> 'a fsys_scheme \<Rightarrow> (u32 \<times> 'a fsys_scheme) option" where
  "sys_chdir others path s = do {
     (inode_no, r, s) \<leftarrow> search_file others path empty_record s;
     let (ret, s) = (if inode_no \<noteq> - 1 \<and> file_type r = FT_DIRECTORY
                     then (0, upd_task (running_thread s) (\<lambda>t. t\<lparr>cwd_inode_nr := inode_no\<rparr>) s) else (- 1, s));
     s \<leftarrow> dir_close others (parent_dir r) s;
     Some (ret, s) }"

text \<open>The structure that \<open>buf\<close> points to before and after the call.\<close>

definition sys_stat ::
    "(addr \<Rightarrow> 'a fsys_scheme \<Rightarrow> 'a fsys_scheme option) \<Rightarrow> u8 list \<Rightarrow> stat \<Rightarrow> 'a fsys_scheme \<Rightarrow> (u32 \<times> stat \<times> 'a fsys_scheme) option" where
  "sys_stat others path buf s =
     (if path \<in> root_paths then
        Some (0, \<lparr>st_ino = 0, st_size = i_size (inodes s (dir_inode (dirs s (root_dir s)))), st_filetype = FT_DIRECTORY\<rparr>, s)
      else do {
        (inode_no, r, s) \<leftarrow> search_file others path empty_record s;
        (ret, buf, s) \<leftarrow> (if inode_no \<noteq> - 1 then do {
             (p, s) \<leftarrow> inode_open others (cur_part s) inode_no s;
             let sz = i_size (inodes s p);
             s \<leftarrow> inode_close others p s;
             Some (0, \<lparr>st_ino = inode_no, st_size = sz, st_filetype = file_type r\<rparr>, s) }
           else Some (- 1, buf, s));
        s \<leftarrow> dir_close others (parent_dir r) s;
        Some (ret, buf, s) })"

section \<open>Initialisation\<close>

text \<open>The partitions of a disk: four from offset 16 on and eight from offset 272 on, of 64 bytes each. The index is not reset between disks.\<close>

fun part_loop ::
    "(addr \<Rightarrow> 'a fsys_scheme \<Rightarrow> 'a fsys_scheme option) \<Rightarrow> u8 list \<Rightarrow> addr \<Rightarrow> nat \<Rightarrow> addr \<Rightarrow> nat \<Rightarrow> 'a fsys_scheme \<Rightarrow> 'a fsys_scheme option" where
  "part_loop others pad dk part_idx part 0 s = Some s"
| "part_loop others pad dk part_idx part (Suc n) s = do {
     let part = (if part_idx = 4 then dk + 272 else part);
     s \<leftarrow> (if sec_cnt (parts s part) \<noteq> 0 then do {
             sec \<leftarrow> disk_read dk (start_lba (parts s part) + 1) 1 s;
             (if magic (bytes_sb sec) = 0x19590318 then Some s else partition_format others pad part s) }
           else Some s);
     part_loop others pad dk (Suc part_idx) (part + 64) n s }"

text \<open>Only the second disk of each channel is looked at. A channel has 1632 bytes, with two disks of 784 bytes from offset 64 on.\<close>

fun channel_loop ::
    "(addr \<Rightarrow> 'a fsys_scheme \<Rightarrow> 'a fsys_scheme option) \<Rightarrow> u8 list \<Rightarrow> addr \<Rightarrow> nat \<Rightarrow> nat \<Rightarrow> nat \<Rightarrow> 'a fsys_scheme \<Rightarrow> 'a fsys_scheme option" where
  "channel_loop others pad channels channel_no part_idx 0 s = Some s"
| "channel_loop others pad channels channel_no part_idx (Suc n) s = do {
     let dk = channels + of_nat (1632 * channel_no) + 64 + 784;
     s \<leftarrow> part_loop others pad dk part_idx (dk + 16) (12 - part_idx) s;
     channel_loop others pad channels (Suc channel_no) 12 n s }"

text \<open>The variables of the disk driver are parameters: the array \<open>channels\<close>, the number of channels and the list of partitions; so is the address of the local array with the name of
  the default partition.\<close>

definition filesys_init ::
    "(addr \<Rightarrow> 'a fsys_scheme \<Rightarrow> 'a fsys_scheme option) \<Rightarrow> u8 list \<Rightarrow> addr \<Rightarrow> u8 \<Rightarrow> addr \<Rightarrow> addr \<Rightarrow> 'a fsys_scheme \<Rightarrow> 'a fsys_scheme option" where
  "filesys_init others pad channels channel_cnt partition_list default_part s = do {
     (sb_buf, s) \<leftarrow> sys_malloc others 512 s;
     ASSERT (sb_buf \<noteq> NULL);
     s \<leftarrow> channel_loop others pad channels 0 0 (unat channel_cnt) s;
     s \<leftarrow> sys_free others sb_buf s;
     let s = s\<lparr>mem := mem_put default_part [115, 100, 98, 49, 0, 0, 0, 0] (mem s)\<rparr>;
     (_, s) \<leftarrow> list_traversal partition_list (mount_partition others) default_part s;
     s \<leftarrow> open_root_dir others (cur_part s) s;
     Some (s\<lparr>file_table := map (\<lambda>f. f\<lparr>fd_inode := NULL\<rparr>) (file_table s)\<rparr>) }"

section \<open>Claims\<close>

text \<open>
  Positions in a file. With a valid descriptor and one of the three modes \<open>sys_lseek\<close> returns: either \<open>-1\<close>, and nothing has changed, or the new position, which is stored as the
  position of the file and lies inside the file. It refuses exactly the positions outside the file, also the position behind the last byte, so an empty file has no position.
\<close>

theorem sys_lseek_bounds:
  assumes "fd_local2global fd s = Some g" "0 \<le> sint fd" "0 < whence" "whence < 4" "i_size (inodes s (fd_inode (file_table s ! g))) < 2 ^ 31"
  shows "let size' = int (unat (i_size (inodes s (fd_inode (file_table s ! g)))));
      pos = (if whence = SEEK_SET then offset else if whence = SEEK_CUR then fd_pos (file_table s ! g) + offset
             else i_size (inodes s (fd_inode (file_table s ! g))) + offset)
    in sys_lseek fd offset whence s =
      (if 0 \<le> sint pos \<and> sint pos < size' then Some (pos, upd_file g (\<lambda>f. f\<lparr>fd_pos := pos\<rparr>) s) else Some (- 1, s))"
proof -
  define sz where "sz = i_size (inodes s (fd_inode (file_table s ! g)))"
  have lt: "unat sz < 2 ^ 31" using assms(5) by (simp add: sz_def word_less_nat_alt)
  have size1: "sint (sz - 1) = int (unat sz) - 1"
  proof (cases "sz = 0")
    case False
    then have "unat (sz - 1) = unat sz - 1" "0 < unat sz" by (simp_all add: unat_minus_one unat_gt_0)
    then show ?thesis using lt sint_small [of "sz - 1"] by simp
  qed simp
  show ?thesis using assms(1-4) by (auto simp: sys_lseek_def Let_def sz_def [symmetric] size1 SEEK_SET_def SEEK_CUR_def)
qed

theorem sys_lseek_bounds_witness:
  "\<exists>s :: fsys. sys_lseek 3 40 SEEK_SET s = Some (40, upd_file 5 (\<lambda>f. f\<lparr>fd_pos := 40\<rparr>) s)"
proof -
  let ?s = "bare_file\<lparr>tasks := (\<lambda>p. (tasks bare_file p)\<lparr>fd_table := [0, 1, 2, 5, - 1, - 1, - 1, - 1]\<rparr>)\<rparr>"
  have "fd_local2global 3 ?s = Some 5" by (simp add: fd_local2global_def MAX_FILES_OPEN_PER_PROC_def MAX_FILE_OPEN_def)
  from sys_lseek_bounds [OF this, of SEEK_SET 40] show ?thesis by (intro exI [of _ ?s]) (simp add: SEEK_SET_def Let_def)
qed

section \<open>The path of the working directory\<close>

lemma after_first: "after_name (xs @ slash # ys) = slash # ys \<and> first_name (xs @ slash # ys) = xs" if "slash \<notin> set xs"
  using that by (induction xs) auto

text \<open>
  The path of the working directory. The walk from the working directory to the root collects the names in the order from the inside to the outside, each behind a slash; the loop
  that follows turns this into the same names in the opposite order, so the result is the absolute path.
\<close>

theorem reverse_path_reverses:
  assumes "\<forall>c \<in> set cs. slash \<notin> set c"
  shows "reverse_path (concat (map (\<lambda>c. slash # c) cs)) [] = concat (map (\<lambda>c. slash # c) (rev cs))"
proof -
  have "reverse_path (concat (map (\<lambda>c. slash # c) cs)) buf = buf @ concat (map (\<lambda>c. slash # c) (rev cs))" for buf
    using assms
  proof (induction cs arbitrary: buf rule: rev_induct)
    case Nil
    then show ?case by (simp add: reverse_path.simps)
  next
    case (snoc c cs)
    let ?x = "concat (map (\<lambda>c. slash # c) cs)"
    have "rev (?x @ slash # c) = rev c @ slash # rev ?x" by simp
    then have "after_name (rev (?x @ slash # c)) = slash # rev ?x" "first_name (rev (?x @ slash # c)) = rev c"
      using after_first [of "rev c" "rev ?x"] snoc.prems by auto
    then have "reverse_path (?x @ slash # c) buf = reverse_path ?x (buf @ slash # c)" by (simp add: reverse_path.simps [of "?x @ slash # c" buf])
    then show ?case using snoc by simp
  qed
  then show ?thesis by simp
qed

theorem reverse_path_reverses_witness: "reverse_path [47, 99, 47, 98, 98, 47, 97] [] = [47, 97, 47, 98, 98, 47, 99]"
  using reverse_path_reverses [of "[[99], [98, 98], [97]]"] by (simp add: slash_def)

end
