(* ===== verification/FileWrite.thy ===== *)
theory FileWrite
  imports OpenFile
begin

text \<open>
  What writing to a file does to its contents (\<open>file_write\<close> of \<^verbatim>\<open>fs/file.c\<close>): the blocks of a file stay different and in use, the blocks that are added come from the free ones, and
  the data is appended, over any number of sectors and in all of the cases the code distinguishes.
\<close>

section \<open>The blocks of a file\<close>

text \<open>\<open>n\<close> blocks, all different and in use, with an index block exactly if there are more than 12.\<close>

definition blocks_ok :: "nat \<Rightarrow> addr \<Rightarrow> 'a fsys_scheme \<Rightarrow> bool" where
  "blocks_ok n p s \<longleftrightarrow>
     (let bl = block_list p s; ib = i_sectors (inodes s p) ! 12 in
      length (i_sectors (inodes s p)) = 13 \<and> n \<le> 140 \<and> (\<forall>k < n. in_use s (bl ! k)) \<and> distinct (take n bl) \<and>
      (\<forall>k < 140. n \<le> k \<longrightarrow> bl ! k = 0) \<and> (if 12 < n then in_use s ib \<and> ib \<notin> set (take n bl) else ib = 0))"

lemma file_ok_blocks: "file_ok p s \<longleftrightarrow> blocks_ok (file_blocks p s) p s \<and> (file_blocks p s = 0 \<longrightarrow> file_len p s = 0)"
  by (auto simp: file_ok_def blocks_ok_def Let_def)

lemma blocks_ok_direct: "blocks_ok n p s \<Longrightarrow> k < 12 \<Longrightarrow> n \<le> k \<Longrightarrow> i_sectors (inodes s p) ! k = 0"
  using block_list_direct [of s p k] by (simp add: blocks_ok_def Let_def)

text \<open>Storing new addresses from a place on, as far as they are direct.\<close>

primrec place :: "nat \<Rightarrow> u32 list \<Rightarrow> u32 list \<Rightarrow> u32 list" where
  "place idx [] secs = secs"
| "place idx (b # bs) secs = place (Suc idx) bs (if idx < 12 then secs[idx := b] else secs)"

lemma place_length [simp]: "length (place idx bs secs) = length secs"
  by (induction bs arbitrary: idx secs) simp_all

lemma place_nth: "k < length secs \<Longrightarrow> place idx bs secs ! k = (if idx \<le> k \<and> k < 12 \<and> k < idx + length bs then bs ! (k - idx) else secs ! k)"
proof (induction bs arbitrary: idx secs)
  case (Cons b bs)
  let ?secs = "if idx < 12 then secs[idx := b] else secs"
  have "place idx (b # bs) secs ! k = (if Suc idx \<le> k \<and> k < 12 \<and> k < Suc idx + length bs then bs ! (k - Suc idx) else ?secs ! k)"
    using Cons.IH [of ?secs "Suc idx"] Cons.prems by simp
  then show ?case using Cons.prems by (cases "k = idx") (auto simp: nth_Cons' Suc_diff_le)
qed auto

lemma set_sector_inodes: "set_sector p j b t = t\<lparr>inodes := (inodes t)(p := (inodes t p)\<lparr>i_sectors := (i_sectors (inodes t p))[j := b]\<rparr>)\<rparr>"
  by (simp add: set_sector_def upd_inode_def)

lemma bitmap_sync_inodes: "bitmap_sync part k b (s\<lparr>inodes := i\<rparr>) = map_option (\<lambda>t. t\<lparr>inodes := i\<rparr>) (bitmap_sync part k b s)"
  by (cases b) (simp_all add: bitmap_sync_def disk_write_def ASSERT_def Let_def cong: if_cong)

text \<open>The loop that allocates.\<close>

lemma grow_loop_ok:
  assumes "fs_layout s" "n \<le> card (free_blocks s)" "\<And>k. k < 12 \<Longrightarrow> idx \<le> k \<Longrightarrow> i_sectors (inodes s p) ! k = 0" "idx + n \<le> length bl" "length (i_sectors (inodes s p)) = 13"
  shows "\<exists>bs t. grow_loop p bl idx n s = Some (Some (take idx bl @ bs @ drop (idx + n) bl), t) \<and> length bs = n \<and> distinct bs \<and>
    (\<forall>b \<in> set bs. \<exists>i \<in> free_blocks s. b = block_addr s i) \<and> grown (set bs) s t \<and>
    inodes t = (inodes s)(p := (inodes s p)\<lparr>i_sectors := place idx bs (i_sectors (inodes s p))\<rparr>)"
  using assms
proof (induction n arbitrary: s idx bl)
  case 0
  then show ?case using grown_refl by auto
next
  case (Suc n)
  have "free_blocks s \<noteq> {}" using Suc.prems(2) by auto
  then obtain i m D where a: "i \<in> free_blocks s" "block_bitmap_alloc (cur_part s) s = Some (block_addr s i, s\<lparr>mem := m\<rparr>)"
    "bitmap_sync (cur_part s) (block_addr s i - data_start_lba (sb (parts s (cur_part s)))) BLOCK_BITMAP (s\<lparr>mem := m\<rparr>) = Some (s\<lparr>mem := m, disks := D\<rparr>)"
    "grown {block_addr s i} s (s\<lparr>mem := m, disks := D\<rparr>)"
    using alloc_grown [OF Suc.prems(1)] by metis
  have i: "i < blocks_of s" using a(1) by (simp add: free_blocks_def)
  let ?b = "block_addr s i" and ?secs = "i_sectors (inodes s p)"
  define secs' where "secs' = (if idx < 12 then ?secs[idx := ?b] else ?secs)"
  define u where "u = s\<lparr>mem := m, disks := D\<rparr>\<lparr>inodes := (inodes s)(p := (inodes s p)\<lparr>i_sectors := secs'\<rparr>)\<rparr>"
  have step: "grow_loop p bl idx (Suc n) s = grow_loop p (bl[idx := ?b]) (Suc idx) n u"
    using a(2,3) block_addr_ok(3) [OF Suc.prems(1) i] Suc.prems(3)
    by (cases "idx < 12") (simp_all add: set_sector_inodes bitmap_sync_inodes u_def secs'_def)
  have gu: "grown {?b} s u" using a(4) by (simp add: u_def)
  have lay: "fs_layout u" using gu by (simp add: grown_def)
  have fu: "free_blocks u = free_blocks s - {i}"
    using grown_free [OF Suc.prems(1) gu] block_addr_inj [OF Suc.prems(1)] i by (auto simp: free_blocks_def)
  have iu: "inodes u p = (inodes s p)\<lparr>i_sectors := secs'\<rparr>" by (simp add: u_def)
  have "i_sectors (inodes u p) ! k = 0" if "k < 12" "Suc idx \<le> k" for k using Suc.prems(3) [of k] that by (simp add: iu secs'_def)
  moreover have "n \<le> card (free_blocks u)" using Suc.prems(2) a(1) by (simp add: fu card_Diff_singleton)
  moreover have "Suc idx + n \<le> length (bl[idx := ?b])" "length (i_sectors (inodes u p)) = 13" using Suc.prems(4,5) by (simp_all add: iu secs'_def)
  ultimately obtain bs t where t: "grow_loop p (bl[idx := ?b]) (Suc idx) n u = Some (Some (take (Suc idx) (bl[idx := ?b]) @ bs @ drop (Suc idx + n) (bl[idx := ?b])), t)"
    "length bs = n" "distinct bs" "\<forall>b \<in> set bs. \<exists>i \<in> free_blocks u. b = block_addr u i" "grown (set bs) u t"
    "inodes t = (inodes u)(p := (inodes u p)\<lparr>i_sectors := place (Suc idx) bs (i_sectors (inodes u p))\<rparr>)"
    using Suc.IH [OF lay, of "Suc idx" "bl[idx := ?b]"] by blast
  have au: "block_addr u = block_addr s" using grown_same [OF gu] by simp
  have bs: "\<exists>j \<in> free_blocks s. j \<noteq> i \<and> b = block_addr s j" if "b \<in> set bs" for b using t(4) that by (auto simp: au fu)
  then have "?b \<notin> set bs" using block_addr_inj [OF Suc.prems(1) i] by (auto simp: free_blocks_def)
  moreover have "take (Suc idx) (bl[idx := ?b]) @ bs @ drop (Suc idx + n) (bl[idx := ?b]) = take idx bl @ (?b # bs) @ drop (idx + Suc n) bl"
    using Suc.prems(4) by (simp add: take_Suc_conv_app_nth)
  moreover have "grown (set (?b # bs)) s t" using grown_trans [OF gu t(5)] by simp
  moreover have "inodes t = (inodes s)(p := (inodes s p)\<lparr>i_sectors := place idx (?b # bs) ?secs\<rparr>)" using t(6) iu by (simp add: u_def secs'_def)
  ultimately show ?case using step t(1-3) bs a(1) by (intro exI [of _ "?b # bs"] exI [of _ t]) auto
qed

section \<open>Collecting the blocks\<close>

text \<open>The file at \<open>p\<close> has grown from \<open>h\<close> to \<open>w\<close> blocks; its new blocks were free, its old blocks and all other data are as before, except for the index block.\<close>

definition extends :: "nat \<Rightarrow> nat \<Rightarrow> addr \<Rightarrow> 'a fsys_scheme \<Rightarrow> 'a fsys_scheme \<Rightarrow> bool" where
  "extends h w p s t \<longleftrightarrow> fs_layout t \<and> blocks_ok w p t \<and> (\<forall>k < h. block_list p t ! k = block_list p s ! k) \<and> (\<forall>k. h \<le> k \<and> k < w \<longrightarrow> \<not> in_use s (block_list p t ! k)) \<and>
     parts t = parts s \<and> cur_part t = cur_part s \<and> file_table t = file_table s \<and> i_size (inodes t p) = i_size (inodes s p) \<and> (\<forall>q. q \<noteq> p \<longrightarrow> inodes t q = inodes s q) \<and>
     (\<forall>x. in_use s x \<longrightarrow> in_use t x \<and> (x \<noteq> i_sectors (inodes s p) ! 12 \<longrightarrow> disks t (the_disk s) x = disks s (the_disk s) x)) \<and>
     (\<forall>a. \<not> bitmap_byte s a \<longrightarrow> mem t a = mem s a)"

lemma extends_refl: "fs_layout s \<Longrightarrow> blocks_ok h p s \<Longrightarrow> extends h h p s s"
  by (auto simp: extends_def)

lemma free_addr: "b = block_addr s i \<Longrightarrow> i \<in> free_blocks s \<Longrightarrow> fs_layout s \<Longrightarrow> b \<noteq> 0 \<and> b \<le> max_lba \<and> \<not> in_use s b \<and> data_start_lba (sb (parts s (cur_part s))) \<le> b"
  using block_addr_ok [of s i] free_not_in_use [of s i] by (auto simp: free_blocks_def)

lemma grown_disk: "fs_layout s \<Longrightarrow> grown A s t \<Longrightarrow> in_use s x \<Longrightarrow> disks t (the_disk s) x = disks s (the_disk s) x"
  using in_use_ok [of s x] by (simp add: grown_def)

text \<open>Distinct blocks: the old ones and newly allocated ones.\<close>

lemma distinct_new:
  assumes "fs_layout s" "distinct old" "\<forall>b \<in> set old. in_use s b" "distinct new" "\<forall>b \<in> set new. \<exists>i \<in> free_blocks s. b = block_addr s i"
  shows "distinct (old @ new)"
  using assms(2-5) free_not_in_use [OF assms(1)] by (simp add: disjoint_iff) metis

text \<open>The list of blocks of a file that grows within the direct blocks.\<close>

lemma grow_direct:
  assumes lay: "fs_layout s" and ok: "blocks_ok h p s" and hw: "h < w" "w \<le> 12" and bs: "length bs = w - h" "distinct bs" "\<forall>b \<in> set bs. \<exists>i \<in> free_blocks s. b = block_addr s i"
    and t: "grown (set bs) s t" "inodes t = (inodes s)(p := (inodes s p)\<lparr>i_sectors := place h bs (i_sectors (inodes s p))\<rparr>)"
  shows "extends h w p s t \<and> (\<forall>k. h \<le> k \<and> k < w \<longrightarrow> block_list p t ! k = bs ! (k - h))"
proof -
  have fresh: "\<not> in_use s (bs ! j)" if "j < w - h" for j using bs(1,3) free_not_in_use [OF lay] that by (metis nth_mem)
  let ?secs = "i_sectors (inodes s p)"
  have l: "length ?secs = 13" and z: "?secs ! 12 = 0" "\<And>k. k < 12 \<Longrightarrow> h \<le> k \<Longrightarrow> ?secs ! k = 0"
    using ok hw blocks_ok_direct [OF ok] by (auto simp: blocks_ok_def Let_def)
  have secs: "i_sectors (inodes t p) ! k = (if h \<le> k \<and> k < w then bs ! (k - h) else ?secs ! k)" if "k < 13" for k
    using place_nth [of k ?secs h bs] that l bs(1) hw by (auto simp: t(2))
  have lt: "length (i_sectors (inodes t p)) = 13" using l by (simp add: t(2))
  have bl: "block_list p t ! k = (if h \<le> k \<and> k < w then bs ! (k - h) else block_list p s ! k)" if "k < w" for k
    using secs [of k] that hw block_list_direct [OF l, of k] block_list_direct [OF lt, of k] by auto
  have b140: "length (block_list p s) = 140" "length (block_list p t) = 140" using block_list_length l lt by auto
  have new: "take w (block_list p t) = take h (block_list p s) @ bs"
    using bl hw bs(1) b140 by (intro nth_equalityI) (auto simp: nth_append)
  have A: "\<forall>b \<in> set bs. \<exists>i < blocks_of s. b = block_addr s i" using bs(3) by (auto simp: free_blocks_def)
  note use = grown_in_use [OF lay t(1) A]
  have "\<forall>b \<in> set (take h (block_list p s)). in_use s b" using ok b140 hw by (auto simp: blocks_ok_def Let_def in_set_conv_nth)
  then have "distinct (take w (block_list p t))" unfolding new using distinct_new [OF lay _ _ bs(2,3), of "take h (block_list p s)"] ok by (simp add: blocks_ok_def Let_def)
  moreover have "in_use t (block_list p t ! k)" if "k < w" for k
  proof (cases "h \<le> k")
    case True
    then have "bs ! (k - h) \<in> set bs" using that bs(1) by simp
    then show ?thesis using bl [OF that] True that use by simp
  next
    case False
    then show ?thesis using bl [OF that] ok use by (simp add: blocks_ok_def Let_def)
  qed
  moreover have "block_list p t ! k = 0" if "k < 140" "w \<le> k" for k
    using secs [of k] secs [of 12] that z hw lt block_list_direct [OF lt, of k] by (cases "k < 12") (auto simp: block_list_def nth_append)
  ultimately have "blocks_ok w p t" using hw lt secs [of 12] z(1) by (simp add: blocks_ok_def Let_def)
  moreover have "\<not> in_use s (block_list p t ! k)" if "h \<le> k" "k < w" for k using fresh [of "k - h"] bl [OF that(2)] that by simp
  ultimately have "extends h w p s t" using t use bl grown_disk [OF lay t(1)] hw by (simp add: extends_def grown_def)
  then show ?thesis using bl by simp
qed

text \<open>A file that has an index block afterwards, an old one or the new one \<open>ib\<close>.\<close>

lemma grow_index:
  assumes lay: "fs_layout s" and ok: "blocks_ok h p s" and hw: "h < w" "12 < w" "w \<le> 140"
    and bs: "length bs = w - h" "distinct bs" "\<forall>b \<in> set bs. \<exists>i \<in> free_blocks s. b = block_addr s i"
    and ib: "if h \<le> 12 then \<exists>i \<in> free_blocks s. ib = block_addr s i else ib = i_sectors (inodes s p) ! 12" "ib \<notin> set bs"
    and t: "grown (if h \<le> 12 then insert ib (set bs) else set bs) s t" "inodes t = (inodes s)(p := (inodes s p)\<lparr>i_sectors := S\<rparr>)"
    and S: "length S = 13" "S ! 12 = ib" "\<And>k. k < 12 \<Longrightarrow> S ! k = (if h \<le> k then bs ! (k - h) else i_sectors (inodes s p) ! k)"
    and bl': "length bl' = 140" "\<And>k. 12 \<le> k \<Longrightarrow> k < w \<Longrightarrow> bl' ! k = (if k < h then block_list p s ! k else bs ! (k - h))"
      "\<And>k. w \<le> k \<Longrightarrow> k < 140 \<Longrightarrow> bl' ! k = 0"
    and u: "u = t\<lparr>disks := (disks t)(the_disk s := (disks t (the_disk s))(ib := words_bytes (drop 12 bl')))\<rparr>"
  shows "extends h w p s u \<and> (\<forall>k. h \<le> k \<and> k < w \<longrightarrow> block_list p u ! k = bs ! (k - h))"
proof -
  have fresh: "\<not> in_use s (bs ! j)" if "j < w - h" for j using bs(1,3) free_not_in_use [OF lay] that by (metis nth_mem)
  let ?secs = "i_sectors (inodes s p)" and ?A = "if h \<le> 12 then insert ib (set bs) else set bs"
  have l: "length ?secs = 13" using ok by (simp add: blocks_ok_def Let_def)
  have b140: "length (block_list p s) = 140" using block_list_length l by auto
  have A: "\<forall>b \<in> ?A. \<exists>i < blocks_of s. b = block_addr s i" using bs(3) ib(1) by (auto simp: free_blocks_def split: if_splits)
  have iuse: "in_use u x \<longleftrightarrow> in_use s x \<or> x \<in> ?A" for x
    using grown_in_use [OF lay t(1) A] by (simp add: u in_use_def block_addr_def block_used_def blocks_of_def)
  have ib_old: "12 < h \<Longrightarrow> in_use s ib \<and> ib \<notin> set (take h (block_list p s))" using ok ib(1) by (simp add: blocks_ok_def Let_def)
  have ib_use: "in_use u ib" using iuse ib_old by (cases "h \<le> 12") auto
  have old: "\<forall>b \<in> set (take h (block_list p s)). in_use s b" using ok b140 by (auto simp: blocks_ok_def Let_def in_set_conv_nth)
  have ib_new: "ib \<notin> set (take h (block_list p s)) \<and> (in_use s ib \<longrightarrow> ib = ?secs ! 12)"
    using ib_old old ib(1) free_not_in_use [OF lay] by (cases "h \<le> 12") auto
  have dk: "the_disk u = the_disk s" using grown_same [OF t(1)] by (simp add: u the_disk_def)
  have lay_t: "fs_layout t" using t(1) by (simp add: grown_def)
  then have lay_u: "fs_layout u" using bl'(1) by (auto simp: u fs_layout_def sectors_ok_def Let_def)
  have "ib \<noteq> 0" using in_use_ok [OF lay_u ib_use] by simp
  then have list: "block_list p u = take 12 S @ drop 12 bl'" unfolding block_list_def dk using S(1,2) bl'(1) by (simp add: u t(2))
  have len_u: "length (block_list p u) = 140" using S(1) bl'(1) by (simp add: list)
  have bl: "block_list p u ! k = (if h \<le> k then bs ! (k - h) else block_list p s ! k)" if "k < w" for k
    using that S(1,3) bl' hw block_list_direct [OF l, of k] by (cases "k < 12") (auto simp: list nth_append)
  have new: "take w (block_list p u) = take h (block_list p s) @ bs"
    using bl hw bs(1) b140 len_u by (intro nth_equalityI) (auto simp: nth_append)
  have "distinct (take w (block_list p u))" unfolding new using distinct_new [OF lay _ old bs(2,3)] ok by (simp add: blocks_ok_def Let_def)
  moreover have "in_use u (block_list p u ! k)" if "k < w" for k
  proof (cases "h \<le> k")
    case True
    then have "bs ! (k - h) \<in> set bs" using that bs(1) by simp
    then show ?thesis using bl [OF that] True iuse by auto
  next
    case False
    then show ?thesis using bl [OF that] ok iuse by (simp add: blocks_ok_def Let_def)
  qed
  moreover have "ib \<notin> set (take w (block_list p u))" unfolding new using ib_new ib(2) by simp
  moreover have "block_list p u ! k = 0" if "k < 140" "w \<le> k" for k using that hw(2) S(1) bl'(1,3) by (simp add: list nth_append)
  ultimately have "blocks_ok w p u" using hw S(1,2) ib_use by (simp add: blocks_ok_def Let_def u t(2))
  moreover have "disks u (the_disk s) x = disks s (the_disk s) x" if "in_use s x" "x \<noteq> ?secs ! 12" for x
    using grown_disk [OF lay t(1) that(1)] that ib_new by (auto simp: u)
  moreover have "\<not> in_use s (block_list p u ! k)" if "h \<le> k" "k < w" for k using fresh [of "k - h"] bl [OF that(2)] that by simp
  ultimately have "extends h w p s u" using lay_u t iuse bl hw by (auto simp: extends_def grown_def u)
  then show ?thesis using bl by simp
qed

lemma from_last:
  assumes "1 \<le> h" "\<And>k. h \<le> k \<Longrightarrow> k < w \<Longrightarrow> xs ! k = ys ! k" "xs ! (h - 1) = ys ! (h - 1)"
  shows "\<forall>k. h - 1 \<le> k \<and> k < w \<longrightarrow> xs ! k = ys ! k"
proof (intro allI impI)
  fix k assume "h - 1 \<le> k \<and> k < w"
  then show "xs ! k = ys ! k" using assms by (cases "k = h - 1") auto
qed

lemma place_indirect: "12 \<le> idx \<Longrightarrow> place idx bs secs = secs"
  by (induction bs arbitrary: idx) simp_all

lemma write_index_ok:
  assumes "fs_layout t" "i_sectors (inodes t p) ! 12 = ib" "ib \<le> max_lba" "length bl = 140"
  shows "write_index p (Some (Some bl, t)) = Some (Some bl, t\<lparr>disks := (disks t)(the_disk t := (disks t (the_disk t))(ib := words_bytes (drop 12 bl)))\<rparr>)"
  using sector_write [OF assms(3), of "words_bytes (drop 12 bl)" "the_disk t" t] assms(2,4) by (simp add: write_index_def the_disk_def)

text \<open>The case in which the index block is new.\<close>

lemma collect_new_index:
  assumes lay: "fs_layout s" and ok: "blocks_ok h p s" and hw: "1 \<le> h" "h \<le> 12" "12 < w" "w \<le> 140" and free: "w - h + 1 \<le> card (free_blocks s)"
  shows "\<exists>bl u. collect_blocks p h w s = Some (Some bl, u) \<and> extends h w p s u \<and> length bl = 140 \<and> (\<forall>k. h - 1 \<le> k \<and> k < w \<longrightarrow> bl ! k = block_list p u ! k)"
proof -
  let ?secs = "i_sectors (inodes s p)" and ?last = "(replicate 140 0)[h - 1 := i_sectors (inodes s p) ! (h - 1)]"
  have l: "length ?secs = 13" and z: "?secs ! 12 = 0" "\<And>k. k < 12 \<Longrightarrow> h \<le> k \<Longrightarrow> ?secs ! k = 0"
    using ok hw blocks_ok_direct [OF ok] by (auto simp: blocks_ok_def Let_def)
  have "free_blocks s \<noteq> {}" using free by auto
  then obtain i m where a: "i \<in> free_blocks s" "block_bitmap_alloc (cur_part s) s = Some (block_addr s i, s\<lparr>mem := m\<rparr>)" "grown {block_addr s i} s (s\<lparr>mem := m\<rparr>)"
    using alloc_grown [OF lay] by metis
  let ?ib = "block_addr s i"
  have i: "i < blocks_of s" using a(1) by (simp add: free_blocks_def)
  define s1 where "s1 = set_sector p 12 ?ib (s\<lparr>mem := m\<rparr>)"
  have g1: "grown {?ib} s s1" using a(3) by (simp add: s1_def set_sector_inodes)
  have lay1: "fs_layout s1" using g1 by (simp add: grown_def)
  have f1: "free_blocks s1 = free_blocks s - {i}" using grown_free [OF lay g1] block_addr_inj [OF lay] i by (auto simp: free_blocks_def)
  have i1: "inodes s1 = (inodes s)(p := (inodes s p)\<lparr>i_sectors := ?secs[12 := ?ib]\<rparr>)" by (simp add: s1_def set_sector_inodes)
  have "w - h \<le> card (free_blocks s1)" using free a(1) by (simp add: f1 card_Diff_singleton)
  then obtain bs t where t: "grow_loop p ?last h (w - h) s1 = Some (Some (take h ?last @ bs @ drop (h + (w - h)) ?last), t)" "length bs = w - h" "distinct bs"
    "\<forall>b \<in> set bs. \<exists>j \<in> free_blocks s1. b = block_addr s1 j" "grown (set bs) s1 t"
    "inodes t = (inodes s1)(p := (inodes s1 p)\<lparr>i_sectors := place h bs (i_sectors (inodes s1 p))\<rparr>)"
    using grow_loop_ok [OF lay1, of "w - h" h p ?last] hw l z(2) by (auto simp: i1)
  define bl where "bl = take h ?last @ bs @ drop w ?last"
  define S where "S = place h bs (?secs[12 := ?ib])"
  have a1: "block_addr s1 = block_addr s" using grown_same [OF g1] by simp
  have bs: "\<exists>j \<in> free_blocks s. j \<noteq> i \<and> b = block_addr s j" if "b \<in> set bs" for b using t(4) that by (auto simp: a1 f1)
  then have ib: "?ib \<notin> set bs" using block_addr_inj [OF lay i] by (auto simp: free_blocks_def)
  have S: "length S = 13" "S ! 12 = ?ib" "\<And>k. k < 12 \<Longrightarrow> S ! k = (if h \<le> k then bs ! (k - h) else ?secs ! k)"
    using l hw t(2) by (auto simp: S_def place_nth)
  have blk: "length bl = 140" "\<And>k. h \<le> k \<Longrightarrow> k < w \<Longrightarrow> bl ! k = bs ! (k - h)" "bl ! (h - 1) = ?secs ! (h - 1)" "\<And>k. w \<le> k \<Longrightarrow> k < 140 \<Longrightarrow> bl ! k = 0"
    using hw t(2) by (auto simp: bl_def nth_append nth_list_update)
  have gt: "grown (insert ?ib (set bs)) s t" using grown_trans [OF g1 t(5)] by simp
  have it: "inodes t = (inodes s)(p := (inodes s p)\<lparr>i_sectors := S\<rparr>)" using t(6) by (simp add: i1 S_def)
  define u where "u = t\<lparr>disks := (disks t)(the_disk s := (disks t (the_disk s))(?ib := words_bytes (drop 12 bl)))\<rparr>"
  have "write_index p (Some (Some bl, t)) = Some (Some bl, u)"
    using write_index_ok [of t p ?ib bl] gt it S(2) block_addr_ok(1) [OF lay i] blk(1) grown_same [OF gt] by (simp add: u_def grown_def)
  then have "collect_blocks p h w s = Some (Some bl, u)"
    using a(2) block_addr_ok(3) [OF lay i] z(1) hw t(1) by (simp add: collect_blocks_def s1_def [symmetric] bl_def)
  moreover have e: "extends h w p s u \<and> (\<forall>k. h \<le> k \<and> k < w \<longrightarrow> block_list p u ! k = bs ! (k - h))"
    by (rule grow_index [OF lay ok _ hw(3,4) t(2,3) _ _ ib _ it S blk(1) _ blk(4) u_def]) (use hw a(1) bs gt blk(2) in auto)
  moreover have "block_list p u ! (h - 1) = ?secs ! (h - 1)" using e block_list_direct [OF l, of "h - 1"] hw by (simp add: extends_def)
  ultimately show ?thesis using blk from_last [OF hw(1), of w bl "block_list p u"] by auto
qed

text \<open>The other cases: no new block, direct blocks only, and more blocks behind an existing index block.\<close>

lemma collect_direct:
  assumes lay: "fs_layout s" and ok: "blocks_ok h p s" and hw: "1 \<le> h" "h < w" "w \<le> 12" and free: "w - h \<le> card (free_blocks s)"
  shows "\<exists>bl u. collect_blocks p h w s = Some (Some bl, u) \<and> extends h w p s u \<and> length bl = 140 \<and> (\<forall>k. h - 1 \<le> k \<and> k < w \<longrightarrow> bl ! k = block_list p u ! k)"
proof -
  let ?secs = "i_sectors (inodes s p)" and ?last = "(replicate 140 0)[h - 1 := i_sectors (inodes s p) ! (h - 1)]"
  have l: "length ?secs = 13" and z: "\<And>k. k < 12 \<Longrightarrow> h \<le> k \<Longrightarrow> ?secs ! k = 0"
    using ok blocks_ok_direct [OF ok] by (auto simp: blocks_ok_def Let_def)
  obtain bs t where t: "grow_loop p ?last h (w - h) s = Some (Some (take h ?last @ bs @ drop (h + (w - h)) ?last), t)" "length bs = w - h" "distinct bs"
    "\<forall>b \<in> set bs. \<exists>i \<in> free_blocks s. b = block_addr s i" "grown (set bs) s t" "inodes t = (inodes s)(p := (inodes s p)\<lparr>i_sectors := place h bs ?secs\<rparr>)"
    using grow_loop_ok [OF lay free, of h p ?last] z hw l by auto
  define bl where "bl = take h ?last @ bs @ drop w ?last"
  have blk: "length bl = 140" "\<And>k. h \<le> k \<Longrightarrow> k < w \<Longrightarrow> bl ! k = bs ! (k - h)" "bl ! (h - 1) = ?secs ! (h - 1)"
    using hw t(2) by (auto simp: bl_def nth_append)
  have "in_use s (block_list p s ! (h - 1))" using ok hw(1) by (simp add: blocks_ok_def Let_def)
  then have "?secs ! (h - 1) \<noteq> 0" using in_use_ok [OF lay] block_list_direct [OF l, of "h - 1"] hw by auto
  then have "collect_blocks p h w s = Some (Some bl, t)" using t(1) hw by (simp add: collect_blocks_def bl_def)
  moreover have e: "extends h w p s t \<and> (\<forall>k. h \<le> k \<and> k < w \<longrightarrow> block_list p t ! k = bs ! (k - h))" by (rule grow_direct [OF lay ok hw(2,3) t(2-6)])
  moreover have "block_list p t ! (h - 1) = ?secs ! (h - 1)" using e block_list_direct [OF l, of "h - 1"] hw by (simp add: extends_def)
  ultimately show ?thesis using blk from_last [OF hw(1), of w bl "block_list p t"] by auto
qed

lemma collect_old_index:
  assumes lay: "fs_layout s" and ok: "blocks_ok h p s" and hw: "12 < h" "h < w" "w \<le> 140" and free: "w - h \<le> card (free_blocks s)"
  shows "\<exists>bl u. collect_blocks p h w s = Some (Some bl, u) \<and> extends h w p s u \<and> length bl = 140 \<and> (\<forall>k. h - 1 \<le> k \<and> k < w \<longrightarrow> bl ! k = block_list p u ! k)"
proof -
  let ?secs = "i_sectors (inodes s p)" and ?old = "replicate 12 0 @ drop 12 (block_list p s)"
  have l: "length ?secs = 13" and ib: "in_use s (?secs ! 12)" using ok hw by (auto simp: blocks_ok_def Let_def)
  have b140: "length (block_list p s) = 140" using block_list_length l by auto
  obtain bs t where t: "grow_loop p ?old h (w - h) s = Some (Some (take h ?old @ bs @ drop (h + (w - h)) ?old), t)" "length bs = w - h" "distinct bs"
    "\<forall>b \<in> set bs. \<exists>i \<in> free_blocks s. b = block_addr s i" "grown (set bs) s t" "inodes t = (inodes s)(p := (inodes s p)\<lparr>i_sectors := place h bs ?secs\<rparr>)"
    using grow_loop_ok [OF lay free, of h p ?old] hw l b140 by auto
  define bl where "bl = take h ?old @ bs @ drop w ?old"
  have blk: "length bl = 140" "\<And>k. h \<le> k \<Longrightarrow> k < w \<Longrightarrow> bl ! k = bs ! (k - h)" "\<And>k. 12 \<le> k \<Longrightarrow> k < h \<Longrightarrow> bl ! k = block_list p s ! k"
    using hw t(2) b140 by (auto simp: bl_def nth_append)
  have blk0: "bl ! k = 0" if "w \<le> k" "k < 140" for k using that hw t(2) b140 ok by (auto simp: bl_def nth_append blocks_ok_def Let_def)
  have it: "inodes t = (inodes s)(p := (inodes s p)\<lparr>i_sectors := ?secs\<rparr>)" using t(6) hw(1) by (simp add: place_indirect)
  have ib_new: "?secs ! 12 \<notin> set bs" using ib t(4) free_not_in_use [OF lay] by metis
  define u where "u = t\<lparr>disks := (disks t)(the_disk s := (disks t (the_disk s))(?secs ! 12 := words_bytes (drop 12 bl)))\<rparr>"
  have "write_index p (Some (Some bl, t)) = Some (Some bl, u)"
    using write_index_ok [of t p "?secs ! 12" bl] t(5) it in_use_ok [OF lay ib] blk(1) grown_same [OF t(5)] by (simp add: u_def grown_def)
  then have "collect_blocks p h w s = Some (Some bl, u)"
    using in_use_ok [OF lay ib] index_block_list [OF lay ib l] hw t(1) by (simp add: collect_blocks_def bl_def)
  moreover have e: "extends h w p s u \<and> (\<forall>k. h \<le> k \<and> k < w \<longrightarrow> block_list p u ! k = bs ! (k - h))"
    by (rule grow_index [OF lay ok hw(2) _ hw(3) t(2-4) _ ib_new _ it l refl _ blk(1) _ blk0 u_def]) (use hw t(5) blk(2,3) in auto)
  moreover have "block_list p u ! (h - 1) = bl ! (h - 1)" using e blk(3) [of "h - 1"] hw by (simp add: extends_def)
  ultimately show ?thesis using blk from_last [of h w bl "block_list p u"] hw(1) by auto
qed

lemma collect_same:
  assumes lay: "fs_layout s" and ok: "blocks_ok h p s" and h: "1 \<le> h"
  shows "\<exists>bl. collect_blocks p h h s = Some (Some bl, s) \<and> extends h h p s s \<and> length bl = 140 \<and> (\<forall>k. h - 1 \<le> k \<and> k < h \<longrightarrow> bl ! k = block_list p s ! k)"
proof (cases "h \<le> 12")
  case True
  have "length (i_sectors (inodes s p)) = 13" using ok by (simp add: blocks_ok_def Let_def)
  then have "block_list p s ! (h - 1) = i_sectors (inodes s p) ! (h - 1)" using block_list_direct [of s p "h - 1"] True h by simp
  then show ?thesis using True h extends_refl [OF lay ok] by (auto simp: collect_blocks_def nth_list_update)
next
  case False
  then have ib: "in_use s (i_sectors (inodes s p) ! 12)" and l: "length (i_sectors (inodes s p)) = 13" using ok by (auto simp: blocks_ok_def Let_def)
  then show ?thesis using False extends_refl [OF lay ok] in_use_ok [OF lay ib] index_block_list [OF lay ib l] block_list_length [OF l]
    by (auto simp: collect_blocks_def nth_append)
qed

lemma collect_ok:
  assumes "fs_layout s" "blocks_ok h p s" "1 \<le> h" "h \<le> w" "w \<le> 140" "w - h + 1 \<le> card (free_blocks s)"
  shows "\<exists>bl u. collect_blocks p h w s = Some (Some bl, u) \<and> extends h w p s u \<and> length bl = 140 \<and> (\<forall>k. h - 1 \<le> k \<and> k < w \<longrightarrow> bl ! k = block_list p u ! k)"
proof -
  consider "h = w" | "h < w" "w \<le> 12" | "h \<le> 12" "12 < w" | "12 < h" "h < w" using assms(4) by linarith
  then show ?thesis
  proof cases
    case 1
    then show ?thesis using collect_same [OF assms(1-3)] by blast
  next
    case 2
    then show ?thesis using collect_direct [OF assms(1-3)] assms(6) by simp
  next
    case 3
    then show ?thesis using collect_new_index [OF assms(1-3) _ _ assms(5,6)] by simp
  next
    case 4
    then show ?thesis using collect_old_index [OF assms(1,2) _ _ assms(5)] assms(6) by simp
  qed
qed

section \<open>Writing the data\<close>

text \<open>The byte at a position, for given blocks and a given disk.\<close>

definition byte_at :: "u32 list \<Rightarrow> (u32 \<Rightarrow> u8 list) \<Rightarrow> nat \<Rightarrow> u8" where
  "byte_at B D j = D (B ! (j div 512)) ! (j mod 512)"

text \<open>Storing a chunk into its sector.\<close>

lemma chunk_stored:
  assumes x: "length x = 512" "pos mod 512 = 0 \<or> x = D (B ! (pos div 512))" and c: "length xs = c" "c \<le> 512 - pos mod 512" "0 < c"
    and B: "inj_on ((!) B) {..<N}" "pos div 512 < N"
    and buf: "put_at (pos mod 512) xs x = Some buf"
  shows "j < pos \<Longrightarrow> byte_at B (D(B ! (pos div 512) := buf)) j = byte_at B D j"
    "j < c \<Longrightarrow> byte_at B (D(B ! (pos div 512) := buf)) (pos + j) = xs ! j"
proof -
  have b: "buf = take (pos mod 512) x @ xs @ drop (pos mod 512 + c) x" using buf c(1) by (auto simp: put_at_def)
  have off: "pos mod 512 \<le> length x" using x(1) by simp
  show "byte_at B (D(B ! (pos div 512) := buf)) j = byte_at B D j" if j: "j < pos"
  proof (cases "j div 512 = pos div 512")
    case True
    then have "j mod 512 < pos mod 512" using j by (metis div_mult_mod_eq nat_add_left_cancel_less)
    moreover from this have "x = D (B ! (pos div 512))" using x(2) by auto
    ultimately show ?thesis using True off by (simp add: byte_at_def b nth_append)
  next
    case False
    have "j div 512 < N" using j B(2) by (meson div_le_mono le_less_trans less_imp_le)
    then have "B ! (j div 512) \<noteq> B ! (pos div 512)" using False B by (auto dest: inj_onD)
    then show ?thesis by (simp add: byte_at_def)
  qed
  show "byte_at B (D(B ! (pos div 512) := buf)) (pos + j) = xs ! j" if j: "j < c"
  proof -
    have "(pos + j) div 512 = pos div 512 \<and> (pos + j) mod 512 = pos mod 512 + j" using sector_chunk(2) [OF x(1) c(2), of "pos + j"] j by simp
    then show ?thesis using j c(1) off by (simp add: byte_at_def b nth_append)
  qed
qed

lemma mem_bytes_nth: "j < n \<Longrightarrow> mem_bytes m p n ! j = m (p + of_nat j)"
  by (simp add: mem_bytes_def)

lemma mem_bytes_length [simp]: "length (mem_bytes m p n) = n"
  by (simp add: mem_bytes_def)

lemma bytes_join:
  fixes src :: addr
  assumes "\<forall>j < c. g (pos + j) = m (src + of_nat j)" "\<forall>j < n - c. g (pos + c + j) = m (src + of_nat c + of_nat j)" "j < n"
  shows "g (pos + j) = m (src + of_nat j)"
proof (cases "j < c")
  case False
  then have "j - c < n - c" using assms(3) by linarith
  then have "g (pos + c + (j - c)) = m (src + of_nat c + of_nat (j - c))" using assms(2) by blast
  then show ?thesis using False by (simp add: of_nat_diff)
qed (use assms(1) in simp)

lemma write_loop_ok:
  assumes "f < length (file_table s)" "file_len p s = pos" "pos + n \<le> 512 * N" "N \<le> 140" "sectors_ok (the_disk s) s" "length bl = 140"
    "\<And>k. pos div 512 \<le> k \<Longrightarrow> k < N \<Longrightarrow> bl ! k = B ! k \<and> B ! k \<le> max_lba" "inj_on ((!) B) {..<N}" "n = 0 \<or> first \<or> pos mod 512 = 0"
  shows "\<exists>D. write_loop p f bl src n first s =
      Some (s\<lparr>disks := (disks s)(the_disk s := D), inodes := (inodes s)(p := (inodes s p)\<lparr>i_size := of_nat (pos + n)\<rparr>),
        file_table := (file_table s)[f := (file_table s ! f)\<lparr>fd_pos := fd_pos (file_table s ! f) + of_nat n\<rparr>]\<rparr>) \<and>
    (\<forall>l. length (D l) = 512) \<and> (\<forall>j < pos. byte_at B D j = byte_at B (disks s (the_disk s)) j) \<and> (\<forall>j < n. byte_at B D (pos + j) = mem s (src + of_nat j)) \<and>
    (\<forall>l. (\<forall>k. pos div 512 \<le> k \<and> k < N \<longrightarrow> l \<noteq> B ! k) \<longrightarrow> D l = disks s (the_disk s) l)"
  using assms
proof (induction n arbitrary: s pos src first rule: less_induct)
  case (less n)
  show ?case
  proof (cases "n = 0")
    case True
    have "of_nat pos = i_size (inodes s p)" using less.prems(2) by (simp add: file_len_def flip: less.prems(2))
    then show ?thesis using True less.prems(5) by (intro exI [of _ "disks s (the_disk s)"]) (simp add: write_loop.simps [of p f bl src 0 first s] sectors_ok_def del: write_loop.simps)
  next
    case False
    let ?P = "i_size (inodes s p)" and ?c = "min n (512 - pos mod 512)" and ?D = "disks s (the_disk s)" and ?lba = "B ! (pos div 512)"
    have upos: "unat ?P = pos" using less.prems(2) by (simp add: file_len_def)
    have c: "chunk_at ?P n = ?c" "unat (?P div 512) = pos div 512" "unat (?P mod 512) = pos mod 512" "0 < ?c" "?c \<le> n" "?c \<le> 512 - pos mod 512"
      using chunk_at_nat(1) [OF upos, of n] chunk_at_nat(2,3) [of ?P] upos chunk_at_pos [of n ?P] False by auto
    have N: "pos div 512 < N" using less.prems(3) False by (simp add: div_less_iff_less_mult)
    have lba: "bl ! (pos div 512) = ?lba" "?lba \<le> max_lba" "pos div 512 < length bl" using less.prems(4,6,7) N by auto
    define x where "x = (if first then ?D ?lba else replicate 512 0)"
    have x: "length x = 512" "pos mod 512 = 0 \<or> x = ?D ?lba" using less.prems(5,9) False by (auto simp: x_def sectors_ok_def)
    define xs where "xs = mem_bytes (mem s) src ?c"
    obtain buf where buf: "put_at (pos mod 512) xs x = Some buf" using x(1) c(6) by (simp add: put_at_def xs_def)
    have lbuf: "length buf = 512" using put_at_length [OF buf] x(1) by simp
    define D1 where "D1 = ?D(?lba := buf)"
    define t where "t = s\<lparr>disks := (disks s)(the_disk s := D1), inodes := (inodes s)(p := (inodes s p)\<lparr>i_size := of_nat (pos + ?c)\<rparr>),
        file_table := (file_table s)[f := (file_table s ! f)\<lparr>fd_pos := fd_pos (file_table s ! f) + of_nat ?c\<rparr>]\<rparr>"
    have "?P = of_nat pos" using upos by (simp flip: upos)
    then have size1: "?P + of_nat ?c = of_nat (pos + ?c)" by simp
    have rd: "(if first then disk_read (the_disk s) ?lba 1 s else Some (replicate 512 0)) = Some x" using sector_read [OF lba(2), of "the_disk s" s] by (simp add: x_def)
    have wr: "disk_write (the_disk s) ?lba buf 1 s = Some (s\<lparr>disks := (disks s)(the_disk s := D1)\<rparr>)" using sector_write [OF lba(2) lbuf, of "the_disk s" s] by (simp add: D1_def)
    have step: "write_loop p f bl src n first s = write_loop p f bl (src + of_nat ?c) (n - ?c) False t"
      unfolding write_loop.simps [of p f bl src n first s] the_disk_def [symmetric] Let_def c(1-3) lba(1)
      using False lba(3) rd wr buf size1 by (simp add: xs_def t_def upd_inode_def upd_file_def del: write_loop.simps)
    have "unat (of_nat (pos + ?c) :: u32) = pos + ?c" by (rule unat_of_nat_lt) (use less.prems(3,4) c(5) in simp)
    then have t: "f < length (file_table t)" "file_len p t = pos + ?c" "the_disk t = the_disk s" "sectors_ok (the_disk t) t" "mem t = mem s" "disks t (the_disk s) = D1"
      using less.prems(1,5) lbuf by (simp_all add: t_def file_len_def the_disk_def sectors_ok_def D1_def)
    have full: "n - ?c = 0 \<or> False \<or> (pos + ?c) mod 512 = 0" 
    proof (cases "n \<le> 512 - pos mod 512")
      case False
      have "pos + (512 - r) = 512 * (q + 1)" if "pos = 512 * q + r" "r < 512" for q r using that by simp
      from this [of "pos div 512" "pos mod 512"] have "pos + (512 - pos mod 512) = 512 * (pos div 512 + 1)" by simp
      then have "(pos + (512 - pos mod 512)) mod 512 = 0" by (metis mod_mult_self1_is_0)
      then show ?thesis using False by (simp add: min_def)
    qed simp
    have bl': "bl ! k = B ! k \<and> B ! k \<le> max_lba" if "(pos + ?c) div 512 \<le> k" "k < N" for k
      using less.prems(7) [OF _ that(2)] that(1) div_le_mono [of pos "pos + ?c" 512] by simp
    have less_n: "n - ?c < n" and stop: "pos + ?c + (n - ?c) \<le> 512 * N" using c(4,5) less.prems(3) by auto
    obtain D where D: "write_loop p f bl (src + of_nat ?c) (n - ?c) False t =
        Some (t\<lparr>disks := (disks t)(the_disk s := D), inodes := (inodes t)(p := (inodes t p)\<lparr>i_size := of_nat (pos + ?c + (n - ?c))\<rparr>),
          file_table := (file_table t)[f := (file_table t ! f)\<lparr>fd_pos := fd_pos (file_table t ! f) + of_nat (n - ?c)\<rparr>]\<rparr>)"
      "\<forall>l. length (D l) = 512" "\<forall>j < pos + ?c. byte_at B D j = byte_at B D1 j" "\<forall>j < n - ?c. byte_at B D (pos + ?c + j) = mem s (src + of_nat ?c + of_nat j)"
      "\<forall>l. (\<forall>k. (pos + ?c) div 512 \<le> k \<and> k < N \<longrightarrow> l \<noteq> B ! k) \<longrightarrow> D l = D1 l"
      using less.IH [OF less_n t(1,2) stop less.prems(4) t(4) less.prems(6) bl' less.prems(8) full, of "src + of_nat ?c", unfolded t(3,5,6)] by blast
    have lxs: "length xs = ?c" by (simp add: xs_def)
    note st = chunk_stored [of x pos ?D B xs ?c N buf, OF x lxs c(6,4) less.prems(8) N buf, folded D1_def]
    have pos1: "byte_at B D j = byte_at B ?D j" if "j < pos" for j using D(3) st(1) [of j] that by (simp add: xs_def)
    have "byte_at B D (pos + j) = mem s (src + of_nat j)" if "j < ?c" for j using that D(3) st(2) [of j] by (simp add: xs_def mem_bytes_nth)
    then have pos2: "byte_at B D (pos + j) = mem s (src + of_nat j)" if "j < n" for j using bytes_join [OF _ D(4) that] by blast
    have "D l = ?D l" if "\<forall>k. pos div 512 \<le> k \<and> k < N \<longrightarrow> l \<noteq> B ! k" for l
      using D(5) that N div_le_mono [of pos "pos + ?c" 512] by (simp add: D1_def)
    then have rest: "\<forall>l. (\<forall>k. pos div 512 \<le> k \<and> k < N \<longrightarrow> l \<noteq> B ! k) \<longrightarrow> D l = ?D l" by blast
    have "fd_pos (file_table s ! f) + of_nat ?c + of_nat (n - ?c) = fd_pos (file_table s ! f) + of_nat n" and e: "pos + ?c + (n - ?c) = pos + n"
      using c(5) by (simp_all only: add.assoc of_nat_add [symmetric] le_add_diff_inverse)
    then have "t\<lparr>disks := (disks t)(the_disk s := D), inodes := (inodes t)(p := (inodes t p)\<lparr>i_size := of_nat (pos + n)\<rparr>),
          file_table := (file_table t)[f := (file_table t ! f)\<lparr>fd_pos := fd_pos (file_table t ! f) + of_nat (n - ?c)\<rparr>]\<rparr> =
        s\<lparr>disks := (disks s)(the_disk s := D), inodes := (inodes s)(p := (inodes s p)\<lparr>i_size := of_nat (pos + n)\<rparr>),
          file_table := (file_table s)[f := (file_table s ! f)\<lparr>fd_pos := fd_pos (file_table s ! f) + of_nat n\<rparr>]\<rparr>"
      using less.prems(1) by (simp add: t_def del: of_nat_min)
    then show ?thesis using D(1,2) step pos1 pos2 rest unfolding e by (intro exI [of _ D]) metis
  qed
qed

section \<open>The first block, and the whole\<close>

lemma first_block_ok:
  assumes lay: "fs_layout s" and ok: "file_ok p s" and free: "free_blocks s \<noteq> {}" and root: "block_used s 0"
  shows "\<exists>t. first_block p s = Some (True, t) \<and> extends (file_blocks p s) (file_len p s div 512 + 1) p s t \<and>
    i_sectors (inodes t p) ! 12 = i_sectors (inodes s p) ! 12 \<and> card (free_blocks s) \<le> Suc (card (free_blocks t))"
proof (cases "i_sectors (inodes s p) ! 0 = 0")
  case False
  then have "blocks_ok (file_len p s div 512 + 1) p s" "file_blocks p s = file_len p s div 512 + 1" using ok file_ok_blocks [of p s] by (auto simp: file_blocks_def)
  then show ?thesis using False extends_refl [OF lay] by (auto simp: first_block_def)
next
  case True
  let ?secs = "i_sectors (inodes s p)"
  have n: "file_blocks p s = 0" "file_len p s = 0" and ok0: "blocks_ok 0 p s" using True ok file_ok_blocks [of p s] by (auto simp: file_blocks_def)
  obtain i m D where a: "i \<in> free_blocks s" "block_bitmap_alloc (cur_part s) s = Some (block_addr s i, s\<lparr>mem := m\<rparr>)"
    "bitmap_sync (cur_part s) (block_addr s i - data_start_lba (sb (parts s (cur_part s)))) BLOCK_BITMAP (s\<lparr>mem := m\<rparr>) = Some (s\<lparr>mem := m, disks := D\<rparr>)"
    "grown {block_addr s i} s (s\<lparr>mem := m, disks := D\<rparr>)"
    using alloc_grown [OF lay free] by metis
  let ?b = "block_addr s i"
  have i: "i < blocks_of s" "i \<noteq> 0" using a(1) root by (auto simp: free_blocks_def intro!: gr0I)
  define t where "t = s\<lparr>mem := m, disks := D\<rparr>\<lparr>inodes := (inodes s)(p := (inodes s p)\<lparr>i_sectors := ?secs[0 := ?b]\<rparr>)\<rparr>"
  have "?b \<noteq> block_addr s 0" using block_addr_inj [OF lay i(1), of 0] i by simp
  then have "?b - data_start_lba (sb (parts s (cur_part s))) \<noteq> 0" by (simp add: block_addr_def)
  then have "first_block p s = Some (True, t)"
    using True a(2,3) block_addr_ok(3) [OF lay i(1)] by (simp add: first_block_def set_sector_inodes bitmap_sync_inodes t_def)
  moreover have g: "grown {?b} s t" using a(4) by (simp add: t_def)
  then have "extends 0 1 p s t" using grow_direct [OF lay ok0, of 1 "[?b]" t] a(1) by (auto simp: t_def)
  moreover have "free_blocks t = free_blocks s - {i}" using grown_free [OF lay g] block_addr_inj [OF lay] i(1) by (auto simp: free_blocks_def)
  then have "card (free_blocks s) \<le> Suc (card (free_blocks t))" using a(1) by (simp add: card_Diff_singleton)
  moreover have "i_sectors (inodes t p) ! 12 = ?secs ! 12" by (simp add: t_def)
  ultimately show ?thesis using n by auto
qed

lemma extends_trans:
  assumes "extends h w p s t" "extends w v p t u" "h \<le> w" "i_sectors (inodes t p) ! 12 = i_sectors (inodes s p) ! 12"
  shows "extends h v p s u"
proof -
  have "the_disk t = the_disk s" "bitmap_byte t = bitmap_byte s" using assms(1) by (simp_all add: extends_def the_disk_def bitmap_byte_def blocks_of_def fun_eq_iff)
  moreover have "\<not> in_use s (block_list p u ! k)" if "h \<le> k" "k < v" for k
  proof (cases "k < w")
    case False
    then have "\<not> in_use t (block_list p u ! k)" using that(2) assms(2) by (simp add: extends_def)
    then show ?thesis using assms(1) by (auto simp: extends_def)
  qed (use that(1) assms(1,2) in \<open>simp add: extends_def\<close>)
  ultimately show ?thesis using assms by (simp add: extends_def)
qed

text \<open>The blocks a file needs so that \<open>count\<close> bytes can be appended: one for each full sector, one for the first data of an empty file, one for the index block and one to spare.\<close>

lemma blocks_collected:
  assumes lay: "fs_layout s" and ok: "file_ok p s" and root: "block_used s 0" and size: "file_len p s + n < 512 * 140" and free: "n div 512 + 3 \<le> card (free_blocks s)"
  shows "\<exists>t bl u. first_block p s = Some (True, t) \<and> collect_blocks p (file_len p s div 512 + 1) ((file_len p s + n) div 512 + 1) t = Some (Some bl, u) \<and>
    i_size (inodes t p) = i_size (inodes s p) \<and> extends (file_blocks p s) ((file_len p s + n) div 512 + 1) p s u \<and> length bl = 140 \<and>
    (\<forall>k. file_len p s div 512 \<le> k \<and> k < (file_len p s + n) div 512 + 1 \<longrightarrow> bl ! k = block_list p u ! k)"
proof -
  let ?h = "file_len p s div 512 + 1" and ?w = "(file_len p s + n) div 512 + 1"
  obtain t where t: "first_block p s = Some (True, t)" "extends (file_blocks p s) ?h p s t" "i_sectors (inodes t p) ! 12 = i_sectors (inodes s p) ! 12"
    "card (free_blocks s) \<le> Suc (card (free_blocks t))"
    using first_block_ok [OF lay ok _ root] free by fastforce
  have w: "?w \<le> 140" using size by (simp add: Suc_le_eq div_less_iff_less_mult)
  have "?h \<le> ?w" by (simp add: div_le_mono)
  moreover have "?w - ?h \<le> n div 512 + 1"
  proof -
    have "(a + b) div 512 \<le> a div 512 + b div 512 + 1" for a b :: nat by linarith
    then show ?thesis by (simp add: le_diff_conv)
  qed
  ultimately obtain bl u where u: "collect_blocks p ?h ?w t = Some (Some bl, u)" "extends ?h ?w p t u" "length bl = 140" "\<forall>k. ?h - 1 \<le> k \<and> k < ?w \<longrightarrow> bl ! k = block_list p u ! k"
    using collect_ok [of t ?h p ?w] t(2,4) w free by (auto simp: extends_def)
  have "file_blocks p s \<le> ?h" by (simp add: file_blocks_def)
  then have "extends (file_blocks p s) ?w p s u" using extends_trans [OF t(2) u(2)] t(3) by simp
  then show ?thesis using t u by (auto simp: extends_def)
qed

text \<open>The sectors a file owns.\<close>

definition owns :: "addr \<Rightarrow> 'a fsys_scheme \<Rightarrow> u32 \<Rightarrow> bool" where
  "owns p s x \<longleftrightarrow> x \<in> set (take (file_blocks p s) (block_list p s)) \<or> x = i_sectors (inodes s p) ! 12"

text \<open>Writing data into the blocks of a file keeps them; \<open>t\<close> is the state after it.\<close>

lemma blocks_kept:
  assumes "blocks_ok w p u" "\<forall>x. in_use u x \<longrightarrow> x \<notin> set (take w (block_list p u)) \<longrightarrow> D x = disks u (the_disk u) x"
    and t: "parts t = parts u" "cur_part t = cur_part u" "mem t = mem u" "disks t (the_disk u) = D" "i_sectors (inodes t p) = i_sectors (inodes u p)"
  shows "block_list p t = block_list p u" "in_use t = in_use u" "blocks_ok w p t"
proof -
  have dk: "the_disk t = the_disk u" using t by (simp add: the_disk_def)
  show bl: "block_list p t = block_list p u"
  proof (cases "i_sectors (inodes u p) ! 12 = 0")
    case False
    then have "in_use u (i_sectors (inodes u p) ! 12)" "i_sectors (inodes u p) ! 12 \<notin> set (take w (block_list p u))" using assms(1) by (auto simp: blocks_ok_def Let_def split: if_splits)
    then have "D (i_sectors (inodes u p) ! 12) = disks u (the_disk u) (i_sectors (inodes u p) ! 12)" using assms(2) by blast
    then show ?thesis using t(4,5) dk by (simp add: block_list_def)
  qed (use t(5) in \<open>simp add: block_list_def\<close>)
  show use: "in_use t = in_use u" by (intro ext) (simp add: in_use_def block_addr_def block_used_def blocks_of_def t)
  show "blocks_ok w p t" using assms(1) by (simp add: blocks_ok_def Let_def bl use t(5))
qed

lemma block_list_inj:
  assumes "blocks_ok w p u"
  shows "inj_on ((!) (block_list p u)) {..<w}"
proof -
  have "inj_on ((!) (take w (block_list p u))) {..<w}"
    using assms block_list_length [of u p] by (intro inj_on_nth) (auto simp: blocks_ok_def Let_def)
  then show ?thesis by (simp add: inj_on_def)
qed

text \<open>The bytes of a file that has been extended are the old ones.\<close>

lemma extends_byte:
  assumes "fs_layout s" "extends (file_blocks p s) w p s u" "file_ok p s" "j < file_len p s"
  shows "byte_at (block_list p u) (disks u (the_disk s)) j = file_byte p s j"
proof -
  let ?b = "block_list p s ! (j div 512)" and ?ib = "i_sectors (inodes s p) ! 12"
  have k: "j div 512 < file_blocks p s" using assms(4) file_blocks_pos [OF assms(3)] by (simp add: less_Suc_eq_le div_le_mono)
  then have b: "in_use s ?b" "?b \<in> set (take (file_blocks p s) (block_list p s))"
    using assms(3) block_list_length [of s p] by (auto simp: file_ok_def Let_def in_set_conv_nth)
  then have "?b \<noteq> ?ib" using in_use_ok [OF assms(1) b(1)] assms(3) by (auto simp: file_ok_def Let_def split: if_splits)
  then show ?thesis using assms(2) k b(1) by (simp add: byte_at_def file_byte_def extends_def)
qed

lemma extends_disjoint:
  assumes "extends (file_blocks p s) w p s u" "file_ok p s" "in_use s x" "x \<notin> set (take (file_blocks p s) (block_list p s))"
  shows "x \<notin> set (take w (block_list p u))"
proof
  assume "x \<in> set (take w (block_list p u))"
  then obtain k where k: "k < w" "x = block_list p u ! k" by (auto simp: in_set_conv_nth)
  show False
  proof (cases "k < file_blocks p s")
    case True
    then have "x \<in> set (take (file_blocks p s) (block_list p s))"
      using k assms(1,2) block_list_length [of s p] by (auto simp: extends_def in_set_conv_nth file_ok_def Let_def)
    then show False using assms(4) by simp
  qed (use k assms(1,3) in \<open>simp add: extends_def\<close>)
qed

text \<open>The loop that writes, on a file whose blocks have been collected.\<close>

lemma data_appended:
  assumes lay: "fs_layout u" and ok: "blocks_ok w p u" and f: "f < length (file_table u)" and len: "file_len p u = len" and w: "w = (len + n) div 512 + 1"
    and bl: "length bl = 140" "\<forall>k. len div 512 \<le> k \<and> k < w \<longrightarrow> bl ! k = block_list p u ! k"
  shows "\<exists>v. write_loop p f bl buf n True u = Some v \<and> fs_layout v \<and> file_ok p v \<and> in_use v = in_use u \<and> (\<forall>q. q \<noteq> p \<longrightarrow> inodes v q = inodes u q) \<and>
    contents p v = map (byte_at (block_list p u) (disks u (the_disk u))) [0..<len] @ mem_bytes (mem u) buf n \<and>
    (\<forall>x. x \<notin> set (take w (block_list p u)) \<longrightarrow> disks v (the_disk u) x = disks u (the_disk u) x)"
proof -
  let ?B = "block_list p u" and ?D = "disks u (the_disk u)"
  have l: "length ?B = 140" and w140: "w \<le> 140" using ok block_list_length [of u p] by (auto simp: blocks_ok_def Let_def)
  have size: "len + n < 512 * w" unfolding w by (rule dividend_less_times_div [of 512, simplified, THEN order.strict_trans2]) simp
  have B: "bl ! k = ?B ! k \<and> ?B ! k \<le> max_lba" if "len div 512 \<le> k" "k < w" for k
    using bl(2) that ok in_use_ok [OF lay, of "?B ! k"] by (simp add: blocks_ok_def Let_def)
  have "sectors_ok (the_disk u) u" using lay by (simp add: fs_layout_def Let_def the_disk_def)
  then obtain D where D: "write_loop p f bl buf n True u =
      Some (u\<lparr>disks := (disks u)(the_disk u := D), inodes := (inodes u)(p := (inodes u p)\<lparr>i_size := of_nat (len + n)\<rparr>),
        file_table := (file_table u)[f := (file_table u ! f)\<lparr>fd_pos := fd_pos (file_table u ! f) + of_nat n\<rparr>]\<rparr>)"
    "\<forall>l. length (D l) = 512" "\<forall>j < len. byte_at ?B D j = byte_at ?B ?D j" "\<forall>j < n. byte_at ?B D (len + j) = mem u (buf + of_nat j)"
    "\<forall>l. (\<forall>k. len div 512 \<le> k \<and> k < w \<longrightarrow> l \<noteq> ?B ! k) \<longrightarrow> D l = ?D l"
    using write_loop_ok [OF f len _ w140 _ bl(1) B block_list_inj [OF ok], of n True buf] size by auto
  define v where "v = u\<lparr>disks := (disks u)(the_disk u := D), inodes := (inodes u)(p := (inodes u p)\<lparr>i_size := of_nat (len + n)\<rparr>),
        file_table := (file_table u)[f := (file_table u ! f)\<lparr>fd_pos := fd_pos (file_table u ! f) + of_nat n\<rparr>]\<rparr>"
  have other: "D x = ?D x" if "x \<notin> set (take w ?B)" for x
  proof -
    have "\<forall>k. len div 512 \<le> k \<and> k < w \<longrightarrow> x \<noteq> ?B ! k" using that l w140 by (auto simp: in_set_conv_nth)
    then show ?thesis using D(5) by blast
  qed
  then have "\<forall>x. in_use u x \<longrightarrow> x \<notin> set (take w ?B) \<longrightarrow> D x = ?D x" by blast
  note kept = blocks_kept [OF ok this, of v]
  have kept: "block_list p v = ?B" "in_use v = in_use u" "blocks_ok w p v" using kept by (simp_all add: v_def)
  have "unat (of_nat (len + n) :: u32) = len + n" by (rule unat_of_nat_lt) (use size w140 in simp)
  then have len': "file_len p v = len + n" by (simp add: file_len_def v_def)
  have "in_use v (block_list p v ! 0)" "length (i_sectors (inodes v p)) = 13" using kept(3) by (simp_all add: blocks_ok_def Let_def w)
  moreover have lay': "fs_layout v" using lay D(2) by (simp add: v_def fs_layout_def sectors_ok_def Let_def the_disk_def)
  ultimately have "i_sectors (inodes v p) ! 0 \<noteq> 0" using in_use_ok block_list_direct [of v p 0] by fastforce
  then have "file_blocks p v = w" by (simp add: file_blocks_def len' w)
  then have "file_ok p v" using kept(3) w by (simp add: file_ok_blocks)
  moreover have "file_byte p v j = byte_at ?B D j" for j by (simp add: file_byte_def byte_at_def kept(1)) (simp add: v_def the_disk_def)
  then have "contents p v = map (byte_at ?B ?D) [0..<len] @ mem_bytes (mem u) buf n"
    using D(3,4) by (simp add: contents_def len' map_upt_split mem_bytes_def)
  ultimately show ?thesis using D(1) lay' kept(2) other by (intro exI [of _ v]) (simp add: v_def)
qed

text \<open>The numbers of blocks before and after, without overflow.\<close>

lemma write_blocks:
  fixes pos count :: u32
  assumes "unat pos + unat count < 512 * 140"
  shows "unat (pos div 512 + 1) = unat pos div 512 + 1" "unat ((pos + count) div 512 + 1) = (unat pos + unat count) div 512 + 1" "(pos + count) div 512 + 1 \<le> 140"
proof -
  have s: "unat (x div 512 + 1) = unat x div 512 + 1" if "unat x < 512 * 140" for x :: u32
  proof -
    have "unat (x div 512) < 140" using that by (simp add: unat_div div_less_iff_less_mult)
    then show ?thesis by (simp add: unat_div unat_add_lem [THEN iffD1])
  qed
  have u: "unat (pos + count) = unat pos + unat count" using assms by (simp add: unat_add_lem [THEN iffD1])
  show "unat (pos div 512 + 1) = unat pos div 512 + 1" "unat ((pos + count) div 512 + 1) = (unat pos + unat count) div 512 + 1" using s [of pos] s [of "pos + count"] assms u by simp_all
  then show "(pos + count) div 512 + 1 \<le> 140" using assms by (simp add: word_le_nat_alt Suc_le_eq div_less_iff_less_mult)
qed

section \<open>Claims\<close>


lemma bare_file_free: "4 \<le> card (free_blocks bare_file)"
proof -
  have "{1, 2, 3, 4} \<subseteq> free_blocks bare_file"
    by (auto simp: free_blocks_def block_used_def blocks_of_def bare_part_def bm_bits_def used_def)
  from card_mono [OF _ this] show ?thesis by simp
qed

lemma bare_file_data: "j < 600 \<Longrightarrow> \<not> bitmap_byte bare_file (0x1000 + of_nat j)"
proof
  assume j: "j < 600" and "bitmap_byte bare_file (0x1000 + of_nat j)"
  then obtain i where i: "i < 16384" "0x1000 + of_nat j = (0xc0300000 :: addr) + of_nat (i div 8)"
    by (auto simp: bitmap_byte_def blocks_of_def bare_part_def bm_bits_def)
  have "unat (0x1000 + of_nat j :: addr) = 0x1000 + j" using j by (simp add: unat_add_lem [THEN iffD1] unat_of_nat_lt)
  moreover have "i div 8 < 2048" using i(1) by (simp add: div_less_iff_less_mult)
  then have "unat ((0xc0300000 :: addr) + of_nat (i div 8)) = 0xc0300000 + i div 8" by (simp add: unat_add_lem [THEN iffD1] unat_of_nat_lt)
  ultimately have "0x1000 + j = 0xc0300000 + i div 8" using i(2) by metis
  then show False using j by simp
qed


end
