(* ===== verification/Timer.thy ===== *)
theory Timer
  imports Gates
begin

text \<open>
  The rest of \<^verbatim>\<open>device/timer.c\<close> (the interrupt handler is in \<^verbatim>\<open>Thread\<close>): programming the interval counter and sleeping. A
  sleeping thread gives up the processor until enough ticks have passed; the loop may run for ever when the ticks stand still, so it is a \<^theory_text>\<open>partial_function\<close>.

  The lemmas show that the loop ends once the ticks advance, also across the wrap-around of the counter, and which
  value the counter is really loaded with.
\<close>

section \<open>The operations\<close>

definition IRQ0_FREQUENCY :: u32 where
  "IRQ0_FREQUENCY = 100"

definition COUNTER0_VALUE :: u32 where
  "COUNTER0_VALUE = 1193180 div IRQ0_FREQUENCY"

definition mil_seconds_per_intr :: u32 where
  "mil_seconds_per_intr = 1000 div IRQ0_FREQUENCY"

text \<open>The operands of the shifts are promoted to \<open>int\<close>; the cast in \<open>(uint8_t) counter_value >> 8\<close> is applied before the shift.\<close>

definition frequency_set :: "u8 \<Rightarrow> u8 \<Rightarrow> u8 \<Rightarrow> u8 \<Rightarrow> u16 \<Rightarrow> 'a tables_scheme \<Rightarrow> 'a tables_scheme" where
  "frequency_set counter_port counter_no rwl counter_mode counter_value s =
     (let s = outb 0x43 (ucast (push_bit 6 (ucast counter_no :: u32) OR push_bit 4 (ucast rwl) OR push_bit 1 (ucast counter_mode))) s;
          s = outb (ucast counter_port) (ucast counter_value) s
      in outb (ucast counter_port) (ucast (drop_bit 8 (ucast (ucast counter_value :: u8) :: u32))) s)"

definition timer_init :: "addr \<Rightarrow> 'a tables_scheme \<Rightarrow> 'a tables_scheme option" where
  "timer_init timer_handler s = register_handler 0x20 timer_handler (frequency_set 0x40 0 3 2 (ucast COUNTER0_VALUE) s)"

partial_function (option) sleep_loop ::
    "(addr \<Rightarrow> 'a tsys_scheme \<Rightarrow> 'a tsys_scheme option) \<Rightarrow> u32 \<Rightarrow> u32 \<Rightarrow> 'a tsys_scheme \<Rightarrow> 'a tsys_scheme option" where
  "sleep_loop others start_tick sleep_ticks s =
     (if timer_ticks s - start_tick < sleep_ticks then do {
        s \<leftarrow> thread_yield others s;
        sleep_loop others start_tick sleep_ticks s }
      else Some s)"

definition ticks_to_sleep :: "(addr \<Rightarrow> 'a tsys_scheme \<Rightarrow> 'a tsys_scheme option) \<Rightarrow> u32 \<Rightarrow> 'a tsys_scheme \<Rightarrow> 'a tsys_scheme option" where
  "ticks_to_sleep others sleep_ticks s = (let start_tick = timer_ticks s in sleep_loop others start_tick sleep_ticks s)"

definition mtime_sleep :: "(addr \<Rightarrow> 'a tsys_scheme \<Rightarrow> 'a tsys_scheme option) \<Rightarrow> u32 \<Rightarrow> 'a tsys_scheme \<Rightarrow> 'a tsys_scheme option" where
  "mtime_sleep others m_seconds s = do {
     let sleep_ticks = DIV_ROUND_UP m_seconds mil_seconds_per_intr;
     ASSERT (0 < sleep_ticks);
     ticks_to_sleep others sleep_ticks s }"

section \<open>Sleeping ends\<close>

text \<open>When every turn of the other threads comes back in a state of the same kind with \<open>1\<close> to \<open>d\<close> more ticks, the loop ends, not before the time is over and at
  most \<open>d - 1\<close> ticks late. The subtraction is modulo the word size, so the counter may wrap meanwhile.\<close>

lemma sleep_loop_ends:
  assumes turn: "\<And>s. P s \<Longrightarrow> \<exists>s'. thread_yield others s = Some s' \<and> P s' \<and> 1 \<le> unat (timer_ticks s' - timer_ticks s) \<and> unat (timer_ticks s' - timer_ticks s) \<le> d"
    and bound: "unat n + d \<le> 2 ^ 32" and start: "P s" "unat (timer_ticks s - st) < unat n + d"
  shows "\<exists>s'. sleep_loop others st n s = Some s' \<and> P s' \<and> unat n \<le> unat (timer_ticks s' - st) \<and> unat (timer_ticks s' - st) < unat n + d"
  using start
proof (induction "unat n - unat (timer_ticks s - st)" arbitrary: s rule: less_induct)
  case less
  show ?case
  proof (cases "timer_ticks s - st < n")
    case True
    obtain s1 where s1: "thread_yield others s = Some s1" "P s1" "1 \<le> unat (timer_ticks s1 - timer_ticks s)" "unat (timer_ticks s1 - timer_ticks s) \<le> d"
      using turn [OF less.prems(1)] by blast
    have lt: "unat (timer_ticks s - st) < unat n" using True by (simp add: word_less_nat_alt)
    have "unat (timer_ticks s - st) + unat (timer_ticks s1 - timer_ticks s) < 2 ^ LENGTH(32)" using lt s1(4) bound by simp
    from unat_add_lt [OF this] have u: "unat (timer_ticks s1 - st) = unat (timer_ticks s - st) + unat (timer_ticks s1 - timer_ticks s)" by simp
    have "\<exists>s'. sleep_loop others st n s1 = Some s' \<and> P s' \<and> unat n \<le> unat (timer_ticks s' - st) \<and> unat (timer_ticks s' - st) < unat n + d"
      by (rule less.hyps) (use u lt s1 in auto)
    then show ?thesis using True s1(1) by (subst sleep_loop.simps) simp
  next
    case False
    then show ?thesis using less.prems by (subst sleep_loop.simps) (auto simp: word_less_nat_alt)
  qed
qed

text \<open>The number of ticks is the number of milliseconds divided by 10, rounded up, as long as the addition of the macro does not wrap.\<close>

lemma mtime_sleep_ticks:
  assumes "unat ms + 9 < 2 ^ 32"
  shows "unat (DIV_ROUND_UP ms mil_seconds_per_intr) = (unat ms + 9) div 10"
proof -
  have ten: "mil_seconds_per_intr = 10" by (simp add: mil_seconds_per_intr_def IRQ0_FREQUENCY_def)
  have "unat (ms + 9) = unat ms + 9" using assms by (subst unat_add_lt) simp_all
  moreover have "DIV_ROUND_UP ms 10 = (ms + 9) div 10" by (simp add: DIV_ROUND_UP_def add.commute)
  ultimately show ?thesis unfolding ten by (simp add: unat_div)
qed

section \<open>The counter\<close>

text \<open>The three bytes \<open>timer_init\<close> writes: the control word selects counter 0, low byte first, mode 2; then the low byte of 11931 and zero, since the high byte is lost
  before the shift. The counter is loaded with 155 and not with 11931.\<close>

lemma timer_init_ports:
  assumes "0x20 < length (idt_table s)"
  shows "\<exists>s'. timer_init h s = Some s' \<and> ports s' = (0x40, 0) # (0x40, 155) # (0x43, 0x34) # ports s \<and> idt_table s' ! 0x20 = h \<and>
    COUNTER0_VALUE = 11931"
  using assms by (simp add: timer_init_def register_handler_def frequency_set_def outb_def Let_def IDT_DESC_CNT_def COUNTER0_VALUE_def IRQ0_FREQUENCY_def)

end
