(* ===== verification/Ide.thy ===== *)
theory Ide
  imports Fs FileWrite Timer
begin

text \<open>
  The disk driver of \<^verbatim>\<open>device/ide.c\<close>. The controller is no part of the kernel: it is a parameter, the record \<open>ata\<close> of what its ports do to its state, and what the driver relies on is
  the hypothesis \<open>ata_ok\<close>. Channels and disks are records by address; their locks and semaphores are those of \<^verbatim>\<open>Sync\<close>. The parameter \<open>arrive\<close> stands for the interrupts that arrive
  between the command or the data and the call of \<open>sema_down\<close>; an interrupt that arrives later is part of \<open>others\<close>. Messages are not part of the state.

  The lemmas show that \<open>ide_read\<close> and \<open>ide_write\<close> transfer the sectors as \<open>disk_read\<close> and \<open>disk_write\<close> say, in pieces of at most 256 sectors.
\<close>

section \<open>Structures\<close>

text \<open>A channel has its name at offset 0, its lock at offset 12, the semaphore \<open>disk_done\<close> at offset 44 and two disks of 784 bytes from offset 64 on.\<close>

record ide_channel =
  port_base :: u16
  irq_no :: u8
  expecting_intr :: bool

text \<open>A disk has its name at offset 0, four primary partitions of 64 bytes from offset 16 on and eight logical ones from offset 272 on.\<close>

record disk =
  my_channel :: addr
  dev_no :: u8

record 'd ata =
  out_b :: "u16 \<Rightarrow> u8 \<Rightarrow> 'd \<Rightarrow> 'd"
  in_b :: "u16 \<Rightarrow> 'd \<Rightarrow> u8 \<times> 'd"
  out_w :: "u16 \<Rightarrow> u16 \<Rightarrow> 'd \<Rightarrow> 'd"
  in_w :: "u16 \<Rightarrow> 'd \<Rightarrow> u16 \<times> 'd"

record 'd idesys = fsys +
  dev :: 'd
  channels :: addr
  chans :: "addr \<Rightarrow> ide_channel"
  hds :: "addr \<Rightarrow> disk"
  channel_cnt :: u8
  ext_lba_base :: u32
  p_no :: u8
  l_no :: u8
  partition_list :: addr

definition chan_lock :: "addr \<Rightarrow> addr" where
  "chan_lock ch = ch + 12"

definition disk_done :: "addr \<Rightarrow> addr" where
  "disk_done ch = ch + 44"

definition devices :: "addr \<Rightarrow> nat \<Rightarrow> addr" where
  "devices ch i = ch + 64 + of_nat (784 * i)"

definition prim_parts :: "addr \<Rightarrow> u8 \<Rightarrow> addr" where
  "prim_parts dk i = dk + 16 + 64 * ucast i"

definition logic_parts :: "addr \<Rightarrow> u8 \<Rightarrow> addr" where
  "logic_parts dk i = dk + 272 + 64 * ucast i"

definition part_tag :: "addr \<Rightarrow> addr" where
  "part_tag part = part + 12"

definition part_name :: "addr \<Rightarrow> addr" where
  "part_name part = part + 20"

definition upd_chan :: "addr \<Rightarrow> (ide_channel \<Rightarrow> ide_channel) \<Rightarrow> ('d, 'a) idesys_scheme \<Rightarrow> ('d, 'a) idesys_scheme" where
  "upd_chan ch f s = s\<lparr>chans := (chans s)(ch := f (chans s ch))\<rparr>"

definition upd_hd :: "addr \<Rightarrow> (disk \<Rightarrow> disk) \<Rightarrow> ('d, 'a) idesys_scheme \<Rightarrow> ('d, 'a) idesys_scheme" where
  "upd_hd dk f s = s\<lparr>hds := (hds s)(dk := f (hds s dk))\<rparr>"

section \<open>Ports\<close>

text \<open>The ports of the controller; \<open>rep insw\<close> and \<open>rep outsw\<close> move one word after the other, low byte first.\<close>

definition port_out :: "'d ata \<Rightarrow> u16 \<Rightarrow> u8 \<Rightarrow> ('d, 'a) idesys_scheme \<Rightarrow> ('d, 'a) idesys_scheme" where
  "port_out hw port data s = s\<lparr>dev := out_b hw port data (dev s)\<rparr>"

definition inb :: "'d ata \<Rightarrow> u16 \<Rightarrow> ('d, 'a) idesys_scheme \<Rightarrow> u8 \<times> ('d, 'a) idesys_scheme" where
  "inb hw port s = (let (v, d) = in_b hw port (dev s) in (v, s\<lparr>dev := d\<rparr>))"

primrec insw :: "'d ata \<Rightarrow> u16 \<Rightarrow> addr \<Rightarrow> nat \<Rightarrow> ('d, 'a) idesys_scheme \<Rightarrow> ('d, 'a) idesys_scheme" where
  "insw hw port p 0 s = s"
| "insw hw port p (Suc n) s =
     (let (w, d) = in_w hw port (dev s)
      in insw hw port (p + 2) n (s\<lparr>mem := (mem s)(p := ucast w, p + 1 := ucast (drop_bit 8 w)), dev := d\<rparr>))"

primrec outsw :: "'d ata \<Rightarrow> u16 \<Rightarrow> addr \<Rightarrow> nat \<Rightarrow> ('d, 'a) idesys_scheme \<Rightarrow> ('d, 'a) idesys_scheme" where
  "outsw hw port p 0 s = s"
| "outsw hw port p (Suc n) s =
     outsw hw port (p + 2) n (s\<lparr>dev := out_w hw port (ucast (mem s p) OR push_bit 8 (ucast (mem s (p + 1)))) (dev s)\<rparr>)"

definition reg :: "addr \<Rightarrow> u16 \<Rightarrow> ('d, 'a) idesys_scheme \<Rightarrow> u16" where
  "reg ch i s = port_base (chans s ch) + i"

definition BIT_STAT_BSY :: u8 where "BIT_STAT_BSY = 0x80"
definition BIT_STAT_DRQ :: u8 where "BIT_STAT_DRQ = 0x8"
definition BIT_DEV_MBS :: u8 where "BIT_DEV_MBS = 0xa0"
definition BIT_DEV_LBA :: u8 where "BIT_DEV_LBA = 0x40"
definition BIT_DEV_DEV :: u8 where "BIT_DEV_DEV = 0x10"
definition CMD_IDENTIFY :: u8 where "CMD_IDENTIFY = 0xec"
definition CMD_READ_SECTOR :: u8 where "CMD_READ_SECTOR = 0x20"
definition CMD_WRITE_SECTOR :: u8 where "CMD_WRITE_SECTOR = 0x30"

section \<open>The operations\<close>

definition select_disk :: "'d ata \<Rightarrow> addr \<Rightarrow> ('d, 'a) idesys_scheme \<Rightarrow> ('d, 'a) idesys_scheme" where
  "select_disk hw dk s =
     (let reg_device = BIT_DEV_MBS OR BIT_DEV_LBA;
          reg_device = (if dev_no (hds s dk) = 1 then reg_device OR BIT_DEV_DEV else reg_device)
      in port_out hw (reg (my_channel (hds s dk)) 6 s) reg_device s)"

definition select_sector :: "'d ata \<Rightarrow> addr \<Rightarrow> u32 \<Rightarrow> u8 \<Rightarrow> ('d, 'a) idesys_scheme \<Rightarrow> ('d, 'a) idesys_scheme option" where
  "select_sector hw dk lba cnt s = do {
     ASSERT (lba \<le> max_lba);
     let ch = my_channel (hds s dk);
     let s = port_out hw (reg ch 2 s) cnt s;
     let s = port_out hw (reg ch 3 s) (ucast lba) s;
     let s = port_out hw (reg ch 4 s) (ucast (drop_bit 8 lba)) s;
     let s = port_out hw (reg ch 5 s) (ucast (drop_bit 16 lba)) s;
     Some (port_out hw (reg ch 6 s) (BIT_DEV_MBS OR BIT_DEV_LBA OR (if dev_no (hds s dk) = 1 then BIT_DEV_DEV else 0) OR ucast (drop_bit 24 lba)) s) }"

definition cmd_out :: "'d ata \<Rightarrow> addr \<Rightarrow> u8 \<Rightarrow> ('d, 'a) idesys_scheme \<Rightarrow> ('d, 'a) idesys_scheme" where
  "cmd_out hw ch cmd s = (let s = upd_chan ch (\<lambda>c. c\<lparr>expecting_intr := True\<rparr>) s in port_out hw (reg ch 7 s) cmd s)"

text \<open>A count of 0 stands for 256 sectors.\<close>

definition size_in_byte :: "u8 \<Rightarrow> nat" where
  "size_in_byte cnt = (if cnt = 0 then 256 * 512 else unat cnt * 512)"

definition read_from_sector :: "'d ata \<Rightarrow> addr \<Rightarrow> addr \<Rightarrow> u8 \<Rightarrow> ('d, 'a) idesys_scheme \<Rightarrow> ('d, 'a) idesys_scheme" where
  "read_from_sector hw dk buf cnt s = insw hw (reg (my_channel (hds s dk)) 0 s) buf (size_in_byte cnt div 2) s"

definition write2sector :: "'d ata \<Rightarrow> addr \<Rightarrow> addr \<Rightarrow> u8 \<Rightarrow> ('d, 'a) idesys_scheme \<Rightarrow> ('d, 'a) idesys_scheme" where
  "write2sector hw dk buf cnt s = outsw hw (reg (my_channel (hds s dk)) 0 s) buf (size_in_byte cnt div 2) s"

text \<open>The condition \<open>time_limit -= 10 >= 0\<close> subtracts the value of the comparison, which is 1: the body runs up to 29999 times.\<close>

fun busy_loop :: "'d ata \<Rightarrow> (addr \<Rightarrow> ('d, 'a) idesys_scheme \<Rightarrow> ('d, 'a) idesys_scheme option) \<Rightarrow> addr \<Rightarrow> nat \<Rightarrow> ('d, 'a) idesys_scheme \<Rightarrow>
    (bool \<times> ('d, 'a) idesys_scheme) option" where
  "busy_loop hw others ch 0 s = Some (False, s)"
| "busy_loop hw others ch (Suc time_limit) s =
     (let (st, s) = inb hw (reg ch 7 s) s in
      if st AND BIT_STAT_BSY = 0 then (let (st, s) = inb hw (reg ch 7 s) s in Some (st AND BIT_STAT_DRQ \<noteq> 0, s))
      else do {
        s \<leftarrow> mtime_sleep others 10 s;
        busy_loop hw others ch time_limit s })"

definition busy_wait :: "'d ata \<Rightarrow> (addr \<Rightarrow> ('d, 'a) idesys_scheme \<Rightarrow> ('d, 'a) idesys_scheme option) \<Rightarrow> addr \<Rightarrow> ('d, 'a) idesys_scheme \<Rightarrow>
    (bool \<times> ('d, 'a) idesys_scheme) option" where
  "busy_wait hw others dk s = busy_loop hw others (my_channel (hds s dk)) (30 * 1000 - 1) s"

text \<open>The loop of \<open>ide_read\<close>; the number of sectors of a piece is cut to 8 bits on the way.\<close>

definition secs_op :: "u32 \<Rightarrow> u32 \<Rightarrow> u32" where
  "secs_op secs_done n = (if secs_done + 256 \<le> n then 256 else n - secs_done)"

definition read_piece :: "'d ata \<Rightarrow> (addr \<Rightarrow> ('d, 'a) idesys_scheme \<Rightarrow> ('d, 'a) idesys_scheme option) \<Rightarrow> (('d, 'a) idesys_scheme \<Rightarrow> ('d, 'a) idesys_scheme option) \<Rightarrow>
    addr \<Rightarrow> u32 \<Rightarrow> addr \<Rightarrow> u32 \<Rightarrow> ('d, 'a) idesys_scheme \<Rightarrow> ('d, 'a) idesys_scheme option" where
  "read_piece hw others arrive dk lba buf op s = do {
     s \<leftarrow> select_sector hw dk lba (ucast op) s;
     let s = cmd_out hw (my_channel (hds s dk)) CMD_READ_SECTOR s;
     s \<leftarrow> arrive s;
     s \<leftarrow> sema_down others (disk_done (my_channel (hds s dk))) s;
     (ok, s) \<leftarrow> busy_wait hw others dk s;
     ASSERT ok;
     Some (read_from_sector hw dk buf (ucast op) s) }"

definition write_piece :: "'d ata \<Rightarrow> (addr \<Rightarrow> ('d, 'a) idesys_scheme \<Rightarrow> ('d, 'a) idesys_scheme option) \<Rightarrow> (('d, 'a) idesys_scheme \<Rightarrow> ('d, 'a) idesys_scheme option) \<Rightarrow>
    addr \<Rightarrow> u32 \<Rightarrow> addr \<Rightarrow> u32 \<Rightarrow> ('d, 'a) idesys_scheme \<Rightarrow> ('d, 'a) idesys_scheme option" where
  "write_piece hw others arrive dk lba buf op s = do {
     s \<leftarrow> select_sector hw dk lba (ucast op) s;
     let s = cmd_out hw (my_channel (hds s dk)) CMD_WRITE_SECTOR s;
     (ok, s) \<leftarrow> busy_wait hw others dk s;
     ASSERT ok;
     let s = write2sector hw dk buf (ucast op) s;
     s \<leftarrow> arrive s;
     sema_down others (disk_done (my_channel (hds s dk))) s }"

text \<open>The loop that both functions have, with the piece as a parameter. When the number of sectors is close to \<open>2 ^ 32\<close> the sum wraps and the loop does not end.\<close>

partial_function (option) pieces :: "(u32 \<Rightarrow> addr \<Rightarrow> u32 \<Rightarrow> 's \<Rightarrow> 's option) \<Rightarrow> u32 \<Rightarrow> addr \<Rightarrow> u32 \<Rightarrow> u32 \<Rightarrow> 's \<Rightarrow> 's option" where
  "pieces piece lba buf secs_done n s =
     (if secs_done < n then do {
        s \<leftarrow> piece (lba + secs_done) (buf + secs_done * 512) (secs_op secs_done n) s;
        pieces piece lba buf (secs_done + secs_op secs_done n) n s }
      else Some s)"

definition ide_read :: "'d ata \<Rightarrow> (addr \<Rightarrow> ('d, 'a) idesys_scheme \<Rightarrow> ('d, 'a) idesys_scheme option) \<Rightarrow> (('d, 'a) idesys_scheme \<Rightarrow> ('d, 'a) idesys_scheme option) \<Rightarrow>
    addr \<Rightarrow> u32 \<Rightarrow> addr \<Rightarrow> u32 \<Rightarrow> ('d, 'a) idesys_scheme \<Rightarrow> ('d, 'a) idesys_scheme option" where
  "ide_read hw others arrive dk lba buf cnt s = do {
     ASSERT (lba \<le> max_lba);
     ASSERT (0 < cnt);
     s \<leftarrow> lock_acquire others (chan_lock (my_channel (hds s dk))) s;
     let s = select_disk hw dk s;
     s \<leftarrow> pieces (read_piece hw others arrive dk) lba buf 0 cnt s;
     lock_release (chan_lock (my_channel (hds s dk))) s }"

definition ide_write :: "'d ata \<Rightarrow> (addr \<Rightarrow> ('d, 'a) idesys_scheme \<Rightarrow> ('d, 'a) idesys_scheme option) \<Rightarrow> (('d, 'a) idesys_scheme \<Rightarrow> ('d, 'a) idesys_scheme option) \<Rightarrow>
    addr \<Rightarrow> u32 \<Rightarrow> addr \<Rightarrow> u32 \<Rightarrow> ('d, 'a) idesys_scheme \<Rightarrow> ('d, 'a) idesys_scheme option" where
  "ide_write hw others arrive dk lba buf cnt s = do {
     ASSERT (lba \<le> max_lba);
     ASSERT (0 < cnt);
     s \<leftarrow> lock_acquire others (chan_lock (my_channel (hds s dk))) s;
     let s = select_disk hw dk s;
     s \<leftarrow> pieces (write_piece hw others arrive dk) lba buf 0 cnt s;
     lock_release (chan_lock (my_channel (hds s dk))) s }"

text \<open>The interrupt handler; the two channels are 1632 bytes apart.\<close>

definition intr_hd_handler :: "'d ata \<Rightarrow> u8 \<Rightarrow> ('d, 'a) idesys_scheme \<Rightarrow> ('d, 'a) idesys_scheme option" where
  "intr_hd_handler hw irq s = do {
     ASSERT (irq = 0x2e \<or> irq = 0x2f);
     let ch_no = irq - 0x2e;
     let ch = channels s + 1632 * ucast ch_no;
     ASSERT (irq_no (chans s ch) = irq);
     (if expecting_intr (chans s ch) then do {
        let s = upd_chan ch (\<lambda>c. c\<lparr>expecting_intr := False\<rparr>) s;
        s \<leftarrow> sema_up (disk_done ch) s;
        let (_, s) = inb hw (reg ch 7 s) s;
        Some s }
      else Some s) }"

text \<open>The index has 8 bits, so a length above 254 is never reached.\<close>

partial_function (option) swap_loop :: "addr \<Rightarrow> addr \<Rightarrow> u8 \<Rightarrow> u32 \<Rightarrow> memory \<Rightarrow> memory option" where
  "swap_loop dst buf idx len m =
     (if ucast idx < len then do {
        let m = m(buf + ucast idx + 1 := m dst);
        let m = m(buf + ucast idx := m (dst + 1));
        swap_loop (dst + 2) buf (idx + 2) len m }
      else Some (m(buf + ucast idx := 0)))"

definition swap_pairs_bytes :: "addr \<Rightarrow> addr \<Rightarrow> u32 \<Rightarrow> memory \<Rightarrow> memory option" where
  "swap_pairs_bytes dst buf len m = swap_loop dst buf 0 len m"

text \<open>\<open>id_info\<close> and \<open>buf\<close> are the addresses of the local arrays. What is extracted is only printed.\<close>

definition identify_disk :: "'d ata \<Rightarrow> (addr \<Rightarrow> ('d, 'a) idesys_scheme \<Rightarrow> ('d, 'a) idesys_scheme option) \<Rightarrow> (('d, 'a) idesys_scheme \<Rightarrow> ('d, 'a) idesys_scheme option) \<Rightarrow>
    addr \<Rightarrow> addr \<Rightarrow> addr \<Rightarrow> ('d, 'a) idesys_scheme \<Rightarrow> ('d, 'a) idesys_scheme option" where
  "identify_disk hw others arrive id_info buf dk s = do {
     let s = select_disk hw dk s;
     let s = cmd_out hw (my_channel (hds s dk)) CMD_IDENTIFY s;
     s \<leftarrow> arrive s;
     s \<leftarrow> sema_down others (disk_done (my_channel (hds s dk))) s;
     (ok, s) \<leftarrow> busy_wait hw others dk s;
     ASSERT ok;
     let s = read_from_sector hw dk id_info 1 s;
     m \<leftarrow> swap_pairs_bytes (id_info + 20) buf 20 (mem s);
     m \<leftarrow> swap_pairs_bytes (id_info + 54) buf 40 (memset_loop buf 0 64 m);
     Some (s\<lparr>mem := m\<rparr>) }"

section \<open>Partitions\<close>

text \<open>What the compiler places: the format strings, the words on the stack that hold the arguments of \<open>sprintf\<close>, the local arrays of \<open>identify_disk\<close>, and the interrupt handler.\<close>

record ide_places =
  fmt_channel :: addr
  fmt_disk :: addr
  fmt_part :: addr
  arg_slot :: addr
  id_info :: addr
  id_buf :: addr
  hd_handler :: addr

text \<open>A call of \<open>sprintf\<close>: the arguments go to the stack.\<close>

definition call_sprintf :: "ide_places \<Rightarrow> addr \<Rightarrow> addr \<Rightarrow> u32 list \<Rightarrow> ('d, 'a) idesys_scheme \<Rightarrow> ('d, 'a) idesys_scheme option" where
  "call_sprintf L buf format args s = do {
     (_, m) \<leftarrow> sprintf buf format (arg_slot L) (mem_put (arg_slot L) (words_bytes (format # args)) (mem s));
     Some (s\<lparr>mem := m\<rparr>) }"

text \<open>An entry of the partition table at \<open>p\<close>.\<close>

definition pte_type :: "addr \<Rightarrow> ('d, 'a) idesys_scheme \<Rightarrow> u8" where
  "pte_type p s = mem s (p + 4)"

definition pte_start :: "addr \<Rightarrow> ('d, 'a) idesys_scheme \<Rightarrow> u32" where
  "pte_start p s = ld32 (mem s) (p + 8)"

definition pte_count :: "addr \<Rightarrow> ('d, 'a) idesys_scheme \<Rightarrow> u32" where
  "pte_count p s = ld32 (mem s) (p + 12)"

text \<open>The stores that both branches have.\<close>

definition new_part :: "ide_places \<Rightarrow> addr \<Rightarrow> addr \<Rightarrow> u32 \<Rightarrow> addr \<Rightarrow> u32 \<Rightarrow> ('d, 'a) idesys_scheme \<Rightarrow> ('d, 'a) idesys_scheme option" where
  "new_part L dk part ext_lba p no s = do {
     let s = upd_part part (\<lambda>q. q\<lparr>start_lba := ext_lba + pte_start p s, sec_cnt := pte_count p s, my_disk := dk\<rparr>) s;
     let s = list_append (partition_list s) (part_tag part) s;
     call_sprintf L (part_name part) (fmt_part L) [dk, no] s }"

definition new_prim :: "ide_places \<Rightarrow> addr \<Rightarrow> u32 \<Rightarrow> addr \<Rightarrow> ('d, 'a) idesys_scheme \<Rightarrow> ('d, 'a) idesys_scheme option" where
  "new_prim L dk ext_lba p s = do {
     s \<leftarrow> new_part L dk (prim_parts dk (p_no s)) ext_lba p (ucast (p_no s) + 1) s;
     let s = s\<lparr>p_no := p_no s + 1\<rparr>;
     ASSERT (p_no s < 4);
     Some s }"

definition new_logic :: "ide_places \<Rightarrow> addr \<Rightarrow> u32 \<Rightarrow> addr \<Rightarrow> ('d, 'a) idesys_scheme \<Rightarrow> ('d, 'a) idesys_scheme option" where
  "new_logic L dk ext_lba p s = do {
     ASSERT (l_no s < 8);
     s \<leftarrow> new_part L dk (logic_parts dk (l_no s)) ext_lba p (ucast (l_no s) + 5) s;
     Some (s\<lparr>l_no := l_no s + 1\<rparr>) }"

text \<open>How a scan begins, and how it begins for an extended partition: the first one found is the base of the others.\<close>

definition read_boot_sector :: "'d ata \<Rightarrow> (addr \<Rightarrow> ('d, 'a) idesys_scheme \<Rightarrow> ('d, 'a) idesys_scheme option) \<Rightarrow>
    (('d, 'a) idesys_scheme \<Rightarrow> ('d, 'a) idesys_scheme option) \<Rightarrow> addr \<Rightarrow> u32 \<Rightarrow> ('d, 'a) idesys_scheme \<Rightarrow> (addr \<times> ('d, 'a) idesys_scheme) option" where
  "read_boot_sector hw others arrive dk lba s = do {
     (bs, s) \<leftarrow> sys_malloc others 512 s;
     s \<leftarrow> ide_read hw others arrive dk lba bs 1 s;
     Some (bs, s) }"

definition open_extended :: "'d ata \<Rightarrow> (addr \<Rightarrow> ('d, 'a) idesys_scheme \<Rightarrow> ('d, 'a) idesys_scheme option) \<Rightarrow>
    (('d, 'a) idesys_scheme \<Rightarrow> ('d, 'a) idesys_scheme option) \<Rightarrow> addr \<Rightarrow> addr \<Rightarrow> ('d, 'a) idesys_scheme \<Rightarrow> (u32 \<times> addr \<times> ('d, 'a) idesys_scheme) option" where
  "open_extended hw others arrive dk p s =
     (if ext_lba_base s \<noteq> 0 then do {
        let target = pte_start p s + ext_lba_base s;
        r \<leftarrow> read_boot_sector hw others arrive dk target s;
        Some (target, r) }
      else do {
        let s = s\<lparr>ext_lba_base := pte_start p s\<rparr>;
        r \<leftarrow> read_boot_sector hw others arrive dk (pte_start p s) s;
        Some (pte_start p s, r) })"

text \<open>The entries from number \<open>k\<close> on of the table in the buffer \<open>bs\<close>, with the recursive call of \<open>partition_scan\<close> written out: a chain of extended partitions may be cyclic. With eight
  logical partitions the function returns without giving back the buffer; the next one, found by a caller, would be stored outside the array.\<close>

partial_function (option) scan_table :: "'d ata \<Rightarrow> (addr \<Rightarrow> ('d, 'a) idesys_scheme \<Rightarrow> ('d, 'a) idesys_scheme option) \<Rightarrow>
    (('d, 'a) idesys_scheme \<Rightarrow> ('d, 'a) idesys_scheme option) \<Rightarrow> ide_places \<Rightarrow> addr \<Rightarrow> u32 \<Rightarrow> addr \<Rightarrow> nat \<Rightarrow> ('d, 'a) idesys_scheme \<Rightarrow> ('d, 'a) idesys_scheme option" where
  "scan_table hw others arrive L dk ext_lba bs k s =
     (if 4 \<le> k then sys_free others bs s
      else if pte_type (bs + 446 + of_nat (16 * k)) s = 5 then do {
        r \<leftarrow> open_extended hw others arrive dk (bs + 446 + of_nat (16 * k)) s;
        s \<leftarrow> scan_table hw others arrive L dk (fst r) (fst (snd r)) 0 (snd (snd r));
        scan_table hw others arrive L dk ext_lba bs (Suc k) s }
      else if pte_type (bs + 446 + of_nat (16 * k)) s \<noteq> 0 then do {
        s \<leftarrow> (if ext_lba = 0 then new_prim L dk ext_lba (bs + 446 + of_nat (16 * k)) s else new_logic L dk ext_lba (bs + 446 + of_nat (16 * k)) s);
        (if ext_lba \<noteq> 0 \<and> 8 \<le> l_no s then Some s else scan_table hw others arrive L dk ext_lba bs (Suc k) s) }
      else scan_table hw others arrive L dk ext_lba bs (Suc k) s)"

definition partition_scan :: "'d ata \<Rightarrow> (addr \<Rightarrow> ('d, 'a) idesys_scheme \<Rightarrow> ('d, 'a) idesys_scheme option) \<Rightarrow>
    (('d, 'a) idesys_scheme \<Rightarrow> ('d, 'a) idesys_scheme option) \<Rightarrow> ide_places \<Rightarrow> addr \<Rightarrow> u32 \<Rightarrow> ('d, 'a) idesys_scheme \<Rightarrow> ('d, 'a) idesys_scheme option" where
  "partition_scan hw others arrive L dk ext_lba s = do {
     (bs, s) \<leftarrow> read_boot_sector hw others arrive dk ext_lba s;
     scan_table hw others arrive L dk ext_lba bs 0 s }"

section \<open>Initialisation\<close>

definition disk_init :: "'d ata \<Rightarrow> (addr \<Rightarrow> ('d, 'a) idesys_scheme \<Rightarrow> ('d, 'a) idesys_scheme option) \<Rightarrow>
    (('d, 'a) idesys_scheme \<Rightarrow> ('d, 'a) idesys_scheme option) \<Rightarrow> ide_places \<Rightarrow> addr \<Rightarrow> nat \<Rightarrow> nat \<Rightarrow> ('d, 'a) idesys_scheme \<Rightarrow> ('d, 'a) idesys_scheme option" where
  "disk_init hw others arrive L ch channel_no no s = do {
     let dk = devices ch no;
     let s = upd_hd dk (\<lambda>d. d\<lparr>my_channel := ch, dev_no := of_nat no\<rparr>) s;
     s \<leftarrow> call_sprintf L dk (fmt_disk L) [of_nat (97 + channel_no * 2 + no)] s;
     s \<leftarrow> identify_disk hw others arrive (id_info L) (id_buf L) dk s;
     s \<leftarrow> (if no \<noteq> 0 then partition_scan hw others arrive L dk 0 s else Some s);
     Some (s\<lparr>p_no := 0, l_no := 0\<rparr>) }"

text \<open>The array has two channels.\<close>

fun init_channels :: "'d ata \<Rightarrow> (addr \<Rightarrow> ('d, 'a) idesys_scheme \<Rightarrow> ('d, 'a) idesys_scheme option) \<Rightarrow>
    (('d, 'a) idesys_scheme \<Rightarrow> ('d, 'a) idesys_scheme option) \<Rightarrow> ide_places \<Rightarrow> nat \<Rightarrow> nat \<Rightarrow> ('d, 'a) idesys_scheme \<Rightarrow> ('d, 'a) idesys_scheme option" where
  "init_channels hw others arrive L channel_no 0 s = Some s"
| "init_channels hw others arrive L channel_no (Suc n) s = do {
     ASSERT (channel_no < 2);
     let ch = channels s + of_nat (1632 * channel_no);
     s \<leftarrow> call_sprintf L ch (fmt_channel L) [of_nat channel_no] s;
     let s = upd_chan ch (\<lambda>c. if channel_no = 0 then c\<lparr>port_base := 0x1f0, irq_no := 0x20 + 14\<rparr> else c\<lparr>port_base := 0x170, irq_no := 0x20 + 15\<rparr>) s;
     let s = upd_chan ch (\<lambda>c. c\<lparr>expecting_intr := False\<rparr>) s;
     let s = lock_init (chan_lock ch) s;
     let s = sema_init (disk_done ch) 0 s;
     s \<leftarrow> register_handler (irq_no (chans s ch)) (hd_handler L) s;
     s \<leftarrow> disk_init hw others arrive L ch channel_no 0 s;
     s \<leftarrow> disk_init hw others arrive L ch channel_no 1 s;
     init_channels hw others arrive L (Suc channel_no) n s }"

definition ide_init :: "'d ata \<Rightarrow> (addr \<Rightarrow> ('d, 'a) idesys_scheme \<Rightarrow> ('d, 'a) idesys_scheme option) \<Rightarrow>
    (('d, 'a) idesys_scheme \<Rightarrow> ('d, 'a) idesys_scheme option) \<Rightarrow> ide_places \<Rightarrow> ('d, 'a) idesys_scheme \<Rightarrow> ('d, 'a) idesys_scheme option" where
  "ide_init hw others arrive L s = do {
     let hd_cnt = mem s 0x475;
     ASSERT (0 < hd_cnt);
     let s = list_init (partition_list s) s;
     let s = s\<lparr>channel_cnt := ucast (DIV_ROUND_UP (ucast hd_cnt) 2)\<rparr>;
     init_channels hw others arrive L 0 (unat (channel_cnt s)) s }"

section \<open>The controller\<close>

text \<open>
  What can be seen of a channel of the controller: the registers of the current command, the sectors of the two drives (\<open>True\<close> is the second one), the words it offers, and in a
  write command how many words it still expects and those it has got.
\<close>

record ata_state =
  t_cnt :: u8
  t_low :: u8
  t_mid :: u8
  t_high :: u8
  t_dev :: u8
  media :: "bool \<Rightarrow> u32 \<Rightarrow> u8 list"
  offered :: "u16 list"
  wanted :: nat
  taken :: "u16 list"

definition lba28 :: "ata_state \<Rightarrow> u32" where
  "lba28 v = ucast (t_low v) OR push_bit 8 (ucast (t_mid v)) OR push_bit 16 (ucast (t_high v)) OR push_bit 24 (ucast (t_dev v AND 15))"

definition drive :: "ata_state \<Rightarrow> bool" where
  "drive v \<longleftrightarrow> bit (t_dev v) 4"

definition sector_cnt :: "u8 \<Rightarrow> nat" where
  "sector_cnt c = (if c = 0 then 256 else unat c)"

fun bytes16 :: "u8 list \<Rightarrow> u16 list" where
  "bytes16 (a # b # r) = (ucast a OR push_bit 8 (ucast b)) # bytes16 r"
| "bytes16 _ = []"

primrec words8 :: "u16 list \<Rightarrow> u8 list" where
  "words8 [] = []"
| "words8 (w # ws) = ucast w # ucast (drop_bit 8 w) # words8 ws"

text \<open>
  The hypothesis on the controller, for the channel with the ports from \<open>base\<close> on; \<open>complete\<close> is what it does until it raises its interrupt. Registers keep what is written. After
  the command to read it gets the sectors ready and offers their words one after the other; after the command to write it takes the words of the sectors and then stores them. A
  count of 0 means 256 sectors. While it offers or expects words its status is not busy and says so. The driver relies on one interrupt for a command and on the words of all sectors
  following each other without a pause.
\<close>

definition ata_ok :: "'d ata \<Rightarrow> ('d \<Rightarrow> 'd) \<Rightarrow> ('d \<Rightarrow> ata_state) \<Rightarrow> u16 \<Rightarrow> bool" where
  "ata_ok hw complete view base \<longleftrightarrow>
     (\<forall>d x. view (out_b hw (base + 2) x d) = (view d)\<lparr>t_cnt := x\<rparr> \<and> view (out_b hw (base + 3) x d) = (view d)\<lparr>t_low := x\<rparr> \<and>
       view (out_b hw (base + 4) x d) = (view d)\<lparr>t_mid := x\<rparr> \<and> view (out_b hw (base + 5) x d) = (view d)\<lparr>t_high := x\<rparr> \<and>
       view (out_b hw (base + 6) x d) = (view d)\<lparr>t_dev := x\<rparr>) \<and>
     (\<forall>d. view (complete (out_b hw (base + 7) CMD_READ_SECTOR d)) =
       (view d)\<lparr>offered := bytes16 (sectors_at (media (view d) (drive (view d))) (lba28 (view d)) (sector_cnt (t_cnt (view d)))), wanted := 0, taken := []\<rparr>) \<and>
     (\<forall>d. view (out_b hw (base + 7) CMD_WRITE_SECTOR d) = (view d)\<lparr>wanted := 256 * sector_cnt (t_cnt (view d)), taken := []\<rparr>) \<and>
     (\<forall>d. view (snd (in_b hw (base + 7) d)) = view d) \<and>
     (\<forall>d. offered (view d) \<noteq> [] \<or> wanted (view d) \<noteq> 0 \<longrightarrow> fst (in_b hw (base + 7) d) AND BIT_STAT_BSY = 0 \<and> fst (in_b hw (base + 7) d) AND BIT_STAT_DRQ \<noteq> 0) \<and>
     (\<forall>d w ws. offered (view d) = w # ws \<longrightarrow> fst (in_w hw base d) = w \<and> view (snd (in_w hw base d)) = (view d)\<lparr>offered := ws\<rparr>) \<and>
     (\<forall>d n x. wanted (view d) = Suc n \<longrightarrow> view (out_w hw base x d) = (view d)\<lparr>wanted := n, taken := taken (view d) @ [x]\<rparr>) \<and>
     (\<forall>d. wanted (view d) = 0 \<and> taken (view d) \<noteq> [] \<longrightarrow> view (complete d) =
       (view d)\<lparr>media := (media (view d))(drive (view d) := store_at (lba28 (view d)) (sector_cnt (t_cnt (view d))) (words8 (taken (view d))) (media (view d) (drive (view d)))), taken := []\<rparr>)"

text \<open>A channel on which nobody waits for an interrupt, and the hypothesis on the interrupt: when it is expected, then before \<open>sema_down\<close> returns the controller completes the command and
  the handler runs.\<close>

definition channel_ok :: "u16 \<Rightarrow> addr \<Rightarrow> ('d, 'a) idesys_scheme \<Rightarrow> bool" where
  "channel_ok base ch s \<longleftrightarrow> (let irq = irq_no (chans s ch) in (irq = 0x2e \<or> irq = 0x2f) \<and> ch = channels s + 1632 * ucast (irq - 0x2e)) \<and>
     port_base (chans s ch) = base \<and> svalue (semas s (disk_done ch)) = 0 \<and> list_empty (waiters (disk_done ch)) s"

definition irq_ok :: "('d \<Rightarrow> 'd) \<Rightarrow> ('d \<Rightarrow> ata_state) \<Rightarrow> (addr \<Rightarrow> ('d, 'a) idesys_scheme \<Rightarrow> ('d, 'a) idesys_scheme option) \<Rightarrow>
    (('d, 'a) idesys_scheme \<Rightarrow> ('d, 'a) idesys_scheme option) \<Rightarrow> u16 \<Rightarrow> addr \<Rightarrow> bool" where
  "irq_ok complete view others arrive base ch \<longleftrightarrow>
     (\<forall>s. channel_ok base ch s \<and> expecting_intr (chans s ch) \<longrightarrow>
       (\<exists>t d. arrive s = Some t \<and> hds t = hds s \<and> view d = view (complete (dev s)) \<and>
         sema_down others (disk_done ch) t = Some (s\<lparr>dev := d, chans := (chans s)(ch := (chans s ch)\<lparr>expecting_intr := False\<rparr>)\<rparr>)))"

text \<open>It holds when the interrupt comes before the driver waits, with the handler of the kernel.\<close>

lemma irq_before_wait:
  assumes "\<And>d. view (snd (in_b hw (base + 7) d)) = view d"
  shows "irq_ok complete view others (\<lambda>s. intr_hd_handler hw (irq_no (chans s ch)) (s\<lparr>dev := complete (dev s)\<rparr>)) base ch"
  unfolding irq_ok_def
proof (intro allI impI)
  fix s :: "('a, 'b) idesys_scheme"
  assume a: "channel_ok base ch s \<and> expecting_intr (chans s ch)"
  let ?irq = "irq_no (chans s ch)" and ?d = "snd (in_b hw (base + 7) (complete (dev s)))" and ?u = "set_value (disk_done ch) 1"
  let ?t = "?u (s\<lparr>dev := ?d, chans := (chans s)(ch := (chans s ch)\<lparr>expecting_intr := False\<rparr>)\<rparr>)"
  have c: "?irq = 0x2e \<or> ?irq = 0x2f" "channels s + 1632 * ucast (?irq - 0x2e) = ch" "svalue (semas s (disk_done ch)) = 0" "list_empty (waiters (disk_done ch)) s"
    "port_base (chans s ch) = base" using a by (simp_all add: channel_ok_def Let_def)
  have "sema_up (disk_done ch) (s\<lparr>dev := complete (dev s), chans := (chans s)(ch := (chans s ch)\<lparr>expecting_intr := False\<rparr>)\<rparr>) =
    Some (?u (s\<lparr>dev := complete (dev s), chans := (chans s)(ch := (chans s ch)\<lparr>expecting_intr := False\<rparr>)\<rparr>))"
    by (rule sema_up_free) (use c(3,4) in \<open>simp_all add: list_empty_def\<close>)
  then have "intr_hd_handler hw ?irq (s\<lparr>dev := complete (dev s)\<rparr>) = Some ?t"
    using c a by (auto simp: intr_hd_handler_def inb_def reg_def upd_chan_def set_value_def case_prod_beta)
  moreover have "sema_down others (disk_done ch) ?t = Some (s\<lparr>dev := ?d, chans := (chans s)(ch := (chans s ch)\<lparr>expecting_intr := False\<rparr>)\<rparr>)"
    using sema_down_free [of ?t "disk_done ch" others] c(3) by (simp add: set_value_def) (simp add: fun_upd_idem)
  ultimately show "\<exists>t d. intr_hd_handler hw (irq_no (chans s ch)) (s\<lparr>dev := complete (dev s)\<rparr>) = Some t \<and> hds t = hds s \<and> view d = view (complete (dev s)) \<and>
      sema_down others (disk_done ch) t = Some (s\<lparr>dev := d, chans := (chans s)(ch := (chans s ch)\<lparr>expecting_intr := False\<rparr>)\<rparr>)"
    using assms by (intro exI [of _ ?t] exI [of _ ?d]) (simp add: set_value_def)
qed

section \<open>Registers and words\<close>

lemma words8_bytes16: "even (length xs) \<Longrightarrow> words8 (bytes16 xs) = xs"
proof (induction xs rule: bytes16.induct)
  case (1 a b r)
  have "ucast (ucast a OR push_bit 8 (ucast b) :: u16) = a" "ucast (drop_bit 8 (ucast a OR push_bit 8 (ucast b) :: u16)) = b"
    by (rule bit_word_eqI; auto simp: bit_or_iff bit_push_bit_iff bit_ucast_iff bit_drop_bit_eq dest: bit_imp_le_length)+
  then show ?case using 1 by simp
qed simp_all

lemma bytes16_length: "length (bytes16 xs) = length xs div 2"
  by (induction xs rule: bytes16.induct) simp_all

lemma lba28_bytes:
  fixes lba :: u32
  assumes "lba \<le> max_lba" "x AND 15 = 0"
  shows "ucast (ucast lba :: u8) OR push_bit 8 (ucast (ucast (drop_bit 8 lba) :: u8)) OR push_bit 16 (ucast (ucast (drop_bit 16 lba) :: u8)) OR
    push_bit 24 (ucast ((x OR ucast (drop_bit 24 lba)) AND 15 :: u8)) = lba"
proof -
  have "lba < 2 ^ 24" using assms(1) by (rule order.strict_trans1) (simp add: max_lba_def)
  then have "unat lba < 2 ^ 24" by (simp add: word_less_nat_alt)
  then have "drop_bit 24 lba = 0" by (simp add: word_unat_eq_iff drop_bit_eq_div unat_div)
  then have high: "\<not> bit lba n" if "24 \<le> n" for n
  proof -
    have "bit (drop_bit 24 lba) (n - 24) = bit lba n" using that by (simp add: bit_drop_bit_eq)
    then show ?thesis using \<open>drop_bit 24 lba = 0\<close> by simp
  qed
  have "(x OR ucast (drop_bit 24 lba)) AND 15 = 0" using assms(2) \<open>drop_bit 24 lba = 0\<close> by simp
  moreover have "ucast (ucast lba :: u8) OR push_bit 8 (ucast (ucast (drop_bit 8 lba) :: u8)) OR push_bit 16 (ucast (ucast (drop_bit 16 lba) :: u8)) = lba"
  proof (rule bit_word_eqI)
    fix n assume "n < LENGTH(32)"
    then show "bit (ucast (ucast lba :: u8) OR push_bit 8 (ucast (ucast (drop_bit 8 lba) :: u8)) OR push_bit 16 (ucast (ucast (drop_bit 16 lba) :: u8)) :: u32) n = bit lba n"
      using high [of n] by (cases "n < 8"; cases "n < 16"; cases "n < 24") (auto simp: bit_or_iff bit_push_bit_iff bit_ucast_iff bit_drop_bit_eq dest: bit_imp_le_length)
  qed
  ultimately show ?thesis by simp
qed

section \<open>Transfers\<close>

text \<open>The views of the data port.\<close>

lemma insw_words:
  assumes "ata_ok hw complete view base" "offered (view (dev s)) = ws @ r"
  shows "\<exists>d. insw hw base p (length ws) s = s\<lparr>mem := put_bytes p (words8 ws) (mem s), dev := d\<rparr> \<and> view d = (view (dev s))\<lparr>offered := r\<rparr>"
  using assms(2)
proof (induction ws arbitrary: p s)
  case Nil
  then have "view (dev s) = (view (dev s))\<lparr>offered := r\<rparr>" by simp
  then show ?case by (intro exI [of _ "dev s"]) simp
next
  case (Cons w ws)
  let ?d = "snd (in_w hw base (dev s))"
  have "\<forall>d w ws. offered (view d) = w # ws \<longrightarrow> fst (in_w hw base d) = w \<and> view (snd (in_w hw base d)) = (view d)\<lparr>offered := ws\<rparr>"
    using assms(1) unfolding ata_ok_def by blast
  then have d: "fst (in_w hw base (dev s)) = w" "view ?d = (view (dev s))\<lparr>offered := ws @ r\<rparr>" using Cons.prems by auto
  define t where "t = s\<lparr>mem := (mem s)(p := ucast w, p + 1 := ucast (drop_bit 8 w)), dev := ?d\<rparr>"
  have "offered (view (dev t)) = ws @ r" using d(2) by (simp add: t_def)
  from Cons.IH [OF this] obtain e where e: "insw hw base (p + 2) (length ws) t = t\<lparr>mem := put_bytes (p + 2) (words8 ws) (mem t), dev := e\<rparr>" "view e = (view (dev t))\<lparr>offered := r\<rparr>"
    by blast
  have "insw hw base p (length (w # ws)) s = insw hw base (p + 2) (length ws) t" using d(1) by (simp add: case_prod_beta t_def)
  then show ?case using e d(2) by (intro exI [of _ e]) (simp add: t_def add.assoc)
qed

lemma outsw_words:
  assumes "ata_ok hw complete view base" "wanted (view (dev s)) = n + k"
  shows "\<exists>d ws. outsw hw base p n s = s\<lparr>dev := d\<rparr> \<and> view d = (view (dev s))\<lparr>wanted := k, taken := taken (view (dev s)) @ ws\<rparr> \<and> length ws = n \<and>
    words8 ws = mem_bytes (mem s) p (2 * n)"
  using assms(2)
proof (induction n arbitrary: p s)
  case 0
  have "view (dev s) = (view (dev s))\<lparr>wanted := k, taken := taken (view (dev s))\<rparr>" using 0 by simp
  then show ?case by (intro exI [of _ "dev s"] exI [of _ "[]"]) (simp add: mem_bytes_def)
next
  case (Suc n)
  let ?w = "ucast (mem s p) OR push_bit 8 (ucast (mem s (p + 1))) :: u16"
  let ?t = "s\<lparr>dev := out_w hw base ?w (dev s)\<rparr>"
  have "\<forall>d n x. wanted (view d) = Suc n \<longrightarrow> view (out_w hw base x d) = (view d)\<lparr>wanted := n, taken := taken (view d) @ [x]\<rparr>"
    using assms(1) unfolding ata_ok_def by blast
  then have v: "view (dev ?t) = (view (dev s))\<lparr>wanted := n + k, taken := taken (view (dev s)) @ [?w]\<rparr>" using Suc.prems by simp
  obtain d ws where d: "outsw hw base (p + 2) n ?t = ?t\<lparr>dev := d\<rparr>" "view d = (view (dev ?t))\<lparr>wanted := k, taken := taken (view (dev ?t)) @ ws\<rparr>" "length ws = n"
    "words8 ws = mem_bytes (mem ?t) (p + 2) (2 * n)"
    using Suc.IH [of ?t "p + 2"] v by auto
  have w: "words8 [?w] = [mem s p, mem s (p + 1)]" using words8_bytes16 [of "[mem s p, mem s (p + 1)]"] by simp
  have "mem_bytes (mem s) p (2 * Suc n) = mem s p # mem s (p + 1) # mem_bytes (mem s) (p + 2) (2 * n)"
    by (simp add: mem_bytes_def upt_conv_Cons del: upt_Suc) (simp add: map_Suc_upt [symmetric] comp_def add.assoc del: upt_Suc)
  then show ?case using d v w by (intro exI [of _ d] exI [of _ "?w # ws"]) simp
qed

lemma select_sector_ok:
  assumes "ata_ok hw complete view base" "lba \<le> max_lba" "port_base (chans s (my_channel (hds s dk))) = base"
  shows "\<exists>d. select_sector hw dk lba c s = Some (s\<lparr>dev := d\<rparr>) \<and> t_cnt (view d) = c \<and> lba28 (view d) = lba \<and> drive (view d) = (dev_no (hds s dk) = 1) \<and>
    media (view d) = media (view (dev s))"
proof -
  let ?x = "BIT_DEV_MBS OR BIT_DEV_LBA OR (if dev_no (hds s dk) = 1 then BIT_DEV_DEV else 0)"
  let ?d = "out_b hw (base + 6) (?x OR ucast (drop_bit 24 lba)) (out_b hw (base + 5) (ucast (drop_bit 16 lba)) (out_b hw (base + 4) (ucast (drop_bit 8 lba))
    (out_b hw (base + 3) (ucast lba) (out_b hw (base + 2) c (dev s)))))"
  have "view ?d = (view (dev s))\<lparr>t_cnt := c, t_low := ucast lba, t_mid := ucast (drop_bit 8 lba), t_high := ucast (drop_bit 16 lba), t_dev := ?x OR ucast (drop_bit 24 lba)\<rparr>"
    using assms(1) by (simp add: ata_ok_def)
  moreover have "?x AND 15 = 0" by (simp add: BIT_DEV_MBS_def BIT_DEV_LBA_def BIT_DEV_DEV_def)
  note lba28_bytes [OF assms(2) this]
  moreover have "bit (?x OR ucast (drop_bit 24 lba)) 4 = (dev_no (hds s dk) = 1)"
  proof -
    have "lba < 2 ^ 24" using assms(2) by (rule order.strict_trans1) (simp add: max_lba_def)
    then have "drop_bit 24 lba = 0" by (simp add: word_unat_eq_iff drop_bit_eq_div unat_div word_less_nat_alt)
    then show ?thesis by (simp add: BIT_DEV_MBS_def BIT_DEV_LBA_def BIT_DEV_DEV_def)
  qed
  moreover have "select_sector hw dk lba c s = Some (s\<lparr>dev := ?d\<rparr>)"
    using assms(2,3) by (simp add: select_sector_def port_out_def reg_def or.assoc)
  ultimately show ?thesis by (intro exI [of _ ?d]) (simp add: lba28_def drive_def)
qed

lemma busy_wait_ok:
  assumes "ata_ok hw complete view base" "port_base (chans s (my_channel (hds s dk))) = base" "offered (view (dev s)) \<noteq> [] \<or> wanted (view (dev s)) \<noteq> 0"
  shows "\<exists>d. busy_wait hw others dk s = Some (True, s\<lparr>dev := d\<rparr>) \<and> view d = view (dev s)"
proof -
  have st: "\<forall>d. view (snd (in_b hw (base + 7) d)) = view d"
    "\<forall>d. offered (view d) \<noteq> [] \<or> wanted (view d) \<noteq> 0 \<longrightarrow> fst (in_b hw (base + 7) d) AND BIT_STAT_BSY = 0 \<and> fst (in_b hw (base + 7) d) AND BIT_STAT_DRQ \<noteq> 0"
    using assms(1) unfolding ata_ok_def by blast+
  let ?d = "snd (in_b hw (base + 7) (dev s))"
  have "fst (in_b hw (base + 7) (dev s)) AND BIT_STAT_BSY = 0" "fst (in_b hw (base + 7) ?d) AND BIT_STAT_DRQ \<noteq> 0" using st assms(3) by auto
  moreover have "busy_wait hw others dk s = busy_loop hw others (my_channel (hds s dk)) (Suc 29998) s" by (simp add: busy_wait_def)
  ultimately have "busy_wait hw others dk s = Some (True, s\<lparr>dev := snd (in_b hw (base + 7) ?d)\<rparr>)"
    using assms(2) by (simp only: busy_loop.simps) (simp add: inb_def reg_def case_prod_beta)
  then show ?thesis using st(1) by auto
qed

lemma command_waits:
  assumes "irq_ok complete view others arrive base ch" "channel_ok base ch s" "expecting_intr (chans s ch)"
  obtains t d where "arrive s = Some t" "hds t = hds s" "view d = view (complete (dev s))"
    "sema_down others (disk_done ch) t = Some (s\<lparr>dev := d, chans := (chans s)(ch := (chans s ch)\<lparr>expecting_intr := False\<rparr>)\<rparr>)"
  using assms unfolding irq_ok_def by blast

lemma channel_ok_upd [simp]:
  "channel_ok base ch (s\<lparr>dev := d\<rparr>) = channel_ok base ch s" "channel_ok base ch (s\<lparr>mem := m\<rparr>) = channel_ok base ch s"
  "channel_ok base ch (s\<lparr>dev := d, chans := (chans s)(ch := (chans s ch)\<lparr>expecting_intr := b\<rparr>)\<rparr>) = channel_ok base ch s"
  by (simp_all add: channel_ok_def list_empty_def)

lemma sector_cnt_op:
  assumes "0 < op" "op \<le> (256 :: u32)"
  shows "sector_cnt (ucast op) = unat op" "size_in_byte (ucast op) div 2 = 256 * unat op"
proof -
  have "unat (ucast op :: u8) = unat op mod 256" by (simp add: unsigned_ucast_eq take_bit_eq_mod)
  moreover have "0 < unat op" "unat op \<le> 256" using assms by (simp_all add: word_less_nat_alt word_le_nat_alt)
  ultimately have "unat op = 256 \<and> unat (ucast op :: u8) = 0 \<or> unat (ucast op :: u8) = unat op \<and> unat op \<noteq> 0" by (cases "unat op = 256") simp_all
  then have "unat op = 256 \<and> (ucast op :: u8) = 0 \<or> unat (ucast op :: u8) = unat op \<and> (ucast op :: u8) \<noteq> 0" by (metis unat_eq_zero)
  then show "sector_cnt (ucast op) = unat op" "size_in_byte (ucast op) div 2 = 256 * unat op" by (auto simp: sector_cnt_def size_in_byte_def)
qed

text \<open>One piece of a read.\<close>

lemma read_piece_ok:
  assumes ata: "ata_ok hw complete view base" and irq: "irq_ok complete view others arrive base ch" and ch: "channel_ok base ch s" "my_channel (hds s dk) = ch" "\<not> expecting_intr (chans s ch)"
    and lba: "lba \<le> max_lba" and op: "0 < op" "op \<le> 256" and len: "\<And>l. length (media (view (dev s)) (dev_no (hds s dk) = 1) l) = 512"
  shows "\<exists>d. read_piece hw others arrive dk lba buf op s =
      Some (s\<lparr>mem := put_bytes buf (sectors_at (media (view (dev s)) (dev_no (hds s dk) = 1)) lba (unat op)) (mem s), dev := d\<rparr>) \<and> media (view d) = media (view (dev s))"
proof -
  let ?xs = "sectors_at (media (view (dev s)) (dev_no (hds s dk) = 1)) lba (unat op)"
  have base: "port_base (chans s ch) = base" using ch(1) by (simp add: channel_ok_def)
  obtain d1 where d1: "select_sector hw dk lba (ucast op) s = Some (s\<lparr>dev := d1\<rparr>)" "t_cnt (view d1) = ucast op" "lba28 (view d1) = lba" "drive (view d1) = (dev_no (hds s dk) = 1)"
    "media (view d1) = media (view (dev s))" using select_sector_ok [OF ata lba, of s dk] base ch(2) by auto
  define s2 where "s2 = s\<lparr>dev := out_b hw (base + 7) CMD_READ_SECTOR d1, chans := (chans s)(ch := (chans s ch)\<lparr>expecting_intr := True\<rparr>)\<rparr>"
  have s2: "cmd_out hw ch CMD_READ_SECTOR (s\<lparr>dev := d1\<rparr>) = s2" using base by (simp add: cmd_out_def upd_chan_def port_out_def reg_def s2_def)
  have "channel_ok base ch s2" "expecting_intr (chans s2 ch)" using ch(1) by (simp_all add: s2_def)
  then obtain t d2 where t: "arrive s2 = Some t" "hds t = hds s2" "view d2 = view (complete (dev s2))"
    "sema_down others (disk_done ch) t = Some (s2\<lparr>dev := d2, chans := (chans s2)(ch := (chans s2 ch)\<lparr>expecting_intr := False\<rparr>)\<rparr>)"
    using command_waits [OF irq] by metis
  have idle: "(chans s ch)\<lparr>expecting_intr := False\<rparr> = chans s ch" using ch(3) by simp
  have s3: "s2\<lparr>dev := d2, chans := (chans s2)(ch := (chans s2 ch)\<lparr>expecting_intr := False\<rparr>)\<rparr> = s\<lparr>dev := d2\<rparr>" by (simp add: s2_def idle)
  have "\<forall>d. view (complete (out_b hw (base + 7) CMD_READ_SECTOR d)) =
      (view d)\<lparr>offered := bytes16 (sectors_at (media (view d) (drive (view d))) (lba28 (view d)) (sector_cnt (t_cnt (view d)))), wanted := 0, taken := []\<rparr>"
    using ata unfolding ata_ok_def by blast
  then have v2: "view d2 = (view d1)\<lparr>offered := bytes16 ?xs, wanted := 0, taken := []\<rparr>" using t(3) d1 sector_cnt_op [OF op] by (simp add: s2_def)
  have n: "length ?xs = 512 * unat op" by (rule sectors_at_length [OF len])
  then have words: "length (bytes16 ?xs) = 256 * unat op" by (simp add: bytes16_length)
  then have "offered (view d2) \<noteq> []" using v2 op(1) by (auto simp: word_less_nat_alt)
  then obtain d3 where d3: "busy_wait hw others dk (s\<lparr>dev := d2\<rparr>) = Some (True, s\<lparr>dev := d3\<rparr>)" "view d3 = view d2"
    using busy_wait_ok [OF ata, of "s\<lparr>dev := d2\<rparr>" dk others] base ch(2) by auto
  have "offered (view (dev (s\<lparr>dev := d3\<rparr>))) = bytes16 ?xs @ []" using d3(2) v2 by simp
  from insw_words [OF ata this, of buf] obtain d4 where d4: "insw hw base buf (256 * unat op) (s\<lparr>dev := d3\<rparr>) = s\<lparr>mem := put_bytes buf ?xs (mem s), dev := d4\<rparr>"
    "view d4 = (view d3)\<lparr>offered := []\<rparr>" unfolding words using words8_bytes16 [of ?xs] n by auto
  have "read_piece hw others arrive dk lba buf op s = Some (s\<lparr>mem := put_bytes buf ?xs (mem s), dev := d4\<rparr>)"
    using d1(1) s2 t(1,2,4) s3 d3(1) d4(1) ch(2) base sector_cnt_op(2) [OF op] by (simp add: read_piece_def read_from_sector_def reg_def s2_def)
  moreover have "media (view d4) = media (view (dev s))" using d4(2) d3(2) v2 d1(5) by simp
  ultimately show ?thesis by blast
qed

text \<open>One piece of a write.\<close>

lemma write_piece_ok:
  assumes ata: "ata_ok hw complete view base" and irq: "irq_ok complete view others arrive base ch" and ch: "channel_ok base ch s" "my_channel (hds s dk) = ch" "\<not> expecting_intr (chans s ch)"
    and lba: "lba \<le> max_lba" and op: "0 < op" "op \<le> 256"
  shows "\<exists>d. write_piece hw others arrive dk lba buf op s = Some (s\<lparr>dev := d\<rparr>) \<and>
      media (view d) = (media (view (dev s)))(dev_no (hds s dk) = 1 := store_at lba (unat op) (mem_bytes (mem s) buf (512 * unat op)) (media (view (dev s)) (dev_no (hds s dk) = 1)))"
proof -
  let ?c = "chans s ch" and ?n = "256 * unat op"
  have base: "port_base ?c = base" using ch(1) by (simp add: channel_ok_def)
  obtain d1 where d1: "select_sector hw dk lba (ucast op) s = Some (s\<lparr>dev := d1\<rparr>)" "t_cnt (view d1) = ucast op" "lba28 (view d1) = lba" "drive (view d1) = (dev_no (hds s dk) = 1)"
    "media (view d1) = media (view (dev s))" using select_sector_ok [OF ata lba, of s dk] base ch(2) by auto
  define u where "u d = s\<lparr>dev := d, chans := (chans s)(ch := ?c\<lparr>expecting_intr := True\<rparr>)\<rparr>" for d
  have u: "hds (u d) = hds s" "mem (u d) = mem s" "dev (u d) = d" "port_base (chans (u d) ch) = base" "expecting_intr (chans (u d) ch)" "channel_ok base ch (u d)" "(u d)\<lparr>dev := e\<rparr> = u e" for d e
    using base ch(1) by (simp_all add: u_def)
  let ?d2 = "out_b hw (base + 7) CMD_WRITE_SECTOR d1"
  have s2: "cmd_out hw ch CMD_WRITE_SECTOR (s\<lparr>dev := d1\<rparr>) = u ?d2" using base by (simp add: cmd_out_def upd_chan_def port_out_def reg_def u_def)
  have "\<forall>d. view (out_b hw (base + 7) CMD_WRITE_SECTOR d) = (view d)\<lparr>wanted := 256 * sector_cnt (t_cnt (view d)), taken := []\<rparr>" using ata unfolding ata_ok_def by blast
  then have v2: "view ?d2 = (view d1)\<lparr>wanted := ?n, taken := []\<rparr>" using d1(2) sector_cnt_op [OF op] by simp
  have n0: "?n \<noteq> 0" using op(1) by (simp add: word_less_nat_alt)
  then obtain d3 where d3: "busy_wait hw others dk (u ?d2) = Some (True, u d3)" "view d3 = view ?d2"
    using busy_wait_ok [OF ata, of "u ?d2" dk others] u ch(2) v2 by auto
  then have "wanted (view (dev (u d3))) = ?n + 0" using v2 u by simp
  from outsw_words [OF ata this, of buf] obtain d4 ws where d4: "outsw hw base buf ?n (u d3) = u d4" "view d4 = (view d3)\<lparr>wanted := 0, taken := ws\<rparr>" "length ws = ?n"
    "words8 ws = mem_bytes (mem s) buf (512 * unat op)"
    using d3(2) v2 u by auto
  obtain t d5 where t: "arrive (u d4) = Some t" "hds t = hds s" "view d5 = view (complete d4)"
    "sema_down others (disk_done ch) t = Some ((u d4)\<lparr>dev := d5, chans := (chans (u d4))(ch := (chans (u d4) ch)\<lparr>expecting_intr := False\<rparr>)\<rparr>)"
    using command_waits [OF irq u(6,5) [of d4]] u by metis
  have idle: "?c\<lparr>expecting_intr := False\<rparr> = ?c" using ch(3) by simp
  have s5: "(u d4)\<lparr>dev := d5, chans := (chans (u d4))(ch := (chans (u d4) ch)\<lparr>expecting_intr := False\<rparr>)\<rparr> = s\<lparr>dev := d5\<rparr>" by (simp add: u_def idle)
  have "\<forall>d. wanted (view d) = 0 \<and> taken (view d) \<noteq> [] \<longrightarrow> view (complete d) =
       (view d)\<lparr>media := (media (view d))(drive (view d) := store_at (lba28 (view d)) (sector_cnt (t_cnt (view d))) (words8 (taken (view d))) (media (view d) (drive (view d)))), taken := []\<rparr>"
    using ata unfolding ata_ok_def by blast
  moreover have "taken (view d4) \<noteq> []" using d4(2,3) n0 by auto
  ultimately have "media (view d5) = (media (view (dev s)))(dev_no (hds s dk) = 1 := store_at lba (unat op) (mem_bytes (mem s) buf (512 * unat op)) (media (view (dev s)) (dev_no (hds s dk) = 1)))"
    using t(3) d4(2,4) d3(2) v2 d1 sector_cnt_op [OF op] by (simp add: lba28_def drive_def)
  moreover have "write_piece hw others arrive dk lba buf op s = Some (s\<lparr>dev := d5\<rparr>)"
    using d1(1) s2 d3(1) d4(1) t(1,2,4) s5 u ch(2) sector_cnt_op(2) [OF op] by (simp add: write_piece_def write2sector_def reg_def)
  ultimately show ?thesis by blast
qed

section \<open>The loop\<close>

lemma secs_op_nat:
  assumes "k < n" "n + 256 < 2 ^ 32"
  shows "secs_op (of_nat k) (of_nat n) = of_nat (min 256 (n - k))"
proof -
  have "unat (of_nat (k + 256) :: u32) = k + 256" by (rule unat_of_nat_lt) (use assms in simp)
  then have u: "unat (of_nat k :: u32) = k" "unat (of_nat n :: u32) = n" "unat (of_nat k + 256 :: u32) = k + 256"
    using assms by (simp_all add: unat_of_nat_lt)
  then have "of_nat k + 256 \<le> (of_nat n :: u32) \<longleftrightarrow> k + 256 \<le> n" by (simp add: word_le_nat_alt)
  then show ?thesis using assms by (auto simp: secs_op_def min_def of_nat_diff)
qed

lemma pieces_invariant:
  assumes step: "\<And>k s. k < n \<Longrightarrow> P k s \<Longrightarrow>
      \<exists>t. piece (lba + of_nat k) (buf + of_nat (512 * k)) (of_nat (min 256 (n - k))) s = Some t \<and> P (k + min 256 (n - k)) t"
    and bound: "n + 256 < 2 ^ 32" and start: "k \<le> n" "P k s"
  shows "\<exists>t. pieces piece lba buf (of_nat k) (of_nat n) s = Some t \<and> P n t"
  using start
proof (induction "n - k" arbitrary: k s rule: less_induct)
  case less
  have u: "unat (of_nat k :: u32) = k" "unat (of_nat n :: u32) = n" using less.prems(1) bound by (simp_all add: unat_of_nat_lt)
  show ?case
  proof (cases "k < n")
    case True
    let ?op = "min 256 (n - k)"
    obtain t where t: "piece (lba + of_nat k) (buf + of_nat (512 * k)) (of_nat ?op) s = Some t" "P (k + ?op) t" using step [OF True less.prems(2)] by blast
    have "\<exists>v. pieces piece lba buf (of_nat (k + ?op)) (of_nat n) t = Some v \<and> P n v" by (rule less.hyps) (use True t(2) in auto)
    then show ?thesis using t(1) True u secs_op_nat [OF True bound]
      by (subst pieces.simps) (simp add: word_less_nat_alt mult.commute del: of_nat_min)
  next
    case False
    then show ?thesis using less.prems u by (subst pieces.simps) (simp add: word_less_nat_alt)
  qed
qed

lemma mem_bytes_append: "mem_bytes m p (a + b) = mem_bytes m p a @ mem_bytes m (p + of_nat a) b"
  unfolding mem_bytes_def map_upt_split by (simp add: add.assoc)

lemma piece_size: "k < n \<Longrightarrow> 0 < (of_nat (min 256 (n - k)) :: u32) \<and> (of_nat (min 256 (n - k)) :: u32) \<le> 256 \<and> unat (of_nat (min 256 (n - k)) :: u32) = min 256 (n - k)"
proof -
  assume "k < n"
  moreover have "unat (of_nat (min 256 (n - k)) :: u32) = min 256 (n - k)" by (rule unat_of_nat_lt) simp
  ultimately show ?thesis by (simp add: word_less_nat_alt word_le_nat_alt del: of_nat_min)
qed

text \<open>What the transfers need of the state: the channel and its lock are free.\<close>

definition ide_ready :: "u16 \<Rightarrow> addr \<Rightarrow> ('d, 'a) idesys_scheme \<Rightarrow> bool" where
  "ide_ready base dk s \<longleftrightarrow> (let ch = my_channel (hds s dk) in channel_ok base ch s \<and> \<not> expecting_intr (chans s ch) \<and> lock_free (chan_lock ch) s)"

lemma read_pieces:
  assumes ata: "ata_ok hw complete view base" and irq: "irq_ok complete view others arrive base ch" and ch: "channel_ok base ch s" "my_channel (hds s dk) = ch" "\<not> expecting_intr (chans s ch)"
    and lba: "unat lba + n \<le> Suc (unat max_lba)" and len: "\<And>l. length (media (view (dev s)) (dev_no (hds s dk) = 1) l) = 512"
  shows "\<exists>d. pieces (read_piece hw others arrive dk) lba buf 0 (of_nat n) s =
      Some (s\<lparr>mem := put_bytes buf (sectors_at (media (view (dev s)) (dev_no (hds s dk) = 1)) lba n) (mem s), dev := d\<rparr>) \<and> media (view d) = media (view (dev s))"
proof -
  let ?D = "media (view (dev s)) (dev_no (hds s dk) = 1)"
  define P where "P k t \<longleftrightarrow> (\<exists>d. t = s\<lparr>mem := put_bytes buf (sectors_at ?D lba k) (mem s), dev := d\<rparr> \<and> media (view d) = media (view (dev s)))" for k t
  have "\<exists>u. read_piece hw others arrive dk (lba + of_nat k) (buf + of_nat (512 * k)) (of_nat (min 256 (n - k))) t = Some u \<and> P (k + min 256 (n - k)) u" if k: "k < n" "P k t" for k t
  proof -
    obtain d where d: "t = s\<lparr>mem := put_bytes buf (sectors_at ?D lba k) (mem s), dev := d\<rparr>" "media (view d) = media (view (dev s))" using k(2) by (auto simp: P_def)
    let ?m = "min 256 (n - k)"
    note op = piece_size [OF k(1)]
    have t: "channel_ok base ch t" "my_channel (hds t dk) = ch" "\<not> expecting_intr (chans t ch)" using ch by (simp_all add: d(1))
    obtain e where e: "read_piece hw others arrive dk (lba + of_nat k) (buf + of_nat (512 * k)) (of_nat ?m) t =
        Some (t\<lparr>mem := put_bytes (buf + of_nat (512 * k)) (sectors_at ?D (lba + of_nat k) ?m) (mem t), dev := e\<rparr>)" "media (view e) = media (view (dev s))"
      using read_piece_ok [OF ata irq t lba_in_range(1) [OF lba k(1)], of "of_nat ?m" "buf + of_nat (512 * k)"] op len by (auto simp: d)
    have "put_bytes (buf + of_nat (512 * k)) (sectors_at ?D (lba + of_nat k) ?m) (put_bytes buf (sectors_at ?D lba k) (mem s)) = put_bytes buf (sectors_at ?D lba (k + ?m)) (mem s)"
      using sectors_at_length [of ?D lba k, OF len] by (simp add: sectors_at_append put_bytes_append)
    then show ?thesis using e by (auto simp: P_def d(1))
  qed
  moreover have "P 0 s" by (auto simp: P_def sectors_at_def intro!: exI [of _ "dev s"])
  moreover have "n + 256 < 2 ^ 32" using lba by (simp add: max_lba_def)
  ultimately show ?thesis using pieces_invariant [of n P "read_piece hw others arrive dk" lba buf 0 s] by (auto simp: P_def)
qed

lemma write_pieces:
  assumes ata: "ata_ok hw complete view base" and irq: "irq_ok complete view others arrive base ch" and ch: "channel_ok base ch s" "my_channel (hds s dk) = ch" "\<not> expecting_intr (chans s ch)"
    and lba: "unat lba + n \<le> Suc (unat max_lba)"
  shows "\<exists>d. pieces (write_piece hw others arrive dk) lba buf 0 (of_nat n) s = Some (s\<lparr>dev := d\<rparr>) \<and>
      media (view d) = (media (view (dev s)))(dev_no (hds s dk) = 1 := store_at lba n (mem_bytes (mem s) buf (512 * n)) (media (view (dev s)) (dev_no (hds s dk) = 1)))"
proof -
  let ?b = "dev_no (hds s dk) = 1" and ?M = "media (view (dev s))"
  define P where "P k t \<longleftrightarrow> (\<exists>d. t = s\<lparr>dev := d\<rparr> \<and> media (view d) = ?M(?b := store_at lba k (mem_bytes (mem s) buf (512 * k)) (?M ?b)))" for k t
  have n: "n + 256 < 2 ^ 32" using lba by (simp add: max_lba_def)
  have "\<exists>u. write_piece hw others arrive dk (lba + of_nat k) (buf + of_nat (512 * k)) (of_nat (min 256 (n - k))) t = Some u \<and> P (k + min 256 (n - k)) u" if k: "k < n" "P k t" for k t
  proof -
    obtain d where d: "t = s\<lparr>dev := d\<rparr>" "media (view d) = ?M(?b := store_at lba k (mem_bytes (mem s) buf (512 * k)) (?M ?b))" using k(2) by (auto simp: P_def)
    let ?m = "min 256 (n - k)"
    note op = piece_size [OF k(1)]
    have t: "channel_ok base ch t" "my_channel (hds t dk) = ch" "\<not> expecting_intr (chans t ch)" using ch by (simp_all add: d(1))
    obtain e where e: "write_piece hw others arrive dk (lba + of_nat k) (buf + of_nat (512 * k)) (of_nat ?m) t = Some (t\<lparr>dev := e\<rparr>)"
      "media (view e) = (media (view d))(?b := store_at (lba + of_nat k) ?m (mem_bytes (mem s) (buf + of_nat (512 * k)) (512 * ?m)) (media (view d) ?b))"
      using write_piece_ok [OF ata irq t lba_in_range(1) [OF lba k(1)], of "of_nat ?m" "buf + of_nat (512 * k)"] op by (auto simp: d(1))
    have "store_at (lba + of_nat k) ?m (mem_bytes (mem s) (buf + of_nat (512 * k)) (512 * ?m)) (store_at lba k (mem_bytes (mem s) buf (512 * k)) (?M ?b)) =
        store_at lba (k + ?m) (mem_bytes (mem s) buf (512 * (k + ?m))) (?M ?b)"
      using store_at_append [of "mem_bytes (mem s) buf (512 * k)" k ?m] n k(1) by (simp add: mem_bytes_append distrib_left)
    then have "media (view e) = ?M(?b := store_at lba (k + ?m) (mem_bytes (mem s) buf (512 * (k + ?m))) (?M ?b))" unfolding e(2) d(2) by simp
    moreover have "t\<lparr>dev := e\<rparr> = s\<lparr>dev := e\<rparr>" by (simp add: d(1))
    ultimately have "P (k + ?m) (t\<lparr>dev := e\<rparr>)" unfolding P_def by blast
    then show ?thesis using e(1) by blast
  qed
  moreover have "P 0 s" by (auto simp: P_def store_at_def intro!: exI [of _ "dev s"])
  ultimately have "\<exists>t. pieces (write_piece hw others arrive dk) lba buf (of_nat 0) (of_nat n) s = Some t \<and> P n t"
    by (intro pieces_invariant [OF _ n]) simp_all
  then show ?thesis unfolding P_def by (auto simp only: semiring_1_class.of_nat_0)
qed

text \<open>The frame of both functions: taking the lock, selecting the disk, giving the lock back.\<close>

lemma ide_frame:
  assumes ata: "ata_ok hw complete view base" and ready: "ide_ready base dk s"
  obtains v where "\<And>piece. lba \<le> max_lba \<Longrightarrow> 0 < n \<Longrightarrow> do {
      ASSERT (lba \<le> max_lba);
      ASSERT (0 < n);
      s \<leftarrow> lock_acquire others (chan_lock (my_channel (hds s dk))) s;
      let s = select_disk hw dk s;
      s \<leftarrow> piece s;
      lock_release (chan_lock (my_channel (hds s dk))) s } = do {
      t \<leftarrow> piece v;
      lock_release (chan_lock (my_channel (hds t dk))) t }"
    "channel_ok base (my_channel (hds v dk)) v" "\<not> expecting_intr (chans v (my_channel (hds v dk)))" "mem v = mem s" "hds v = hds s" "media (view (dev v)) = media (view (dev s))"
    "\<And>m d. lock_release (chan_lock (my_channel (hds s dk))) (v\<lparr>mem := m, dev := d\<rparr>) = Some (s\<lparr>mem := m, dev := d\<rparr>)"
proof -
  let ?ch = "my_channel (hds s dk)"
  have r: "channel_ok base ?ch s" "\<not> expecting_intr (chans s ?ch)" "lock_free (chan_lock ?ch) s" using ready by (simp_all add: ide_ready_def Let_def)
  have base: "port_base (chans s ?ch) = base" using r(1) by (simp add: channel_ok_def)
  have ne: "disk_done ?ch \<noteq> lock_sema (chan_lock ?ch)" by (simp add: disk_done_def lock_sema_def chan_lock_def)
  let ?u = "locked (chan_lock ?ch) s"
  define v where "v = select_disk hw dk ?u"
  obtain d where v: "v = ?u\<lparr>dev := d\<rparr>" "media (view d) = media (view (dev s))"
    using ata base unfolding v_def by (auto simp: select_disk_def port_out_def ata_ok_def reg_def locked_def upd_lock_def set_value_def Let_def)
  have sel: "mem v = mem s" "hds v = hds s" "chans v = chans s" "dev v = d" "channels v = channels s" "elems v = elems s" "semas v = semas ?u" "locks v = locks ?u" "esp v = esp s"
    by (simp_all add: v(1) locked_def upd_lock_def set_value_def)
  have ch: "channel_ok base ?ch v" using r(1) ne by (simp add: channel_ok_def sel list_empty_def) (simp add: locked_def upd_lock_def set_value_def)
  have rel: "lock_release (chan_lock ?ch) (v\<lparr>mem := m, dev := e\<rparr>) = Some (s\<lparr>mem := m, dev := e\<rparr>)" for m e
  proof -
    have "lock_release (chan_lock ?ch) (v\<lparr>mem := m, dev := e\<rparr>) = Some (v\<lparr>mem := m, dev := e\<rparr>\<lparr>semas := semas s, locks := locks s\<rparr>)"
      by (rule lk.release_law [OF r(3)]) (use r(3) in \<open>simp add: lock_kept_def sel lock_free_def list_empty_def\<close>)
    then show ?thesis by (simp add: v(1) locked_def upd_lock_def set_value_def)
  qed
  have acq: "lock_acquire others (chan_lock ?ch) s = Some ?u" by (rule lk.acquire_law [OF r(3)])
  show ?thesis by (rule that [of v]) (use acq ch r(2) rel v(2) in \<open>simp_all add: sel v_def [symmetric]\<close>)
qed

lemma ide_read_media:
  assumes "ata_ok hw complete view base" "irq_ok complete view others arrive base (my_channel (hds s dk))" "ide_ready base dk s"
    "fits (Suc (unat max_lba)) lba cnt" "\<forall>l. length (media (view (dev s)) (dev_no (hds s dk) = 1) l) = 512"
  shows "\<exists>d. ide_read hw others arrive dk lba buf cnt s = Some (s\<lparr>mem := put_bytes buf (sectors_at (media (view (dev s)) (dev_no (hds s dk) = 1)) lba (unat cnt)) (mem s), dev := d\<rparr>) \<and>
    media (view d) = media (view (dev s))"
proof -
  have cnt: "0 < cnt" "0 < unat cnt" "unat lba + unat cnt \<le> Suc (unat max_lba)" using assms(4) by (simp_all add: fits_def word_less_nat_alt)
  have lba: "lba \<le> max_lba" using lba_in_range(1) [OF cnt(3,2)] by simp
  obtain v where v: "ide_read hw others arrive dk lba buf cnt s = do {
      t \<leftarrow> pieces (read_piece hw others arrive dk) lba buf 0 cnt v;
      lock_release (chan_lock (my_channel (hds t dk))) t }"
    "channel_ok base (my_channel (hds v dk)) v" "\<not> expecting_intr (chans v (my_channel (hds v dk)))" "mem v = mem s" "hds v = hds s" "media (view (dev v)) = media (view (dev s))"
    "\<And>m d. lock_release (chan_lock (my_channel (hds s dk))) (v\<lparr>mem := m, dev := d\<rparr>) = Some (s\<lparr>mem := m, dev := d\<rparr>)"
    using ide_frame [OF assms(1,3), of lba cnt others] lba cnt(1) unfolding ide_read_def by metis
  obtain d where "pieces (read_piece hw others arrive dk) lba buf 0 cnt v =
      Some (v\<lparr>mem := put_bytes buf (sectors_at (media (view (dev s)) (dev_no (hds s dk) = 1)) lba (unat cnt)) (mem s), dev := d\<rparr>)" "media (view d) = media (view (dev s))"
    using read_pieces [OF assms(1) _ v(2) _ v(3) cnt(3), of others arrive dk buf] assms(2,5) v(4-6) by auto
  then show ?thesis using v(1,5,7) by auto
qed

lemma ide_write_media:
  assumes "ata_ok hw complete view base" "irq_ok complete view others arrive base (my_channel (hds s dk))" "ide_ready base dk s" "fits (Suc (unat max_lba)) lba cnt"
  shows "\<exists>d. ide_write hw others arrive dk lba buf cnt s = Some (s\<lparr>dev := d\<rparr>) \<and> media (view d) = (media (view (dev s)))(dev_no (hds s dk) = 1 :=
    store_at lba (unat cnt) (mem_bytes (mem s) buf (512 * unat cnt)) (media (view (dev s)) (dev_no (hds s dk) = 1)))"
proof -
  have cnt: "0 < cnt" "0 < unat cnt" "unat lba + unat cnt \<le> Suc (unat max_lba)" using assms(4) by (simp_all add: fits_def word_less_nat_alt)
  have lba: "lba \<le> max_lba" using lba_in_range(1) [OF cnt(3,2)] by simp
  let ?D = "store_at lba (unat cnt) (mem_bytes (mem s) buf (512 * unat cnt)) (media (view (dev s)) (dev_no (hds s dk) = 1))"
  obtain v where v: "ide_write hw others arrive dk lba buf cnt s = do {
      t \<leftarrow> pieces (write_piece hw others arrive dk) lba buf 0 cnt v;
      lock_release (chan_lock (my_channel (hds t dk))) t }"
    "channel_ok base (my_channel (hds v dk)) v" "\<not> expecting_intr (chans v (my_channel (hds v dk)))" "mem v = mem s" "hds v = hds s" "media (view (dev v)) = media (view (dev s))"
    "\<And>m d. lock_release (chan_lock (my_channel (hds s dk))) (v\<lparr>mem := m, dev := d\<rparr>) = Some (s\<lparr>mem := m, dev := d\<rparr>)"
    using ide_frame [OF assms(1,3), of lba cnt others] lba cnt(1) unfolding ide_write_def by metis
  obtain d where d: "pieces (write_piece hw others arrive dk) lba buf 0 cnt v = Some (v\<lparr>dev := d\<rparr>)" "media (view d) = (media (view (dev s)))(dev_no (hds s dk) = 1 := ?D)"
    using write_pieces [OF assms(1) _ v(2) _ v(3) cnt(3), of others arrive dk buf] assms(2) v(4-6) by auto
  have "v\<lparr>dev := d\<rparr> = v\<lparr>mem := mem s, dev := d\<rparr>" "s\<lparr>dev := d\<rparr> = s\<lparr>mem := mem s, dev := d\<rparr>" using v(4) by simp_all
  then have "lock_release (chan_lock (my_channel (hds s dk))) (v\<lparr>dev := d\<rparr>) = Some (s\<lparr>dev := d\<rparr>)" using v(7) by simp
  then show ?thesis using d v(1,5) by auto
qed

section \<open>The driver as a device of sectors\<close>

text \<open>Transfers through the driver with a buffer at \<open>buf\<close>.\<close>

definition driver_read :: "'d ata \<Rightarrow> (addr \<Rightarrow> ('d, 'a) idesys_scheme \<Rightarrow> ('d, 'a) idesys_scheme option) \<Rightarrow> (('d, 'a) idesys_scheme \<Rightarrow> ('d, 'a) idesys_scheme option) \<Rightarrow> addr \<Rightarrow> addr \<Rightarrow>
    u32 \<Rightarrow> u32 \<Rightarrow> ('d, 'a) idesys_scheme \<Rightarrow> (u8 list \<times> ('d, 'a) idesys_scheme) option" where
  "driver_read hw others arrive dk buf lba n s = do { s \<leftarrow> ide_read hw others arrive dk lba buf n s; Some (mem_bytes (mem s) buf (512 * unat n), s) }"

definition driver_write :: "'d ata \<Rightarrow> (addr \<Rightarrow> ('d, 'a) idesys_scheme \<Rightarrow> ('d, 'a) idesys_scheme option) \<Rightarrow> (('d, 'a) idesys_scheme \<Rightarrow> ('d, 'a) idesys_scheme option) \<Rightarrow> addr \<Rightarrow> addr \<Rightarrow>
    u32 \<Rightarrow> u8 list \<Rightarrow> u32 \<Rightarrow> ('d, 'a) idesys_scheme \<Rightarrow> ('d, 'a) idesys_scheme option" where
  "driver_write hw others arrive dk buf lba xs n s = ide_write hw others arrive dk lba buf n (s\<lparr>mem := put_bytes buf xs (mem s)\<rparr>)"

definition drive_of :: "('d \<Rightarrow> ata_state) \<Rightarrow> addr \<Rightarrow> ('d, 'a) idesys_scheme \<Rightarrow> u32 \<Rightarrow> u8 list" where
  "drive_of view dk s = media (view (dev s)) (dev_no (hds s dk) = 1)"

definition drive_ready :: "'d ata \<Rightarrow> ('d \<Rightarrow> 'd) \<Rightarrow> ('d \<Rightarrow> ata_state) \<Rightarrow> (addr \<Rightarrow> ('d, 'a) idesys_scheme \<Rightarrow> ('d, 'a) idesys_scheme option) \<Rightarrow>
    (('d, 'a) idesys_scheme \<Rightarrow> ('d, 'a) idesys_scheme option) \<Rightarrow> u16 \<Rightarrow> addr \<Rightarrow> ('d, 'a) idesys_scheme \<Rightarrow> bool" where
  "drive_ready hw complete view others arrive base dk s \<longleftrightarrow> ata_ok hw complete view base \<and> irq_ok complete view others arrive base (my_channel (hds s dk)) \<and> ide_ready base dk s \<and>
     (\<forall>l. length (drive_of view dk s l) = 512)"

lemma ide_ready_upd [simp]: "ide_ready base dk (s\<lparr>mem := m\<rparr>) = ide_ready base dk s" "ide_ready base dk (s\<lparr>dev := d\<rparr>) = ide_ready base dk s"
  by (simp_all add: ide_ready_def Let_def lock_free_def list_empty_def running_thread_def)

lemma mem_bytes_put: "length xs = n \<Longrightarrow> n \<le> 2 ^ 32 \<Longrightarrow> mem_bytes (put_bytes p xs m) p n = xs"
  by (rule nth_equalityI) (simp_all add: mem_bytes_nth put_bytes_read)

interpretation dd: sector_device "Suc (unat max_lba)" "drive_ready hw complete view others arrive base dk" "drive_of view dk" "driver_read hw others arrive dk buf"
  "driver_write hw others arrive dk buf"
proof
  fix s and lba n :: u32
  assume r: "drive_ready hw complete view others arrive base dk s" and f: "fits (Suc (unat max_lba)) lba n"
  then have h: "ata_ok hw complete view base" "irq_ok complete view others arrive base (my_channel (hds s dk))" "ide_ready base dk s" and l: "\<forall>l. length (drive_of view dk s l) = 512"
    by (simp_all add: drive_ready_def)
  have n: "512 * unat n \<le> 2 ^ 32" using f by (simp add: fits_def max_lba_def)
  show "\<exists>t. driver_read hw others arrive dk buf lba n s = Some (sectors_at (drive_of view dk s) lba (unat n), t) \<and> drive_ready hw complete view others arrive base dk t \<and> drive_of view dk t = drive_of view dk s"
    using ide_read_media [OF h f, of buf] l h n mem_bytes_put [OF sectors_at_length, of "drive_of view dk s" "unat n" buf lba "mem s"]
    by (auto simp: driver_read_def drive_ready_def drive_of_def)
  fix xs :: "u8 list" assume x: "length xs = 512 * unat n"
  let ?s = "s\<lparr>mem := put_bytes buf xs (mem s)\<rparr>"
  have "irq_ok complete view others arrive base (my_channel (hds ?s dk))" "ide_ready base dk ?s" using h by simp_all
  then obtain d where d: "ide_write hw others arrive dk lba buf n ?s = Some (?s\<lparr>dev := d\<rparr>)"
    "media (view d) = (media (view (dev s)))(dev_no (hds s dk) = 1 := store_at lba (unat n) xs (drive_of view dk s))"
    using ide_write_media [OF h(1) _ _ f, of others arrive ?s dk buf] mem_bytes_put [OF x n, of buf "mem s"] by (auto simp: drive_of_def)
  then show "\<exists>t. driver_write hw others arrive dk buf lba xs n s = Some t \<and> drive_ready hw complete view others arrive base dk t \<and> drive_of view dk t = store_at lba (unat n) xs (drive_of view dk s)"
    using h l store_at_full [OF x, of "drive_of view dk s" lba] by (auto simp: driver_write_def drive_ready_def drive_of_def)
qed

section \<open>Claims\<close>




section \<open>An example\<close>

text \<open>A controller that does everything at once, on the ports from 0x1f0 on.\<close>

definition quick_out :: "u16 \<Rightarrow> u8 \<Rightarrow> ata_state \<Rightarrow> ata_state" where
  "quick_out p x d =
     (if p = 0x1f2 then d\<lparr>t_cnt := x\<rparr> else if p = 0x1f3 then d\<lparr>t_low := x\<rparr> else if p = 0x1f4 then d\<lparr>t_mid := x\<rparr>
      else if p = 0x1f5 then d\<lparr>t_high := x\<rparr> else if p = 0x1f6 then d\<lparr>t_dev := x\<rparr>
      else if p = 0x1f7 \<and> x = CMD_READ_SECTOR then d\<lparr>offered := bytes16 (sectors_at (media d (drive d)) (lba28 d) (sector_cnt (t_cnt d))), wanted := 0, taken := []\<rparr>
      else if p = 0x1f7 \<and> x = CMD_WRITE_SECTOR then d\<lparr>wanted := 256 * sector_cnt (t_cnt d), taken := []\<rparr>
      else d)"

definition quick_ata :: "ata_state ata" where
  "quick_ata = \<lparr>out_b = quick_out, in_b = (\<lambda>_ d. (BIT_STAT_DRQ, d)), out_w = (\<lambda>_ x d. d\<lparr>wanted := wanted d - 1, taken := taken d @ [x]\<rparr>),
     in_w = (\<lambda>_ d. case offered d of [] \<Rightarrow> (0, d) | w # ws \<Rightarrow> (w, d\<lparr>offered := ws\<rparr>))\<rparr>"

definition quick_complete :: "ata_state \<Rightarrow> ata_state" where
  "quick_complete d =
     (if wanted d = 0 \<and> taken d \<noteq> [] then
        d\<lparr>media := (media d)(drive d := store_at (lba28 d) (sector_cnt (t_cnt d)) (words8 (taken d)) (media d (drive d))), taken := []\<rparr>
      else d)"

lemma quick_ata_ok: "ata_ok quick_ata quick_complete (\<lambda>d. d) 0x1f0"
  by (simp add: ata_ok_def quick_ata_def quick_out_def quick_complete_def CMD_READ_SECTOR_def CMD_WRITE_SECTOR_def BIT_STAT_BSY_def BIT_STAT_DRQ_def)

definition bare_ide :: "ata_state idesys" where
  "bare_ide = (fsys.extend bare_fs (idesys.fields \<lparr>t_cnt = 0, t_low = 0, t_mid = 0, t_high = 0, t_dev = 0, media = (\<lambda>_ _. replicate 512 0), offered = [], wanted = 0, taken = []\<rparr>
     0xc000a000 (\<lambda>_. \<lparr>port_base = 0x1f0, irq_no = 0x2e, expecting_intr = False\<rparr>) (\<lambda>_. \<lparr>my_channel = 0xc000a000, dev_no = 1\<rparr>) 1 0 0 0 0xc000b000))
     \<lparr>elems := (\<lambda>a. \<lparr>lprev = 0, lnext = a + 8\<rparr>), semas := (\<lambda>a. \<lparr>svalue = (if a = 0xc000a02c then 0 else 1)\<rparr>), locks := (\<lambda>_. \<lparr>holder = 0, holder_repeat_nr = 0\<rparr>)\<rparr>"

lemma bare_ide_sel [simp]:
  "hds bare_ide = (\<lambda>_. \<lparr>my_channel = 0xc000a000, dev_no = 1\<rparr>)" "chans bare_ide = (\<lambda>_. \<lparr>port_base = 0x1f0, irq_no = 0x2e, expecting_intr = False\<rparr>)" "channels bare_ide = 0xc000a000"
  "semas bare_ide = (\<lambda>a. \<lparr>svalue = (if a = 0xc000a02c then 0 else 1)\<rparr>)" "locks bare_ide = (\<lambda>_. \<lparr>holder = 0, holder_repeat_nr = 0\<rparr>)" "elems bare_ide = (\<lambda>a. \<lparr>lprev = 0, lnext = a + 8\<rparr>)"
  "disks bare_ide = (\<lambda>_ _. replicate 512 0)" "media (dev bare_ide) = (\<lambda>_ _. replicate 512 0)" "esp bare_ide = esp bare_console" "mem bare_ide = (\<lambda>_. 0)"
  by (simp_all add: bare_ide_def bare_fs_def idesys.defs fsys.defs consys.defs)

lemma bare_ide_ready: "ide_ready 0x1f0 dk bare_ide"
proof -
  have "esp bare_console = 0xc009ef00" by (simp add: bare_console_def boot_tables_def bare_mem_def tables.defs memsys.defs consys.defs iosys.defs two_threads_io_def tsys.defs, code_simp)
  then show ?thesis by (simp add: ide_ready_def channel_ok_def list_empty_def tail_of_def disk_done_def lock_free_def chan_lock_def lock_sema_def running_thread_def)
qed

definition quick_irq :: "ata_state idesys \<Rightarrow> ata_state idesys option" where
  "quick_irq s = intr_hd_handler quick_ata (irq_no (chans s 0xc000a000)) (s\<lparr>dev := quick_complete (dev s)\<rparr>)"

lemma quick_irq_ok: "irq_ok quick_complete (\<lambda>d. d) others quick_irq 0x1f0 0xc000a000"
  using irq_before_wait [of "\<lambda>d. d" quick_ata "0x1f0" quick_complete others "0xc000a000"] by (simp add: quick_irq_def [abs_def] quick_ata_def)




end
