(* ===== verification/Release.thy ===== *)
theory Release
  imports FileWrite
begin

text \<open>
  What releasing an inode does to the blocks of its file (\<open>inode_release\<close> of \<^verbatim>\<open>fs/inode.c\<close>, used by \<open>sys_unlink\<close> and when a directory is removed): exactly the blocks of the file and its index
  block become free again.
\<close>

section \<open>Giving blocks back\<close>

text \<open>Between \<open>s\<close> and \<open>t\<close> the blocks in \<open>A\<close> have become free; nothing else has changed but the block bitmap in memory and its sectors.\<close>

definition shrunk :: "u32 set \<Rightarrow> 'a fsys_scheme \<Rightarrow> 'a fsys_scheme \<Rightarrow> bool" where
  "shrunk A s t \<longleftrightarrow> fs_layout t \<and> parts t = parts s \<and> cur_part t = cur_part s \<and> file_table t = file_table s \<and> inodes t = inodes s \<and>
     (\<forall>j < blocks_of s. block_used t j \<longleftrightarrow> block_used s j \<and> block_addr s j \<notin> A) \<and>
     (\<forall>l \<ge> data_start_lba (sb (parts s (cur_part s))). disks t (the_disk s) l = disks s (the_disk s) l) \<and>
     (\<forall>a. \<not> bitmap_byte s a \<longrightarrow> mem t a = mem s a)"

lemma shrunk_same: "shrunk A s t \<Longrightarrow> blocks_of t = blocks_of s \<and> block_addr t = block_addr s \<and> the_disk t = the_disk s \<and> bitmap_byte t = bitmap_byte s"
  by (simp add: shrunk_def blocks_of_def block_addr_def the_disk_def bitmap_byte_def fun_eq_iff)

lemma shrunk_refl: "fs_layout s \<Longrightarrow> shrunk {} s s"
  by (simp add: shrunk_def)

lemma shrunk_trans: "shrunk A s t \<Longrightarrow> shrunk B t u \<Longrightarrow> shrunk (A \<union> B) s u"
  using shrunk_same [of A s t] by (auto simp: shrunk_def)

lemma shrunk_in_use: "shrunk A s t \<Longrightarrow> in_use t x \<longleftrightarrow> in_use s x \<and> x \<notin> A"
  using shrunk_same [of A s t] by (auto simp: in_use_def shrunk_def)

lemma block_free_ok:
  assumes lay: "fs_layout s" and i: "i < blocks_of s" "0 < i"
  shows "\<exists>t. block_free (cur_part s) (block_addr s i) s = Some t \<and> shrunk {block_addr s i} s t"
proof -
  let ?B = "block_bitmap (parts s (cur_part s))" and ?d = "data_start_lba (sb (parts s (cur_part s)))"
  have d: "block_addr s i - ?d = of_nat i" by (simp add: block_addr_def)
  obtain m where m: "bitmap_set ?B (of_nat i) 0 (mem s) = Some m" using bitmap_set_total by blast
  have lt: "i < 2 ^ 32" "\<And>j. j < blocks_of s \<Longrightarrow> j < 2 ^ 32" using bm_bits_bound [of ?B] lay i(1) by (simp_all add: fs_layout_def Let_def blocks_of_def)
  obtain D where D: "bitmap_sync (cur_part s) (block_addr s i - ?d) BLOCK_BITMAP (s\<lparr>mem := m\<rparr>) = Some (s\<lparr>mem := m, disks := D\<rparr>)"
    "\<forall>l. length (D (the_disk s) l) = 512" "\<forall>l \<ge> ?d. D (the_disk s) l = disks s (the_disk s) l"
    by (rule block_sync_ok [OF lay i(1)])
  have "(of_nat i :: u32) \<noteq> 0" using i(2) lt(1) unat_of_nat_lt [of i, where 'a = 32] by auto
  then have "block_free (cur_part s) (block_addr s i) s = Some (s\<lparr>mem := m, disks := D\<rparr>)"
    using m D(1) by (simp add: block_free_def block_bit_clear_def d word_neq_0_conv)
  moreover have "block_used (s\<lparr>mem := m, disks := D\<rparr>) j \<longleftrightarrow> block_used s j \<and> block_addr s j \<notin> {block_addr s i}" if "j < blocks_of s" for j
    using bitmap_set_used [OF m lt(1)] lt(2) [OF that] block_addr_inj [OF lay that i(1)] by (auto simp: block_used_def)
  moreover have "m a = mem s a" if "\<not> bitmap_byte s a" for a using bitmap_set_frame [OF m lt(1)] i(1) that by (auto simp: bitmap_byte_def)
  ultimately show ?thesis using lay D(2,3) by (auto simp: shrunk_def fs_layout_def sectors_ok_def Let_def the_disk_def)
qed

lemma in_use_free:
  assumes "fs_layout s" "in_use s b" "b \<noteq> block_addr s 0"
  shows "\<exists>t. block_free (cur_part s) b s = Some t \<and> shrunk {b} s t"
proof -
  obtain i where "i < blocks_of s" "b = block_addr s i" using assms(2) by (auto simp: in_use_def)
  then show ?thesis using block_free_ok [OF assms(1), of i] assms(3) by (cases "i = 0") auto
qed

lemma release_loop_ok:
  assumes "fs_layout s" "distinct (filter (\<lambda>b. b \<noteq> 0) bs)" "\<forall>b \<in> set bs. b \<noteq> 0 \<longrightarrow> in_use s b \<and> b \<noteq> block_addr s 0"
  shows "\<exists>t. release_loop (cur_part s) bs s = Some t \<and> shrunk (set bs - {0}) s t"
  using assms
proof (induction bs arbitrary: s)
  case Nil
  then show ?case using shrunk_refl by simp
next
  case (Cons b bs)
  show ?case
  proof (cases "b = 0")
    case True
    then show ?thesis using Cons by simp
  next
    case False
    then obtain t where t: "block_free (cur_part s) b s = Some t" "shrunk {b} s t" using in_use_free [OF Cons.prems(1), of b] Cons.prems(3) by auto
    have lay: "fs_layout t" "cur_part t = cur_part s" using t(2) by (simp_all add: shrunk_def)
    have "\<forall>c \<in> set bs. c \<noteq> 0 \<longrightarrow> in_use t c \<and> c \<noteq> block_addr t 0"
      using Cons.prems(2,3) False shrunk_in_use [OF t(2)] shrunk_same [OF t(2)] by auto
    then obtain u where u: "release_loop (cur_part s) bs t = Some u" "shrunk (set bs - {0}) t u" using Cons.IH [OF lay(1)] Cons.prems(2) False lay(2) by auto
    have "set (b # bs) - {0} = {b} \<union> (set bs - {0})" using False by auto
    then show ?thesis using t u False shrunk_trans [OF t(2) u(2)] by auto
  qed
qed

section \<open>Claims\<close>

lemma filter_prefix:
  assumes "\<forall>k < n. P (xs ! k)" "\<forall>k < length xs. n \<le> k \<longrightarrow> \<not> P (xs ! k)" "n \<le> length xs"
  shows "filter P xs = take n xs"
proof -
  have "filter P (take n xs) = take n xs" using assms(1,3) by (auto simp: filter_id_conv in_set_conv_nth)
  moreover have "filter P (drop n xs) = []" using assms(2,3) by (auto simp: filter_empty_conv in_set_conv_nth)
  ultimately show ?thesis by (metis append_Nil2 append_take_drop_id filter_append)
qed

lemma file_blocks_filter:
  assumes "fs_layout s" "file_ok p s" "file_blocks p s \<le> m" "m \<le> 140"
  shows "filter (\<lambda>b. b \<noteq> 0) (take m (block_list p s)) = take (file_blocks p s) (block_list p s)"
proof -
  have ok: "\<forall>k < file_blocks p s. in_use s (block_list p s ! k)" "\<forall>k < 140. file_blocks p s \<le> k \<longrightarrow> block_list p s ! k = 0" "length (block_list p s) = 140"
    using assms(2) block_list_length [of s p] by (auto simp: file_ok_def Let_def)
  have "filter (\<lambda>b. b \<noteq> 0) (take m (block_list p s)) = take (file_blocks p s) (take m (block_list p s))"
    using ok assms(3,4) in_use_ok [OF assms(1)] by (intro filter_prefix) auto
  then show ?thesis using assms(3) by simp
qed

lemma release_listed:
  assumes lay: "fs_layout t" and s: "fs_layout s" "file_ok p s" and m: "file_blocks p s \<le> m" "m \<le> 140"
    and use: "\<forall>b \<in> set (take (file_blocks p s) (block_list p s)). in_use t b \<and> b \<noteq> block_addr t 0"
  shows "\<exists>u. release_loop (cur_part t) (take m (block_list p s)) t = Some u \<and> shrunk (set (take (file_blocks p s) (block_list p s))) t u"
proof -
  note f = file_blocks_filter [OF s m]
  have "distinct (take (file_blocks p s) (block_list p s))" using s(2) by (simp add: file_ok_def Let_def)
  moreover have set: "set (take m (block_list p s)) - {0} = set (take (file_blocks p s) (block_list p s))" unfolding f [symmetric] by auto
  ultimately show ?thesis using release_loop_ok [OF lay, of "take m (block_list p s)"] use f by auto
qed

text \<open>
  C10. Releasing a file. For a well-formed file that does not own the first data block, which belongs to the root directory, the part of \<open>inode_release\<close> that gives back blocks succeeds.
  Afterwards a block is in use exactly if it was in use before and did not belong to the file, as a data block or as its index block; the bitmap is a bitmap of a well-formed partition, no data
  block on disk has changed, and no inode in memory.
\<close>

theorem release_frees_file:
  assumes "fs_layout s" "file_ok p s" "\<not> owns p s (block_addr s 0)"
  shows "\<exists>t. release_blocks (cur_part s) (inodes s p) s = Some t \<and> fs_layout t \<and> (\<forall>x. in_use t x \<longleftrightarrow> in_use s x \<and> \<not> owns p s x) \<and> inodes t = inodes s \<and>
    (\<forall>l \<ge> data_start_lba (sb (parts s (cur_part s))). disks t (the_disk s) l = disks s (the_disk s) l)"
proof -
  let ?n = "file_blocks p s" and ?bl = "block_list p s" and ?ib = "i_sectors (inodes s p) ! 12"
  have l: "length (i_sectors (inodes s p)) = 13" and n: "?n \<le> 140" and ib: "if 12 < ?n then in_use s ?ib \<and> ?ib \<notin> set (take ?n ?bl) else ?ib = 0"
    using assms(2) by (auto simp: file_ok_def Let_def)
  have use: "\<forall>b \<in> set (take ?n ?bl). in_use s b \<and> b \<noteq> block_addr s 0"
    using assms(2,3) by (auto simp: file_ok_def Let_def owns_def in_set_conv_nth)
  have direct: "take 12 (i_sectors (inodes s p)) = take 12 ?bl" using l by (simp add: block_list_def)
  show ?thesis
  proof (cases "12 < ?n")
    case False
    then obtain t where t: "release_loop (cur_part s) (take 12 ?bl) s = Some t" "shrunk (set (take ?n ?bl)) s t" using release_listed [OF assms(1) assms(1,2) _ _ use, of 12] by auto
    have "release_blocks (cur_part s) (inodes s p) s = Some t" using t(1) ib False direct by (simp add: release_blocks_def)
    moreover have "in_use t x \<longleftrightarrow> in_use s x \<and> \<not> owns p s x" for x using shrunk_in_use [OF t(2)] ib False in_use_ok [OF assms(1)] by (auto simp: owns_def)
    ultimately show ?thesis using t(2) by (simp add: shrunk_def)
  next
    case True
    then have ib: "in_use s ?ib" "?ib \<notin> set (take ?n ?bl)" using ib by auto
    have "?ib \<noteq> block_addr s 0" using assms(3) by (auto simp: owns_def)
    then obtain t where t: "block_free (cur_part s) ?ib s = Some t" "shrunk {?ib} s t" using in_use_free [OF assms(1) ib(1)] by blast
    have lay: "fs_layout t" "cur_part t = cur_part s" using t(2) by (simp_all add: shrunk_def)
    have "\<forall>b \<in> set (take ?n ?bl). in_use t b \<and> b \<noteq> block_addr t 0" using use ib(2) shrunk_in_use [OF t(2)] shrunk_same [OF t(2)] by auto
    then obtain u where u: "release_loop (cur_part t) (take 140 ?bl) t = Some u" "shrunk (set (take ?n ?bl)) t u" using release_listed [OF lay(1) assms(1,2) n] by auto
    have "take 12 ?bl @ drop 12 ?bl = take 140 ?bl" using block_list_length [OF l] by simp
    then have "release_blocks (cur_part s) (inodes s p) s = Some u"
      using t(1) u(1) in_use_ok [OF assms(1) ib(1)] index_block_list [OF assms(1) ib(1) l] lay(2) by (simp add: release_blocks_def direct)
    moreover have "in_use u x \<longleftrightarrow> in_use s x \<and> \<not> owns p s x" for x using shrunk_in_use [OF t(2)] shrunk_in_use [OF u(2)] by (auto simp: owns_def)
    ultimately show ?thesis using shrunk_trans [OF t(2) u(2)] by (simp add: shrunk_def)
  qed
qed

text \<open>A file of one block, the second one; the first is that of the root directory.\<close>

definition two_blocks :: fsys where
  "two_blocks = bare_file\<lparr>mem := (\<lambda>_. 0)(0xc0300000 := 3), inodes := (\<lambda>_. inode_init 0\<lparr>i_size := 100, i_sectors := 2664 # replicate 12 0\<rparr>)\<rparr>"

lemma two_blocks_ok: "fs_layout two_blocks" "file_ok p two_blocks" "block_addr two_blocks 0 = 2663" "in_use two_blocks 2663" "in_use two_blocks 2664" "block_list p two_blocks ! 0 = 2664"
proof -
  show "fs_layout two_blocks" using bare_file_ok(1) by (simp add: two_blocks_def fs_layout_def sectors_ok_def Let_def)
  have n: "file_len p two_blocks = 100" "file_blocks p two_blocks = 1" by (simp_all add: two_blocks_def file_len_def file_blocks_def)
  show a: "block_addr two_blocks 0 = 2663" by (simp add: two_blocks_def block_addr_def bare_part_def bare_sb_def)
  have "block_used two_blocks 0" "block_used two_blocks 1" "1 < blocks_of two_blocks" "block_addr two_blocks 1 = 2664"
    by (simp_all add: two_blocks_def block_used_def blocks_of_def block_addr_def bare_part_def bare_sb_def bm_bits_def used_def)
  then show u: "in_use two_blocks 2663" "in_use two_blocks 2664" using a unfolding in_use_def by (metis less_trans zero_less_one)+
  show l: "block_list p two_blocks ! 0 = 2664" by (simp add: two_blocks_def block_list_def)
  have "block_list p two_blocks ! k = 0" if "k < 140" "1 \<le> k" for k using that by (cases k) (simp_all add: two_blocks_def block_list_def nth_append)
  moreover have "i_sectors (inodes two_blocks p) = 2664 # replicate 12 0" by (simp add: two_blocks_def)
  ultimately show "file_ok p two_blocks" using n u l by (simp add: file_ok_def Let_def block_list_def)
qed

theorem release_frees_file_witness:
  "\<exists>t. release_blocks (cur_part two_blocks) (inodes two_blocks 0) two_blocks = Some t \<and> in_use two_blocks 2664 \<and> \<not> in_use t 2664 \<and> in_use t 2663"
proof -
  have o: "owns 0 two_blocks x \<longleftrightarrow> x = 2664 \<or> x = 0" for x
    by (simp add: owns_def file_blocks_def file_len_def two_blocks_def block_list_def)
  show ?thesis using release_frees_file [OF two_blocks_ok(1,2), of 0] two_blocks_ok(3-5) by (auto simp: o)
qed

end
