(* ===== verification/Format.thy ===== *)
theory Format
  imports Fs
begin

text \<open>
  What formatting leaves on a disk (\<open>partition_format\<close> of \<^verbatim>\<open>fs/fs.c\<close>): the super block, the block bitmap, the inode bitmap, the inode table and the root directory follow each other inside the
  partition, and each area has the contents that mounting and opening the root directory expect.
\<close>

section \<open>Sizes\<close>

text \<open>The number of data blocks and of sectors of the block bitmap of a partition of \<open>n\<close> sectors; 611 sectors are the boot sector, the super block, the inode bitmap and the inode table.\<close>

definition data_blocks :: "nat \<Rightarrow> nat" where
  "data_blocks n = n - 611 - (n - 611 + 4095) div 4096"

definition bitmap_sectors :: "nat \<Rightarrow> nat" where
  "bitmap_sectors n = (data_blocks n + 4095) div 4096"

lemma div_round_up_nat:
  assumes "unat x + 4095 < 2 ^ 32"
  shows "unat (DIV_ROUND_UP x 4096) = (unat x + 4095) div 4096"
proof -
  have "unat (x + 4095) = unat x + 4095" using assms by (simp add: unat_add_lem [THEN iffD1])
  moreover have "x + 4096 - 1 = x + 4095" by simp
  ultimately show ?thesis unfolding DIV_ROUND_UP_def by (simp add: unat_div add.commute [of 4095])
qed

lemma sizes_bounds:
  assumes "620 \<le> n" "n \<le> 163840"
  shows "8 \<le> data_blocks n" "1 \<le> bitmap_sectors n" "bitmap_sectors n \<le> 40" "611 + bitmap_sectors n + data_blocks n \<le> n" "data_blocks n \<le> 4096 * bitmap_sectors n"
proof -
  let ?f = "n - 611"
  have f: "9 \<le> ?f" "?f \<le> 163229" using assms by auto
  have q: "(?f + 4095) div 4096 \<le> 40" using f(2) by simp
  show "8 \<le> data_blocks n"
  proof (cases "?f \<le> 4096")
    case True
    then have "(?f + 4095) div 4096 = 1" using f(1) by simp
    then show ?thesis using f(1) by (simp add: data_blocks_def)
  next
    case False
    then show ?thesis using q by (simp add: data_blocks_def)
  qed
  then show "1 \<le> bitmap_sectors n" by (simp add: bitmap_sectors_def)
  have "data_blocks n \<le> ?f" by (simp add: data_blocks_def)
  then have le: "bitmap_sectors n \<le> (?f + 4095) div 4096" unfolding bitmap_sectors_def by (intro div_le_mono) simp
  then show "bitmap_sectors n \<le> 40" using q by simp
  have "(?f + 4095) div 4096 \<le> ?f" using f(1) by linarith
  then show "611 + bitmap_sectors n + data_blocks n \<le> n" using le assms(1) by (simp add: data_blocks_def)
  show "data_blocks n \<le> 4096 * bitmap_sectors n" unfolding bitmap_sectors_def by linarith
qed

lemma inode_areas: "DIV_ROUND_UP MAX_FILES_PER_PART 4096 = 1" "DIV_ROUND_UP (76 * MAX_FILES_PER_PART) 512 = 608"
  by (simp_all add: DIV_ROUND_UP_def MAX_FILES_PER_PART_def)

lemma bit_len_nat:
  assumes "620 \<le> unat sects" "unat sects \<le> 163840"
  shows "unat (block_bitmap_bit_len sects) = data_blocks (unat sects)"
proof -
  let ?f = "sects - 611"
  have f: "unat ?f = unat sects - 611" using assms(1) by (subst unat_sub) (simp_all add: word_le_nat_alt)
  have q: "unat (DIV_ROUND_UP ?f 4096) = (unat ?f + 4095) div 4096" using assms f by (intro div_round_up_nat) simp
  have "(unat ?f + 4095) div 4096 \<le> unat ?f" using assms(1) f by linarith
  then have "unat (?f - DIV_ROUND_UP ?f 4096) = unat ?f - (unat ?f + 4095) div 4096" using q by (subst unat_sub) (simp_all add: word_le_nat_alt)
  then show ?thesis unfolding block_bitmap_bit_len_def Let_def inode_areas BITS_PER_SECTOR_def by (simp add: data_blocks_def f)
qed

text \<open>The areas of a formatted partition.\<close>

lemma format_areas_at:
  assumes "620 \<le> unat (sec_cnt P)" "unat (start_lba P) + unat (sec_cnt P) \<le> Suc (unat max_lba)"
  shows "unat (start_lba P + 1) = unat (start_lba P) + 1" "unat (block_bitmap_lba (format_sb P)) = unat (start_lba P) + 2" "unat (block_bitmap_sects (format_sb P)) = bitmap_sectors (unat (sec_cnt P))"
    "unat (inode_bitmap_lba (format_sb P)) = unat (start_lba P) + 2 + bitmap_sectors (unat (sec_cnt P))" "inode_bitmap_sects (format_sb P) = 1"
    "unat (inode_table_lba (format_sb P)) = unat (start_lba P) + 3 + bitmap_sectors (unat (sec_cnt P))" "inode_table_sects (format_sb P) = 608"
    "unat (data_start_lba (format_sb P)) = unat (start_lba P) + 611 + bitmap_sectors (unat (sec_cnt P))" "unat (sec_cnt P) \<le> 163840"
proof -
  show n: "unat (sec_cnt P) \<le> 163840" using assms(2) by (simp add: max_lba_def)
  note b = sizes_bounds [OF assms(1) n] and bl = bit_len_nat [OF assms(1) n]
  have base: "unat (start_lba P) \<le> 163840" using assms(2) by (simp add: max_lba_def)
  have "data_blocks (unat (sec_cnt P)) \<le> 163840" using b(4) n by simp
  then have S: "unat (DIV_ROUND_UP (block_bitmap_bit_len (sec_cnt P)) 4096) = bitmap_sectors (unat (sec_cnt P))"
    unfolding bitmap_sectors_def bl [symmetric] using bl by (intro div_round_up_nat) simp
  let ?S = "DIV_ROUND_UP (block_bitmap_bit_len (sec_cnt P)) 4096"
  have sum: "unat (start_lba P + k) = unat (start_lba P) + unat k" if "unat k \<le> 1000" for k using that base by (simp add: unat_add_lem [THEN iffD1])
  have sum2: "unat (?S + k) = bitmap_sectors (unat (sec_cnt P)) + unat k" if "unat k \<le> 700" for k using that b(3) S by (simp add: unat_add_lem [THEN iffD1])
  have e: "block_bitmap_lba (format_sb P) = start_lba P + 2" "block_bitmap_sects (format_sb P) = ?S" "inode_bitmap_lba (format_sb P) = start_lba P + (?S + 2)"
    "inode_table_lba (format_sb P) = start_lba P + (?S + 3)" "data_start_lba (format_sb P) = start_lba P + (?S + 611)"
    unfolding format_sb_def Let_def inode_areas BITS_PER_SECTOR_def by (simp_all add: algebra_simps)
  show "inode_bitmap_sects (format_sb P) = 1" "inode_table_sects (format_sb P) = 608" unfolding format_sb_def Let_def inode_areas BITS_PER_SECTOR_def by simp_all
  show "unat (start_lba P + 1) = unat (start_lba P) + 1" using sum [of 1] by simp
  show "unat (block_bitmap_lba (format_sb P)) = unat (start_lba P) + 2" "unat (block_bitmap_sects (format_sb P)) = bitmap_sectors (unat (sec_cnt P))" using sum [of 2] S by (simp_all add: e)
  show "unat (inode_bitmap_lba (format_sb P)) = unat (start_lba P) + 2 + bitmap_sectors (unat (sec_cnt P))"
    "unat (inode_table_lba (format_sb P)) = unat (start_lba P) + 3 + bitmap_sectors (unat (sec_cnt P))"
    "unat (data_start_lba (format_sb P)) = unat (start_lba P) + 611 + bitmap_sectors (unat (sec_cnt P))"
    using b(3) sum [of "?S + 2"] sum [of "?S + 3"] sum [of "?S + 611"] sum2 [of 2] sum2 [of 3] sum2 [of 611] by (simp_all add: e)
qed

section \<open>The block bitmap\<close>

lemma clear_bits_bit: "bit (clear_bits n b) j \<longleftrightarrow> n \<le> j \<and> bit b j"
proof (induction n)
  case (Suc n)
  show ?case
  proof (cases "j < 8")
    case True
    then show ?thesis using Suc by (auto simp: bit_and_iff bit_not_iff bit_exp_iff)
  next
    case False
    then show ?thesis using bit_imp_le_length [of "clear_bits (Suc n) b" j] bit_imp_le_length [of b j] by auto
  qed
qed simp

lemma put_at_nth:
  assumes "put_at off xs buf = Some b" "k < length buf"
  shows "b ! k = (if off \<le> k \<and> k < off + length xs then xs ! (k - off) else buf ! k)"
  using assms by (auto simp: put_at_def nth_append)

text \<open>The bits of the image up to the end of the sector in which the last block has its bit: set for the first block and for everything behind the block whose number is the number of
  blocks. The bit with exactly that number, which belongs to no block, is clear.\<close>

lemma block_bitmap_image_bits:
  assumes "8 \<le> unat len" "(unat len div 4096 + 1) * 512 \<le> n"
  shows "\<exists>img. block_bitmap_image len (replicate n 0) = Some img \<and> length img = n \<and>
    (\<forall>i < (unat len div 4096 + 1) * 4096. bit (img ! (i div 8)) (i mod 8) \<longleftrightarrow> i = 0 \<or> unat len < i)"
proof -
  define B q r d where "B = unat len" and "q = B div 8" and "r = B mod 8" and "d = 512 - q mod 512"
  have qr: "B = 8 * q + r" "r < 8" "1 \<le> q" "unat (len div 8) = q" "unat (len mod 8) = r" using assms(1) by (auto simp: q_def r_def B_def unat_div unat_mod)
  have z: "B div 4096 = q div 512" by (simp add: q_def div_mult2_eq [symmetric])
  have up: "x + (512 - y) = (w + 1) * 512" "x < (w + 1) * 512" if "x = w * 512 + y" "y < 512" for x y w :: nat using that by simp_all
  have q512: "q + (512 - q mod 512) = (q div 512 + 1) * 512" "q < (q div 512 + 1) * 512" by (rule up [of q "q div 512" "q mod 512"]; simp)+
  have "(q div 512 + 1) * 512 \<le> n" using assms(2) z by (simp add: B_def)
  with q512 have fit: "q + d = (q div 512 + 1) * 512" "(q div 512 + 1) * 512 \<le> n" "q < n" "0 < d" by (auto simp: d_def intro: order.strict_trans2)
  obtain b1 where b1: "put_at 0 [hd (replicate n (0 :: u8)) OR 1] (replicate n 0) = Some b1" using fit(3) by (cases n) (simp_all add: put_at_def)
  have l1: "length b1 = n" using put_at_length [OF b1] by simp
  obtain b2 where b2: "put_at q (replicate d 0xff) b1 = Some b2" using fit l1 by (simp add: put_at_def)
  have l2: "length b2 = n" using put_at_length [OF b2] l1 by simp
  obtain b3 where b3: "put_at q [clear_bits (Suc r) (b2 ! q)] b2 = Some b3" using fit(3) l2 by (simp add: put_at_def)
  have l3: "length b3 = n" using put_at_length [OF b3] l2 by simp
  have img: "block_bitmap_image len (replicate n 0) = Some b3" using b1 b2 b3 by (simp add: block_bitmap_image_def qr(4,5) d_def [symmetric])
  have e2: "b2 ! q = 0xff" using put_at_nth [OF b2, of q] l1 fit(3,4) by simp
  have hd0: "hd (replicate n (0 :: u8)) = 0" using fit(3) by (cases n) simp_all
  have b: "b3 ! k = (if k = 0 then 1 else if k < q then 0 else if k = q then clear_bits (Suc r) 0xff else 0xff)" if "k < (q div 512 + 1) * 512" for k
  proof -
    have k: "k < n" using that fit(2) by simp
    then show ?thesis using put_at_nth [OF b3, of k] put_at_nth [OF b2, of k] put_at_nth [OF b1, of k] l1 l2 e2 hd0 that fit(1) qr(3) by auto
  qed
  have ff: "bit (0xff :: u8) j \<longleftrightarrow> j < 8" for j
  proof -
    have "(0xff :: u8) = - 1" by simp
    then show ?thesis by (simp only: bit_minus_1_iff possible_bit_word) simp
  qed
  have "bit (b3 ! (i div 8)) (i mod 8) \<longleftrightarrow> i = 0 \<or> B < i" if "i < (q div 512 + 1) * 4096" for i
  proof -
    have k: "i div 8 < (q div 512 + 1) * 512" using that by (simp add: div_less_iff_less_mult)
    define a c where "a = i div 8" and "c = i mod 8"
    have ac: "i = 8 * a + c" "c < 8" by (simp_all add: a_def c_def)
    consider "a = 0" | "0 < a" "a < q" | "a = q" | "q < a" by linarith
    then have "bit (b3 ! a) c \<longleftrightarrow> i = 0 \<or> B < i"
    proof cases
      case 1
      then show ?thesis using b [OF k [folded a_def]] ac qr(1-3) by (simp add: bit_1_iff)
    next
      case 3
      then have "b3 ! a = clear_bits (Suc r) 0xff" using b [OF k [folded a_def]] qr(3) by simp
      then have "bit (b3 ! a) c \<longleftrightarrow> Suc r \<le> c" using ff [of c] ac(2) by (simp only: clear_bits_bit) simp
      then show ?thesis using 3 ac qr(1-3) by auto
    qed (use b [OF k [folded a_def]] ac qr(1-3) ff [of c] in auto)
    then show ?thesis by (simp add: a_def c_def)
  qed
  then show ?thesis using img l3 z by (auto simp: B_def)
qed

section \<open>The areas of a formatted partition\<close>

lemma buf_size_nat:
  assumes "inode_bitmap_sects b = 1" "inode_table_sects b = 608" "unat (block_bitmap_sects b) \<le> 40"
  shows "unat (format_buf_size b) = 608 * 512"
proof -
  have "\<not> 608 \<le> block_bitmap_sects b" using assms(3) by (simp add: word_le_nat_alt)
  moreover have "\<not> 608 \<le> (1 :: u32)" by (simp add: word_le_nat_alt)
  ultimately have "format_buf_size b = 608 * 512" using assms(1,2) by (simp add: format_buf_size_def Let_def)
  then show ?thesis by simp
qed

definition root_inode :: "super_block \<Rightarrow> inode" where
  "root_inode b = inode_init 0\<lparr>i_size := dir_entry_size b * 2, i_sectors := data_start_lba b # replicate 12 0\<rparr>"

text \<open>The disk after formatting, area by area.\<close>

definition formatted :: "u8 list \<Rightarrow> partition \<Rightarrow> u8 list \<Rightarrow> (u32 \<Rightarrow> u8 list) \<Rightarrow> u32 \<Rightarrow> u8 list" where
  "formatted pad P img D =
     (let b = format_sb P; rest = (\<lambda>xs. xs @ replicate (608 * 512 - length xs) 0) in
      store_at (data_start_lba b) 1 (rest (dot_entries 0 0)) (store_at (inode_table_lba b) 608 (rest (inode_bytes (root_inode b)))
        (store_at (inode_bitmap_lba b) 1 (rest [1]) (store_at (block_bitmap_lba b) (unat (block_bitmap_sects b)) img (store_at (start_lba P + 1) 1 (sb_bytes b pad) D)))))"

lemma sectors_write:
  assumes "unat n = k" "0 < k" "unat lba + k \<le> Suc (unat max_lba)" "512 * k \<le> length buf"
  shows "disk_write dk lba buf n s = Some (s\<lparr>disks := (disks s)(dk := store_at lba k buf (disks s dk))\<rparr>)"
proof -
  have "lba_ok lba n" using assms(1-3) by (intro lba_ok_range) (simp_all add: word_less_nat_alt)
  then show ?thesis using disk_write_store [of lba n buf dk s] assms(1,4) by simp
qed

lemma put_at_start: "length xs \<le> n \<Longrightarrow> put_at 0 xs (replicate n x) = Some (xs @ replicate (n - length xs) x)"
  by (simp add: put_at_def)

lemma format_writes:
  assumes P: "P = parts s part" "620 \<le> unat (sec_cnt P)" "unat (start_lba P) + unat (sec_cnt P) \<le> Suc (unat max_lba)" "length pad = 460"
    and img: "block_bitmap_image (block_bitmap_bit_len (sec_cnt P)) (replicate (608 * 512) 0) = Some img" "length img = 608 * 512"
  shows "\<exists>s1. format_super pad part s = Some s1 \<and> parts s1 = parts s \<and>
    format_areas (608 * 512) part s1 = Some (s\<lparr>disks := (disks s)(my_disk P := formatted pad P img (disks s (my_disk P)))\<rparr>)"
proof -
  let ?b = "format_sb P" and ?dk = "my_disk P" and ?S = "bitmap_sectors (unat (sec_cnt P))" and ?rest = "\<lambda>xs :: u8 list. xs @ replicate (608 * 512 - length xs) 0"
  note at = format_areas_at [OF P(2,3)] and b = sizes_bounds [OF P(2) format_areas_at(9) [OF P(2,3)]]
  have in_part: "611 + ?S < unat (sec_cnt P)" using b(1,4) by simp
  have sb: "length (sb_bytes ?b pad) = 512" using P(4) by (simp add: sb_bytes_def)
  have w0: "disk_write ?dk (start_lba P + 1) (sb_bytes ?b pad) 1 t = Some (t\<lparr>disks := (disks t)(?dk := store_at (start_lba P + 1) 1 (sb_bytes ?b pad) (disks t ?dk))\<rparr>)" for t :: "'a fsys_scheme"
    by (rule sectors_write) (use at(1) P(3) in_part sb in simp_all)
  have w1: "disk_write ?dk (block_bitmap_lba ?b) img (block_bitmap_sects ?b) t = Some (t\<lparr>disks := (disks t)(?dk := store_at (block_bitmap_lba ?b) (unat (block_bitmap_sects ?b)) img (disks t ?dk))\<rparr>)"
    for t :: "'a fsys_scheme" by (rule sectors_write) (use at(2,3) b(2,3) P(3) in_part img(2) in \<open>simp_all add: word_less_nat_alt\<close>)
  have w2: "disk_write ?dk (inode_bitmap_lba ?b) (?rest [1]) (inode_bitmap_sects ?b) t = Some (t\<lparr>disks := (disks t)(?dk := store_at (inode_bitmap_lba ?b) 1 (?rest [1]) (disks t ?dk))\<rparr>)"
    for t :: "'a fsys_scheme" unfolding at(5) by (rule sectors_write) (use at(4) P(3) in_part in simp_all)
  have ri: "length (inode_bytes (root_inode ?b)) = 76" by (rule inode_bytes_length) (simp add: root_inode_def)
  have w3: "disk_write ?dk (inode_table_lba ?b) (?rest (inode_bytes (root_inode ?b))) (inode_table_sects ?b) t =
      Some (t\<lparr>disks := (disks t)(?dk := store_at (inode_table_lba ?b) 608 (?rest (inode_bytes (root_inode ?b))) (disks t ?dk))\<rparr>)"
    for t :: "'a fsys_scheme" unfolding at(7) by (rule sectors_write) (use at(6) P(3) in_part ri in simp_all)
  have de: "length (dot_entries 0 0) = 48" by (simp add: dot_entries_def entry_bytes_def)
  have w4: "disk_write ?dk (data_start_lba ?b) (?rest (dot_entries 0 0)) 1 t = Some (t\<lparr>disks := (disks t)(?dk := store_at (data_start_lba ?b) 1 (?rest (dot_entries 0 0)) (disks t ?dk))\<rparr>)"
    for t :: "'a fsys_scheme" by (rule sectors_write) (use at(8) P(3) in_part de in simp_all)
  define s1 where "s1 = s\<lparr>disks := (disks s)(?dk := store_at (start_lba P + 1) 1 (sb_bytes ?b pad) (disks s ?dk))\<rparr>"
  have "format_super pad part s = Some s1" using w0 [of s] by (simp add: format_super_def P(1) [symmetric] s1_def)
  moreover have "format_areas (608 * 512) part s1 = Some (s\<lparr>disks := (disks s)(?dk := formatted pad P img (disks s ?dk))\<rparr>)"
    unfolding format_areas_def using w1 w2 w3 w4 img(1) ri de
    by (simp add: s1_def P(1) [symmetric] put_at_start root_inode_def [symmetric] formatted_def Let_def del: replicate.simps)
  ultimately show ?thesis by (auto simp: s1_def)
qed
section \<open>A formatted partition\<close>

text \<open>Bit \<open>i\<close> of a bitmap that starts in sector \<open>lba\<close>.\<close>

definition disk_bit :: "(u32 \<Rightarrow> u8 list) \<Rightarrow> u32 \<Rightarrow> nat \<Rightarrow> bool" where
  "disk_bit D lba i = bit (D (lba + of_nat (i div 4096)) ! (i mod 4096 div 8)) (i mod 8)"

text \<open>What mounting and opening the root directory rely on: the super block of the partition, a block bitmap in which the first block is taken, the blocks the partition has are free and the
  rest is taken up to its last sector, an inode bitmap in which only the root is taken, the root inode, its directory with the entries for itself and its parent, and all blocks inside the
  partition.\<close>

definition fresh_partition :: "partition \<Rightarrow> (u32 \<Rightarrow> u8 list) \<Rightarrow> bool" where
  "fresh_partition P D =
     (let b = format_sb P; n = data_blocks (unat (sec_cnt P)) in
      bytes_sb (D (start_lba P + 1)) = b \<and>
      (\<forall>i < 4096 * unat (block_bitmap_sects b). disk_bit D (block_bitmap_lba b) i \<longleftrightarrow> i = 0 \<or> n < i) \<and>
      (\<forall>i < 4096. disk_bit D (inode_bitmap_lba b) i \<longleftrightarrow> i = 0) \<and>
      bytes_inode (D (inode_table_lba b)) = root_inode b \<and>
      take 48 (D (data_start_lba b)) = dot_entries 0 0 \<and>
      unat (data_start_lba b) + n \<le> unat (start_lba P) + unat (sec_cnt P))"

lemma rest_take: "length xs \<le> m \<Longrightarrow> m \<le> n \<Longrightarrow> take m (xs @ replicate (n - length xs) x) = xs @ replicate (m - length xs) x"
  by (simp add: min_def)

lemma first_bit:
  assumes "i < 4096"
  shows "bit (([1 :: u8] @ replicate 511 0) ! (i div 8)) (i mod 8) \<longleftrightarrow> i = 0"
proof (cases "i div 8")
  case 0
  then show ?thesis by (auto simp: bit_1_iff)
next
  case (Suc k)
  then have "k < 511" "i \<noteq> 0" using assms by auto
  then show ?thesis using Suc by simp
qed

lemma disk_bit_area:
  assumes "i < 4096 * n" "512 * n \<le> length buf" "n \<le> 2 ^ 32"
  shows "disk_bit (store_at lba n buf D) lba i \<longleftrightarrow> bit (buf ! (i div 8)) (i mod 8)"
proof -
  define j k where "j = i div 4096" and "k = i mod 4096 div 8"
  have j: "j < n" using assms(1) by (simp add: j_def div_less_iff_less_mult mult.commute)
  have "i = i mod 4096 + (512 * j) * 8" by (simp add: j_def)
  then have "i div 8 = (i mod 4096 + (512 * j) * 8) div 8" by (rule arg_cong)
  also have "\<dots> = 512 * j + k" unfolding k_def by (subst div_mult_self1) simp_all
  finally have jk: "i div 8 = 512 * j + k" "k < 512" by (simp_all add: k_def div_less_iff_less_mult)
  have "store_at lba n buf D (lba + of_nat j) ! k = buf ! (i div 8)" using j jk assms(2,3) by (simp add: store_at_in)
  then show ?thesis by (simp add: disk_bit_def j_def k_def)
qed
text \<open>A bitmap keeps its bits when an area elsewhere is written.\<close>

lemma disk_bit_out:
  assumes "i < 4096 * n" "unat l + n < 2 ^ 32" "unat l + n \<le> unat lba" "unat lba + k < 2 ^ 32"
  shows "disk_bit (store_at lba k buf D) l i = disk_bit D l i"
proof -
  have j: "i div 4096 < n" using assms(1) by (simp add: div_less_iff_less_mult mult.commute)
  then have u: "unat (of_nat (i div 4096) :: u32) = i div 4096" using assms(2) by (intro unat_of_nat_lt) simp
  then have "unat (l + of_nat (i div 4096)) = unat l + i div 4096" using j assms(2) by (simp add: unat_add_lem [THEN iffD1])
  then have "store_at lba k buf D (l + of_nat (i div 4096)) = D (l + of_nat (i div 4096))" using j assms(3,4) by (intro store_at_out) simp_all
  then show ?thesis by (simp add: disk_bit_def)
qed

lemma formatted_fresh:
  assumes P: "620 \<le> unat (sec_cnt P)" "unat (start_lba P) + unat (sec_cnt P) \<le> Suc (unat max_lba)"
    and pad: "length pad = 460" and img: "length img = 608 * 512"
    and bits: "\<And>i. i < 4096 * bitmap_sectors (unat (sec_cnt P)) \<Longrightarrow> bit (img ! (i div 8)) (i mod 8) \<longleftrightarrow> i = 0 \<or> data_blocks (unat (sec_cnt P)) < i"
  shows "fresh_partition P (formatted pad P img D)"
proof -
  let ?b = "format_sb P" and ?S = "bitmap_sectors (unat (sec_cnt P))" and ?rest = "\<lambda>xs :: u8 list. xs @ replicate (608 * 512 - length xs) 0"
  note at = format_areas_at [OF P] and b = sizes_bounds [OF P(1) format_areas_at(9) [OF P]]
  have s: "unat (start_lba P) \<le> 163840" using P(2) by (simp add: max_lba_def)
  define D1 D2 D3 D4 where "D1 = store_at (start_lba P + 1) 1 (sb_bytes ?b pad) D"
    and "D2 = store_at (block_bitmap_lba ?b) (unat (block_bitmap_sects ?b)) img D1"
    and "D3 = store_at (inode_bitmap_lba ?b) 1 (?rest [1]) D2"
    and "D4 = store_at (inode_table_lba ?b) 608 (?rest (inode_bytes (root_inode ?b))) D3"
  have F: "formatted pad P img D = store_at (data_start_lba ?b) 1 (?rest (dot_entries 0 0)) D4" (is "_ = ?F") by (simp add: formatted_def Let_def D1_def D2_def D3_def D4_def)
  have sb: "length (sb_bytes ?b pad) = 512" using pad by (simp add: sb_bytes_def)
  have "?F (start_lba P + 1) = D1 (start_lba P + 1)" unfolding D4_def D3_def D2_def by (subst store_at_out; use at s b(3) in simp)+
  then have sbk: "bytes_sb (?F (start_lba P + 1)) = ?b" using sb by (simp add: D1_def store_at_first bytes_sb_inverse)
  have bb: "disk_bit ?F (block_bitmap_lba ?b) i \<longleftrightarrow> i = 0 \<or> data_blocks (unat (sec_cnt P)) < i" if "i < 4096 * ?S" for i
  proof -
    have "disk_bit ?F (block_bitmap_lba ?b) i = disk_bit D2 (block_bitmap_lba ?b) i" unfolding D4_def D3_def by (subst disk_bit_out [OF that]; use at s b(3) in simp)+
    also have "\<dots> \<longleftrightarrow> bit (img ! (i div 8)) (i mod 8)" unfolding D2_def by (rule disk_bit_area) (use that at(3) b(3) img in simp_all)
    finally show ?thesis using bits [OF that] by simp
  qed
  have ib: "disk_bit ?F (inode_bitmap_lba ?b) i \<longleftrightarrow> i = 0" if i: "i < 4096" for i
  proof -
    have i1: "i < 4096 * 1" using i by simp
    have "disk_bit ?F (inode_bitmap_lba ?b) i = disk_bit D3 (inode_bitmap_lba ?b) i" unfolding D4_def by (subst disk_bit_out [OF i1]; use at s b(3) in simp)+
    also have "\<dots> \<longleftrightarrow> bit (?rest [1] ! (i div 8)) (i mod 8)" unfolding D3_def by (rule disk_bit_area) (use i in simp_all)
    also have "?rest [1] ! (i div 8) = ([1] @ replicate 511 0) ! (i div 8)" using i by (auto simp: nth_Cons split: nat.split)
    finally show ?thesis using first_bit [OF i] by simp
  qed
  have ri: "length (i_sectors (root_inode ?b)) = 13" by (simp add: root_inode_def)
  have "?F (inode_table_lba ?b) = D4 (inode_table_lba ?b)" by (rule store_at_out) (use at s b(3) in simp_all)
  also have "\<dots> = inode_bytes (root_inode ?b) @ replicate 436 0" unfolding D4_def using inode_bytes_length [OF ri] by (simp add: store_at_first)
  finally have it: "bytes_inode (?F (inode_table_lba ?b)) = root_inode ?b" using bytes_inode_inverse [OF ri] by simp
  have "length (dot_entries 0 0) = 48" by (simp add: dot_entries_def entry_bytes_def)
  then have de: "take 48 (?F (data_start_lba ?b)) = dot_entries 0 0" by (simp add: store_at_first)
  have "unat (data_start_lba ?b) + data_blocks (unat (sec_cnt P)) \<le> unat (start_lba P) + unat (sec_cnt P)" using at(8) b(4) by simp
  then show ?thesis using sbk bb ib it de unfolding F fresh_partition_def Let_def at(3) by blast
qed
lemma formatted_outside:
  assumes P: "620 \<le> unat (sec_cnt P)" "unat (start_lba P) + unat (sec_cnt P) \<le> Suc (unat max_lba)"
    and l: "unat l \<le> unat (start_lba P) \<or> unat (data_start_lba (format_sb P)) < unat l"
  shows "formatted pad P img D l = D l"
proof -
  note at = format_areas_at [OF P] and b = sizes_bounds [OF P(1) format_areas_at(9) [OF P]]
  have s: "unat (start_lba P) \<le> 163840" using P(2) by (simp add: max_lba_def)
  show ?thesis unfolding formatted_def Let_def by (subst store_at_out; use at s b(3) l in auto)+
qed



end
