(* ===== verification/Spec2Isabelle.thy ===== *)
theory Spec2Isabelle
  imports Start Release Format
begin

text \<open>
  \<^bold>\<open>A verification library of the ElephantOS kernel\<close>

  ElephantOS is a small 32-bit kernel in C: memory management with paging, kernel threads and user processes, locks, an interrupt-driven keyboard, a console, system calls and a
  file system on an IDE disk. This development models its routines as functions on a state and proves what they compute.

  \<^bold>\<open>Conventions.\<close> Memory is a function from 32-bit addresses to bytes; machine integers are words of their width, so that arithmetic wraps around as in the code, and signed comparisons
  read them with \<open>sint\<close>. The state is a chain of extended records: \<open>machine\<close> (memory, link cells, interrupt flag), \<open>tsys\<close> (threads, semaphores, locks), \<open>iosys\<close> (ring buffers, keyboard), \<open>memsys\<close> (page pools, page tables,
  heap), \<open>consys\<close> (screen, system call table), \<open>fsys\<close> (inodes, directories, partitions, open files, disks) and \<open>idesys\<close> (channels and controller). A function that can fail an assertion, call \<open>PANIC\<close>, use memory it must
  not use, or not return, has an option as its result, and \<open>None\<close> stands for all of these. Loops with an obvious bound are structural recursion, other loops are functions with a
  termination proof, and loops that may run for ever are partial functions into option; where such a loop is claimed to return, a theorem gives its value. No fuel is used.
  The parameter \<open>others\<close> of blocking operations stands for what the other threads do between the suspension of a thread and its return: a function on states that may also give \<open>None\<close>.

  \<^bold>\<open>Theories and sources.\<close>
  \<^item> \<^verbatim>\<open>Prelude\<close>: types, \<open>ASSERT\<close> and \<open>DIV_ROUND_UP\<close> (\<^verbatim>\<open>kernel/debug.h\<close>, \<^verbatim>\<open>kernel/global.h\<close>), lemmas on words, memory and lists.
  \<^item> \<^verbatim>\<open>CString\<close>: \<^verbatim>\<open>lib/string.c\<close>, byte by byte over memory. \<^verbatim>\<open>Stdio\<close>: \<^verbatim>\<open>lib/stdio.c\<close>; number conversion is inverted by reading the digits, formatting equals a reference formatter.
  \<^item> \<^verbatim>\<open>Bitmap\<close>: \<^verbatim>\<open>lib/kernel/bitmap.c\<close>; the scan equals a first-fit search. \<^verbatim>\<open>Alloc\<close>: the locale \<open>bit_allocator\<close> of allocators over a bitmap, interpreted by the page pools and by the inodes
    and blocks of a partition.
  \<^item> \<^verbatim>\<open>DList\<close>: \<^verbatim>\<open>lib/kernel/list.c\<close>; the linked cells refine lists. \<^verbatim>\<open>Fifo\<close>: the locale of first-in first-out queues, interpreted by the linked lists and by the ring buffer.
  \<^item> \<^verbatim>\<open>Mutex\<close>: the locale of locks as the process numbers, the heap, the console and the disk driver use them, interpreted by the locks of \<^verbatim>\<open>Sync\<close>. \<^verbatim>\<open>Sectors\<close>: the locale of devices
    of sectors, interpreted by the functions on which the file system is modelled and by the disk driver, which therefore agree on every sequence of transfers.
  \<^item> \<^verbatim>\<open>Interrupt\<close>, \<^verbatim>\<open>Gates\<close>: \<^verbatim>\<open>kernel/interrupt.c\<close>, \<^verbatim>\<open>userprog/tss.c\<close>; the interrupt flag, gates and segment descriptors.
  \<^item> \<^verbatim>\<open>Thread\<close>, \<^verbatim>\<open>ThreadInit\<close>: \<^verbatim>\<open>thread/thread.c\<close>, \<^verbatim>\<open>thread/switch.S\<close>, the timer interrupt; the scheduler invariant and what scheduling, blocking, waking, yielding and starting a thread do to the ready queue.
  \<^item> \<^verbatim>\<open>Sync\<close>: \<^verbatim>\<open>thread/sync.c\<close>; all interleavings of lock operations as a step relation, with mutual exclusion, absence of failed assertions and of lost waiters.
  \<^item> \<^verbatim>\<open>Paging\<close>, \<^verbatim>\<open>Memory\<close>, \<^verbatim>\<open>PageTables\<close>, \<^verbatim>\<open>Heap\<close>: \<^verbatim>\<open>kernel/memory.c\<close>; page pools, address translation through the self map, mapping of pages, and the block heap.
  \<^item> \<^verbatim>\<open>IOQueue\<close>, \<^verbatim>\<open>Keyboard\<close>, \<^verbatim>\<open>Timer\<close>, \<^verbatim>\<open>Console\<close>: \<^verbatim>\<open>device/\<close>, \<^verbatim>\<open>lib/kernel/stdio-kernel.c\<close> and the system calls of \<^verbatim>\<open>userprog/syscall-init.c\<close> and \<^verbatim>\<open>lib/user/syscall.c\<close>.
  \<^item> \<^verbatim>\<open>Process\<close>: \<^verbatim>\<open>userprog/process.c\<close>; the address space of a new process.
  \<^item> \<^verbatim>\<open>FsData\<close>, \<^verbatim>\<open>Inode\<close>, \<^verbatim>\<open>Blocks\<close>, \<^verbatim>\<open>Directory\<close>, \<^verbatim>\<open>OpenFile\<close>, \<^verbatim>\<open>FileWrite\<close>, \<^verbatim>\<open>Path\<close>, \<^verbatim>\<open>Fs\<close>: \<^verbatim>\<open>fs/\<close>; structures and their layout on disk, inodes, block allocation, directories, files, paths and the
    system calls of the file system. Buffers that a function obtains and gives back are lists of bytes; the calls of the heap are there. Transfers between memory and disk are
    the functions \<open>disk_read\<close> and \<open>disk_write\<close> on whole sectors. The lemmas treat what happens between obtaining and giving back such buffers:
    reading gives the contents of a file, writing appends to them and keeps files well-formed and apart, and a directory entry that was added is found.
  \<^item> \<^verbatim>\<open>Ide\<close>: \<^verbatim>\<open>device/ide.c\<close>. The controller is the parameter \<open>hw\<close>, and \<open>ata_ok\<close> and \<open>irq_ok\<close> are the hypotheses on it and on its interrupt; reading and writing through the driver refine
    \<open>disk_read\<close> and \<open>disk_write\<close>. The second hypothesis is proved for an interrupt that arrives before the driver waits, with the handler of the kernel.
  \<^item> \<^verbatim>\<open>Release\<close>, \<^verbatim>\<open>Format\<close>: two consequences for the disk. Releasing a file frees exactly the blocks it owns, and formatting leaves a file system in which the super block, the
    bitmaps, the root inode and the root directory are what mounting expects.
  \<^item> \<^verbatim>\<open>Start\<close>: \<^verbatim>\<open>kernel/init.c\<close> and \<^verbatim>\<open>kernel/main.c\<close>, all components on one state; the handlers and what they use are in place when interrupts are enabled.

  \<^bold>\<open>Bounds.\<close> Bitmaps have less than \<open>2 ^ 28\<close> bytes, so that bit numbers do not overflow an \<open>int\<close>; the largest of the kernel has 24119. The page pools are treated for 2 to 258 MB of memory,
  above which the code truncates page counts. A disk has \<open>80 * 1024 * 1024 / 512\<close> sectors, as the driver asserts.

  \<^bold>\<open>Not modelled.\<close> The boot sector, the loader, the interrupt entry stubs and the screen routines are assembly; of the last the effect on the sequence of characters is modelled.
  The addresses that the compiler and the linker choose for functions, constants and local variables are parameters. \<^verbatim>\<open>main\<close> and its threads are modelled up to their endless loops.
  Messages that the initialisation, the file system and the disk driver print are not part of the state.
\<close>

end
